(* ===== verification/Prelude.thy ===== *)
theory Prelude
  imports Main "HOL-Library.Word" "HOL-Library.List_Lexorder" "HOL-Library.Product_Lexorder"
    "HOL-Library.Multiset"
begin

text \<open>
  Shared ground of the development: what the Rust core uses of its language and standard
  library, and the generic lemmas the components share.

  \<^item> A \<open>String\<close> is the list of its Unicode scalar values (\<open>ustr\<close>); \<open>len()\<close>
    counts the bytes of its UTF-8 encoding (\<open>ulen\<close>) and \<open>chars().count()\<close> is \<open>length\<close>.
  \<^item> An \<open>i64\<close> is an \<open>int\<close> with the saturation of \<open>saturating_add\<close> and
    \<open>saturating_sub\<close> written out; a generation counter (\<open>u64\<close> with
    \<open>wrapping_add\<close>) is a \<open>64 word\<close>; sizes are \<open>nat\<close>.
  \<^item> A \<open>BTreeMap<String, V>\<close> is an association list in ascending key order
    (\<open>'v btree\<close>), so \<open>values()\<close> and \<open>len()\<close> are what the code iterates and counts.
    Its contract is the locale \<open>keyed_store\<close>, interpreted on these operations.
\<close>

named_theorems size_caps \<open>the numeric limits of the program, as numerals\<close>
named_theorems handler_defs \<open>definitions of the event handlers and of what they call\<close>
named_theorems frame \<open>what an operation leaves alone\<close>

section \<open>Bytes and strings\<close>

type_synonym byte = "8 word"
type_synonym bytes = "byte list"
type_synonym ustr = "nat list"

definition lit :: "string \<Rightarrow> ustr" where
  "lit s = map of_char s"

lemma lit_eq_iff [simp]: "lit s = lit t \<longleftrightarrow> s = t"
  by (simp add: lit_def inj_map_eq_map inj_of_char)

lemma lit_Nil [simp]: "lit [] = []" and lit_eq_Nil [simp]: "lit s = [] \<longleftrightarrow> s = []"
  by (simp_all add: lit_def)

lemma length_lit [simp]: "length (lit s) = length s"
  by (simp add: lit_def)

lemma lit_append: "lit (s @ t) = lit s @ lit t"
  by (simp add: lit_def)

lemma byte_lt_256 [simp]: "unat (b :: byte) < 256"
  using unsigned_less [of b, where ?'a = nat] by simp

text \<open>The UTF-8 encoding of one scalar value, as \<open>str::as_bytes\<close> exposes it.\<close>

definition utf8_char :: "nat \<Rightarrow> bytes" where
  "utf8_char c =
     (if c < 0x80 then [of_nat c]
      else if c < 0x800 then [of_nat (0xC0 + c div 64), of_nat (0x80 + c mod 64)]
      else if c < 0x10000 then
        [of_nat (0xE0 + c div 4096), of_nat (0x80 + c div 64 mod 64), of_nat (0x80 + c mod 64)]
      else
        [of_nat (0xF0 + c div 262144), of_nat (0x80 + c div 4096 mod 64),
         of_nat (0x80 + c div 64 mod 64), of_nat (0x80 + c mod 64)])"

definition utf8_encode :: "ustr \<Rightarrow> bytes" where
  "utf8_encode s = concat (map utf8_char s)"

definition ulen :: "ustr \<Rightarrow> nat" where
  "ulen s = length (utf8_encode s)"

lemma utf8_char_length: "1 \<le> length (utf8_char c) \<and> length (utf8_char c) \<le> 4"
  by (simp add: utf8_char_def)

lemma utf8_encode_simps [simp]:
  "utf8_encode [] = []"
  "utf8_encode (c # s) = utf8_char c @ utf8_encode s"
  "utf8_encode (s @ t) = utf8_encode s @ utf8_encode t"
  by (simp_all add: utf8_encode_def)

lemma ulen_simps [simp]:
  "ulen [] = 0"
  "ulen (c # s) = length (utf8_char c) + ulen s"
  "ulen (s @ t) = ulen s + ulen t"
  by (simp_all add: ulen_def)

lemma ulen_eq_0 [simp]: "ulen s = 0 \<longleftrightarrow> s = []"
proof (cases s)
  case (Cons c t)
  then show ?thesis using utf8_char_length [of c] by auto
qed simp

lemma length_le_ulen: "length s \<le> ulen s"
proof (induction s)
  case (Cons c s)
  then show ?case using utf8_char_length [of c] by simp
qed simp

lemma ulen_le_4: "ulen s \<le> 4 * length s"
proof (induction s)
  case (Cons c s)
  then show ?case using utf8_char_length [of c] by simp
qed simp

lemma ulen_filter_le: "ulen (filter P s) \<le> ulen s"
  by (induction s) auto

text \<open>What a Rust \<open>char\<close> can be: a Unicode scalar value.\<close>

definition is_scalar :: "nat \<Rightarrow> bool" where
  "is_scalar c \<longleftrightarrow> c < 0xD800 \<or> (0xE000 \<le> c \<and> c \<le> 0x10FFFF)"

definition is_ascii :: "ustr \<Rightarrow> bool" where
  "is_ascii s \<longleftrightarrow> list_all (\<lambda>c. c < 0x80) s"

lemma ulen_ascii: "is_ascii s \<Longrightarrow> ulen s = length s"
  by (induction s) (auto simp: is_ascii_def utf8_char_def)

text \<open>\<open>char::is_whitespace\<close>: the Unicode property \<open>White_Space\<close>.\<close>

definition is_whitespace :: "nat \<Rightarrow> bool" where
  "is_whitespace c \<longleftrightarrow>
     (9 \<le> c \<and> c \<le> 13) \<or> c = 0x20 \<or> c = 0x85 \<or> c = 0xA0 \<or> c = 0x1680 \<or>
     (0x2000 \<le> c \<and> c \<le> 0x200A) \<or> c = 0x2028 \<or> c = 0x2029 \<or> c = 0x202F \<or> c = 0x205F \<or>
     c = 0x3000"

definition trim_end_matches :: "nat \<Rightarrow> ustr \<Rightarrow> ustr" where
  "trim_end_matches c s = rev (dropWhile (\<lambda>x. x = c) (rev s))"

definition trim :: "ustr \<Rightarrow> ustr" where
  "trim s = rev (dropWhile is_whitespace (rev (dropWhile is_whitespace s)))"

definition ascii_lower :: "nat \<Rightarrow> nat" where
  "ascii_lower c = (if 65 \<le> c \<and> c \<le> 90 then c + 32 else c)"

text \<open>\<open>str::split(ch)\<close>: always at least one part.\<close>

fun split_on :: "nat \<Rightarrow> ustr \<Rightarrow> ustr list" where
  "split_on ch [] = [[]]"
| "split_on ch (c # s) =
     (if c = ch then [] # split_on ch s
      else (case split_on ch s of [] \<Rightarrow> [[c]] | p # ps \<Rightarrow> (c # p) # ps))"

fun join_with :: "nat \<Rightarrow> ustr list \<Rightarrow> ustr" where
  "join_with ch [] = []"
| "join_with ch [p] = p"
| "join_with ch (p # q # ps) = p @ ch # join_with ch (q # ps)"

lemma split_on_nonempty [simp]: "split_on ch s \<noteq> []"
  by (induction s) (auto split: list.splits)

lemma split_on_no_sep: "ch \<notin> set p \<Longrightarrow> split_on ch p = [p]"
  by (induction p) auto

lemma split_on_append_sep: "ch \<notin> set p \<Longrightarrow> split_on ch (p @ ch # s) = p # split_on ch s"
  by (induction p) auto

lemma split_join:
  "ps \<noteq> [] \<Longrightarrow> \<forall>p\<in>set ps. ch \<notin> set p \<Longrightarrow> split_on ch (join_with ch ps) = ps"
proof (induction ch ps rule: join_with.induct)
  case (3 ch p q ps)
  then show ?case by (simp add: split_on_append_sep)
qed (simp_all add: split_on_no_sep)

text \<open>\<open>str::parse::<u64>()\<close>: an optional plus sign, at least one digit, no overflow.\<close>

definition digit_value :: "nat \<Rightarrow> nat option" where
  "digit_value c = (if 48 \<le> c \<and> c \<le> 57 then Some (c - 48) else None)"

fun parse_digits :: "nat \<Rightarrow> ustr \<Rightarrow> nat option" where
  "parse_digits acc [] = Some acc"
| "parse_digits acc (c # s) =
     (case digit_value c of
        None \<Rightarrow> None
      | Some d \<Rightarrow> if acc * 10 + d < 2 ^ 64 then parse_digits (acc * 10 + d) s else None)"

definition parse_u64 :: "ustr \<Rightarrow> nat option" where
  "parse_u64 s =
     (let t = (case s of [] \<Rightarrow> [] | c # r \<Rightarrow> if c = 43 then r else s)
      in if t = [] then None else parse_digits 0 t)"

lemma parse_digits_bound: "acc < 2 ^ 64 \<Longrightarrow> parse_digits acc s = Some n \<Longrightarrow> n < 2 ^ 64"
  by (induction acc s rule: parse_digits.induct) (auto split: option.splits if_splits)

lemma parse_u64_bound: "parse_u64 s = Some n \<Longrightarrow> n < 2 ^ 64"
  by (auto simp: parse_u64_def Let_def split: if_splits intro: parse_digits_bound [of 0, simplified])

section \<open>Machine integers\<close>

definition i64_min :: int where "i64_min = - (2 ^ 63)"
definition i64_max :: int where "i64_max = 2 ^ 63 - 1"

definition in_i64 :: "int \<Rightarrow> bool" where
  "in_i64 x \<longleftrightarrow> i64_min \<le> x \<and> x \<le> i64_max"

definition sat_i64 :: "int \<Rightarrow> int" where
  "sat_i64 x = max i64_min (min i64_max x)"

definition sat_add :: "int \<Rightarrow> int \<Rightarrow> int" where "sat_add a b = sat_i64 (a + b)"
definition sat_sub :: "int \<Rightarrow> int \<Rightarrow> int" where "sat_sub a b = sat_i64 (a - b)"

lemma in_i64_sat [simp]: "in_i64 (sat_i64 x)"
  by (simp add: in_i64_def sat_i64_def i64_min_def i64_max_def)

lemma sat_i64_id: "in_i64 x \<Longrightarrow> sat_i64 x = x"
  by (simp add: in_i64_def sat_i64_def)

lemma sat_add_le: "in_i64 a \<Longrightarrow> 0 \<le> b \<Longrightarrow> a \<le> sat_add a b \<and> sat_add a b \<le> a + b"
  by (auto simp: sat_add_def sat_i64_def in_i64_def i64_min_def)

text \<open>\<open>u128 as i64\<close>: the low 64 bits, read as two's complement.\<close>

definition as_i64 :: "nat \<Rightarrow> int" where
  "as_i64 n = sint (of_nat n :: 64 word)"

lemma in_i64_as_i64 [simp]: "in_i64 (as_i64 n)"
  using sint_range_size [of "of_nat n :: 64 word"]
  by (simp add: as_i64_def in_i64_def i64_min_def i64_max_def word_size)

definition u32_max :: nat where "u32_max = 2 ^ 32 - 1"

definition sat_inc_u32 :: "nat \<Rightarrow> nat" where
  "sat_inc_u32 n = min u32_max (n + 1)"

section \<open>Ordered maps\<close>

type_synonym 'v btree = "(ustr \<times> 'v) list"

fun bt_insert :: "ustr \<Rightarrow> 'v \<Rightarrow> 'v btree \<Rightarrow> 'v btree" where
  "bt_insert k v [] = [(k, v)]"
| "bt_insert k v ((k', v') # m) =
     (if k < k' then (k, v) # (k', v') # m
      else if k = k' then (k, v) # m
      else (k', v') # bt_insert k v m)"

definition bt_get :: "'v btree \<Rightarrow> ustr \<Rightarrow> 'v option" where
  "bt_get m k = map_of m k"

definition bt_remove :: "ustr \<Rightarrow> 'v btree \<Rightarrow> 'v btree" where
  "bt_remove k m = filter (\<lambda>(k', v). k' \<noteq> k) m"

text \<open>\<open>get_mut\<close> followed by an assignment: nothing happens to an absent key.\<close>

definition bt_modify :: "ustr \<Rightarrow> ('v \<Rightarrow> 'v) \<Rightarrow> 'v btree \<Rightarrow> 'v btree" where
  "bt_modify k f m = map (\<lambda>(k', v). (k', if k' = k then f v else v)) m"

definition bt_values :: "'v btree \<Rightarrow> 'v list" where
  "bt_values m = map snd m"

definition bt_keys :: "'v btree \<Rightarrow> ustr list" where
  "bt_keys m = map fst m"

definition bt_wf :: "'v btree \<Rightarrow> bool" where
  "bt_wf m \<longleftrightarrow> sorted_wrt (<) (bt_keys m)"

text \<open>Collecting pairs into a map: the last of several equal keys stays.\<close>

definition bt_collect :: "(ustr \<times> 'v) list \<Rightarrow> 'v btree" where
  "bt_collect kvs = fold (\<lambda>(k, v) m. bt_insert k v m) kvs []"

locale keyed_store =
  fixes get :: "'m \<Rightarrow> 'k \<Rightarrow> 'v option"
    and insert :: "'k \<Rightarrow> 'v \<Rightarrow> 'm \<Rightarrow> 'm"
    and remove :: "'k \<Rightarrow> 'm \<Rightarrow> 'm"
    and modify :: "'k \<Rightarrow> ('v \<Rightarrow> 'v) \<Rightarrow> 'm \<Rightarrow> 'm"
    and invar :: "'m \<Rightarrow> bool"
  assumes get_insert: "get (insert k v m) k' = (if k' = k then Some v else get m k')"
    and get_remove: "get (remove k m) k' = (if k' = k then None else get m k')"
    and get_modify: "get (modify k f m) k' = (if k' = k then map_option f (get m k) else get m k')"
    and invar_insert: "invar m \<Longrightarrow> invar (insert k v m)"
    and invar_remove: "invar m \<Longrightarrow> invar (remove k m)"
    and invar_modify: "invar m \<Longrightarrow> invar (modify k f m)"
begin

lemma insert_then_remove: "get (remove k (insert k v m)) = get (remove k m)"
  by (rule ext) (simp add: get_insert get_remove)

lemma modify_absent: "get m k = None \<Longrightarrow> get (modify k f m) = get m"
  by (rule ext) (simp add: get_modify)

lemma forall_insert:
  assumes "P k v" and "\<And>k' v'. get m k' = Some v' \<Longrightarrow> P k' v'"
    and "get (insert k v m) k' = Some v'"
  shows "P k' v'"
  using assms by (auto simp: get_insert split: if_splits)

lemma forall_modify:
  assumes "\<And>v. get m k = Some v \<Longrightarrow> P k (f v)" and "\<And>k' v'. get m k' = Some v' \<Longrightarrow> P k' v'"
    and "get (modify k f m) k' = Some v'"
  shows "P k' v'"
  using assms by (auto simp: get_modify split: if_splits)

end

lemma bt_get_insert: "bt_get (bt_insert k v m) k' = (if k' = k then Some v else bt_get m k')"
  by (induction k v m rule: bt_insert.induct) (auto simp: bt_get_def)

lemma bt_get_remove: "bt_get (bt_remove k m) k' = (if k' = k then None else bt_get m k')"
  by (induction m) (auto simp: bt_get_def bt_remove_def)

lemma bt_get_modify:
  "bt_get (bt_modify k f m) k' = (if k' = k then map_option f (bt_get m k) else bt_get m k')"
  by (induction m) (auto simp: bt_get_def bt_modify_def)

lemma set_keys_insert: "set (bt_keys (bt_insert k v m)) = insert k (set (bt_keys m))"
  by (induction k v m rule: bt_insert.induct) (auto simp: bt_keys_def)

lemma bt_wf_insert: "bt_wf m \<Longrightarrow> bt_wf (bt_insert k v m)"
proof (induction k v m rule: bt_insert.induct)
  case (2 k v k' v' m)
  then show ?case
    using set_keys_insert [of k v m]
    by (auto simp: bt_wf_def bt_keys_def intro: less_trans)
qed (simp add: bt_wf_def bt_keys_def)

lemma bt_wf_remove: "bt_wf m \<Longrightarrow> bt_wf (bt_remove k m)"
  by (induction m) (auto simp: bt_wf_def bt_keys_def bt_remove_def)

lemma bt_keys_modify [simp]: "bt_keys (bt_modify k f m) = bt_keys m"
  by (induction m) (auto simp: bt_keys_def bt_modify_def)

lemma bt_wf_modify: "bt_wf m \<Longrightarrow> bt_wf (bt_modify k f m)"
  by (simp add: bt_wf_def)

interpretation bt: keyed_store bt_get bt_insert bt_remove bt_modify bt_wf
  by unfold_locales
    (simp_all add: bt_get_insert bt_get_remove bt_get_modify bt_wf_insert bt_wf_remove bt_wf_modify)

lemmas bt_get_simps = bt.get_insert bt.get_remove bt.get_modify

lemma bt_get_None_iff: "bt_get m k = None \<longleftrightarrow> k \<notin> set (bt_keys m)"
  by (auto simp: bt_get_def bt_keys_def map_of_eq_None_iff)

lemma bt_wf_distinct: "bt_wf m \<Longrightarrow> distinct (bt_keys m)"
  by (simp add: bt_wf_def strict_sorted_iff)

lemma bt_get_Some_iff: "bt_wf m \<Longrightarrow> bt_get m k = Some v \<longleftrightarrow> (k, v) \<in> set m"
  using bt_wf_distinct [of m] by (simp add: bt_get_def bt_keys_def map_of_eq_Some_iff)

lemma bt_get_in_set: "bt_get m k = Some v \<Longrightarrow> (k, v) \<in> set m"
  by (simp add: bt_get_def map_of_SomeD)

lemma length_bt_insert:
  "bt_wf m \<Longrightarrow> length (bt_insert k v m) = (if bt_get m k = None then Suc (length m) else length m)"
proof (induction k v m rule: bt_insert.induct)
  case (2 k v k' v' m)
  have "k < k' \<Longrightarrow> map_of m k = None"
    using 2(2) by (force simp: bt_wf_def bt_keys_def map_of_eq_None_iff)
  moreover have "bt_wf m"
    using 2(2) by (simp add: bt_wf_def bt_keys_def)
  ultimately show ?case using 2(1) by (auto simp: bt_get_def)
qed (simp add: bt_get_def)

lemma length_bt_modify [simp]: "length (bt_modify k f m) = length m"
  by (simp add: bt_modify_def)

lemma length_bt_remove: "length (bt_remove k m) \<le> length m"
  by (simp add: bt_remove_def)

lemma bt_wf_collect: "bt_wf (bt_collect kvs)"
proof -
  have "bt_wf m \<Longrightarrow> bt_wf (fold (\<lambda>(k, v) m. bt_insert k v m) kvs m)" for m :: "'a btree"
    by (induction kvs arbitrary: m) (auto simp: bt_wf_insert)
  then show ?thesis by (simp add: bt_collect_def bt_wf_def bt_keys_def)
qed

lemma bt_wf_Nil [simp]: "bt_wf []"
  by (simp add: bt_wf_def bt_keys_def)

lemma bt_get_Nil [simp]: "bt_get [] k = None"
  by (simp add: bt_get_def)

lemma bt_get_collect: "bt_get (bt_collect kvs) k = map_of (rev kvs) k"
proof -
  have "bt_get (fold (\<lambda>(k, v) m. bt_insert k v m) kvs m) k =
      (case map_of (rev kvs) k of Some v \<Rightarrow> Some v | None \<Rightarrow> bt_get m k)" for m
    by (induction kvs arbitrary: m)
      (auto simp: bt_get_simps map_add_def split: option.splits prod.splits)
  then show ?thesis by (simp add: bt_collect_def split: option.splits)
qed

lemma bt_collect_key:
  assumes "\<forall>(k, v)\<in>set kvs. key v = k" and "bt_get (bt_collect kvs) k = Some v"
  shows "key v = k"
proof -
  have "(k, v) \<in> set kvs"
    using assms(2) map_of_SomeD [of "rev kvs" k v] by (simp add: bt_get_collect)
  with assms(1) show ?thesis by blast
qed

section \<open>Lists\<close>

text \<open>A prefix that satisfies a filter survives it as the same prefix.\<close>

lemma take_filter_prefix:
  "list_all P (take n xs) \<Longrightarrow> n \<le> length xs \<Longrightarrow>
     take n (filter P xs) = take n xs \<and> n \<le> length (filter P xs)"
proof (induction xs arbitrary: n)
  case (Cons x xs)
  then show ?case by (cases n) auto
qed simp

text \<open>\<open>slice::chunks(n)\<close>.\<close>

function chunks :: "nat \<Rightarrow> 'a list \<Rightarrow> 'a list list" where
  "chunks n xs = (if xs = [] \<or> n = 0 then [] else take n xs # chunks n (drop n xs))"
  by pat_completeness auto
termination by (relation "measure (\<lambda>(n, xs). length xs)") auto

declare chunks.simps [simp del]

lemma chunks_Nil [simp]: "chunks n [] = []"
  by (simp add: chunks.simps)

lemma chunks_one [simp]: "0 < n \<Longrightarrow> chunks n [x] = [[x]]"
  by (simp add: chunks.simps [of n "[x]"])

lemma concat_chunks: "0 < n \<Longrightarrow> concat (chunks n xs) = xs"
proof (induction n xs rule: chunks.induct)
  case (1 n xs)
  then show ?case by (cases "xs = []") (simp_all add: chunks.simps [of n xs])
qed

lemma chunk_length: "c \<in> set (chunks n xs) \<Longrightarrow> 0 < length c \<and> length c \<le> n"
proof (induction n xs rule: chunks.induct)
  case (1 n xs)
  then show ?case by (cases "xs = [] \<or> n = 0") (auto simp: chunks.simps [of n xs])
qed

end
