(* ===== verification/Phonemic.thy ===== *)
theory Phonemic
  imports Prelude
begin

text \<open>
  The \<open>@p\<close> syllable encoding of public keys (\<open>core/src/phonemic.rs\<close>): the two syllable
  tables, the encoder \<open>to_ob\<close>, the decoder \<open>from_ob\<close> and the contact-identifier parser
  \<open>try_parse_pubkey\<close>.

  Code that is not in the repository is a field of \<open>phonemic_ext\<close>: the \<open>hex\<close> crate, the
  curve-point check of \<open>ed25519_dalek::VerifyingKey::from_bytes\<close>, and the non-ASCII part of
  \<open>str::to_lowercase\<close>, which is table driven. \<open>phonemic_ext_ok\<close> states what the code relies
  on: hex encoding is digits that decode back, and lower-casing an ASCII string is
  lower-casing each character.
\<close>

record phonemic_ext =
  hex_encode :: "bytes \<Rightarrow> ustr"
  hex_decode :: "ustr \<Rightarrow> bytes option"
  to_lowercase :: "ustr \<Rightarrow> ustr"
  ed_valid_key :: "bytes \<Rightarrow> bool"

definition is_hex_digit :: "nat \<Rightarrow> bool" where
  "is_hex_digit c \<longleftrightarrow> (48 \<le> c \<and> c \<le> 57) \<or> (97 \<le> c \<and> c \<le> 102)"

definition phonemic_ext_ok :: "'z phonemic_ext_scheme \<Rightarrow> bool" where
  "phonemic_ext_ok X \<longleftrightarrow>
     (\<forall>b. hex_decode X (hex_encode X b) = Some b) \<and>
     (\<forall>b. list_all is_hex_digit (hex_encode X b) \<and> length (hex_encode X b) = 2 * length b) \<and>
     (\<forall>s. is_ascii s \<longrightarrow> to_lowercase X s = map ascii_lower s)"

section \<open>The syllable tables\<close>

definition PREFIXES :: "ustr list" where
  "PREFIXES = map lit [
    ''doz'', ''mar'', ''bin'', ''wan'', ''sam'', ''lit'', ''sig'', ''hid'', ''fid'', ''lis'', ''sog'', ''dir'', ''wac'',
    ''sab'', ''wis'', ''sib'', ''rig'', ''sol'', ''dop'', ''mod'', ''fog'', ''lid'', ''hop'', ''dar'', ''dor'', ''lor'',
    ''hod'', ''fol'', ''rin'', ''tog'', ''sil'', ''mir'', ''hol'', ''pas'', ''lac'', ''rov'', ''liv'', ''dal'', ''sat'',
    ''lib'', ''tab'', ''han'', ''tic'', ''pid'', ''tor'', ''bol'', ''fos'', ''dot'', ''los'', ''dil'', ''for'', ''pil'',
    ''ram'', ''tir'', ''win'', ''tad'', ''bic'', ''dif'', ''roc'', ''wid'', ''bis'', ''das'', ''mid'', ''lop'', ''ril'',
    ''nar'', ''dap'', ''mol'', ''san'', ''loc'', ''nov'', ''sit'', ''nid'', ''tip'', ''sic'', ''rop'', ''wit'', ''nat'',
    ''pan'', ''min'', ''rit'', ''pod'', ''mot'', ''tam'', ''tol'', ''sav'', ''pos'', ''nap'', ''nop'', ''som'', ''fin'',
    ''fon'', ''ban'', ''mor'', ''wor'', ''sip'', ''ron'', ''nor'', ''bot'', ''wic'', ''soc'', ''wat'', ''dol'', ''mag'',
    ''pic'', ''dav'', ''bid'', ''bal'', ''tim'', ''tas'', ''mal'', ''lig'', ''siv'', ''tag'', ''pad'', ''sal'', ''div'',
    ''dac'', ''tan'', ''sid'', ''fab'', ''tar'', ''mon'', ''ran'', ''nis'', ''wol'', ''mis'', ''pal'', ''las'', ''dis'',
    ''map'', ''rab'', ''tob'', ''rol'', ''lat'', ''lon'', ''nod'', ''nav'', ''fig'', ''nom'', ''nib'', ''pag'', ''sop'',
    ''ral'', ''bil'', ''had'', ''doc'', ''rid'', ''moc'', ''pac'', ''rav'', ''rip'', ''fal'', ''tod'', ''til'', ''tin'',
    ''hap'', ''mic'', ''fan'', ''pat'', ''tac'', ''lab'', ''mog'', ''sim'', ''son'', ''pin'', ''lom'', ''ric'', ''tap'',
    ''fir'', ''has'', ''bos'', ''bat'', ''poc'', ''hac'', ''tid'', ''hav'', ''sap'', ''lin'', ''dib'', ''hos'', ''dab'',
    ''bit'', ''bar'', ''rac'', ''par'', ''lod'', ''dos'', ''bor'', ''toc'', ''hil'', ''mac'', ''tom'', ''dig'', ''fil'',
    ''fas'', ''mit'', ''hob'', ''har'', ''mig'', ''hin'', ''rad'', ''mas'', ''hal'', ''rag'', ''lag'', ''fad'', ''top'',
    ''mop'', ''hab'', ''nil'', ''nos'', ''mil'', ''fop'', ''fam'', ''dat'', ''nol'', ''din'', ''hat'', ''nac'', ''ris'',
    ''fot'', ''rib'', ''hoc'', ''nim'', ''lar'', ''fit'', ''wal'', ''rap'', ''sar'', ''nal'', ''mos'', ''lan'', ''don'',
    ''dan'', ''lad'', ''dov'', ''riv'', ''bac'', ''pol'', ''lap'', ''tal'', ''pit'', ''nam'', ''bon'', ''ros'', ''ton'',
    ''fod'', ''pon'', ''sov'', ''noc'', ''sor'', ''lav'', ''mat'', ''mip'', ''fip'']"

definition SUFFIXES :: "ustr list" where
  "SUFFIXES = map lit [
    ''zod'', ''nec'', ''bud'', ''wes'', ''sev'', ''per'', ''sut'', ''let'', ''ful'', ''pen'', ''syt'', ''dur'', ''wep'',
    ''ser'', ''wyl'', ''sun'', ''ryp'', ''syx'', ''dyr'', ''nup'', ''heb'', ''peg'', ''lup'', ''dep'', ''dys'', ''put'',
    ''lug'', ''hec'', ''ryt'', ''tyv'', ''syd'', ''nex'', ''lun'', ''mep'', ''lut'', ''sep'', ''pes'', ''del'', ''sul'',
    ''ped'', ''tem'', ''led'', ''tul'', ''met'', ''wen'', ''byn'', ''hex'', ''feb'', ''pyl'', ''dul'', ''het'', ''mev'',
    ''rut'', ''tyl'', ''wyd'', ''tep'', ''bes'', ''dex'', ''sef'', ''wyc'', ''bur'', ''der'', ''nep'', ''pur'', ''rys'',
    ''reb'', ''den'', ''nut'', ''sub'', ''pet'', ''rul'', ''syn'', ''reg'', ''tyd'', ''sup'', ''sem'', ''wyn'', ''rec'',
    ''meg'', ''net'', ''sec'', ''mul'', ''nym'', ''tev'', ''web'', ''sum'', ''mut'', ''nyx'', ''rex'', ''teb'', ''fus'',
    ''hep'', ''ben'', ''mus'', ''wyx'', ''sym'', ''sel'', ''ruc'', ''dec'', ''wex'', ''syr'', ''wet'', ''dyl'', ''myn'',
    ''mes'', ''det'', ''bet'', ''bel'', ''tux'', ''tug'', ''myr'', ''pel'', ''syp'', ''ter'', ''meb'', ''set'', ''dut'',
    ''deg'', ''tex'', ''sur'', ''fel'', ''tud'', ''nux'', ''rux'', ''ren'', ''wyt'', ''nub'', ''med'', ''lyt'', ''dus'',
    ''neb'', ''rum'', ''tyn'', ''seg'', ''lyx'', ''pun'', ''res'', ''red'', ''fun'', ''rev'', ''ref'', ''mec'', ''ted'',
    ''rus'', ''bex'', ''leb'', ''dux'', ''ryn'', ''num'', ''pyx'', ''ryg'', ''ryx'', ''fep'', ''tyr'', ''tus'', ''tyc'',
    ''leg'', ''nem'', ''fer'', ''mer'', ''ten'', ''lus'', ''nus'', ''syl'', ''tec'', ''mex'', ''pub'', ''rym'', ''tuc'',
    ''fyl'', ''lep'', ''deb'', ''ber'', ''mug'', ''hut'', ''tun'', ''byl'', ''sud'', ''pem'', ''dev'', ''lur'', ''def'',
    ''bus'', ''bep'', ''run'', ''mel'', ''pex'', ''dyt'', ''byt'', ''typ'', ''lev'', ''myl'', ''wed'', ''duc'', ''fur'',
    ''fex'', ''nul'', ''luc'', ''len'', ''ner'', ''lex'', ''rup'', ''ned'', ''lec'', ''ryd'', ''lyd'', ''fen'', ''wel'',
    ''nyd'', ''hus'', ''rel'', ''rud'', ''nes'', ''hes'', ''fet'', ''des'', ''ret'', ''dun'', ''ler'', ''nyr'', ''seb'',
    ''hul'', ''ryl'', ''lud'', ''rem'', ''lys'', ''fyn'', ''wer'', ''ryc'', ''sug'', ''nys'', ''nyl'', ''lyn'', ''dyn'',
    ''dem'', ''lux'', ''fed'', ''sed'', ''bec'', ''mun'', ''lyr'', ''tes'', ''mud'', ''nyt'', ''byr'', ''sen'', ''weg'',
    ''fyr'', ''mur'', ''tel'', ''rep'', ''teg'', ''pec'', ''nel'', ''nev'', ''fes'']"

text \<open>A \<open>HashMap\<close> collected from the enumerated table keeps the last of equal keys.\<close>

definition index_map :: "ustr list \<Rightarrow> ustr \<Rightarrow> byte option" where
  "index_map tbl s = map_option of_nat (map_of (rev (zip tbl [0..<length tbl])) s)"

definition prefix_index :: "ustr \<Rightarrow> byte option" where
  "prefix_index s = index_map PREFIXES s"

definition suffix_index :: "ustr \<Rightarrow> byte option" where
  "suffix_index s = index_map SUFFIXES s"

section \<open>Encoding and decoding\<close>

abbreviation hyphen :: nat where "hyphen \<equiv> 45"

fun byte_pairs :: "bytes \<Rightarrow> (byte \<times> byte) list" where
  "byte_pairs (hi # lo # r) = (hi, lo) # byte_pairs r"
| "byte_pairs _ = []"

definition syllable :: "byte \<times> byte \<Rightarrow> ustr" where
  "syllable p = PREFIXES ! unat (fst p) @ SUFFIXES ! unat (snd p)"

definition to_ob :: "bytes \<Rightarrow> ustr option" where
  "to_ob bs =
     (if bs = [] then None
      else if \<not> even (length bs) then None
      else Some (join_with hyphen (map syllable (byte_pairs bs))))"

fun decode_parts :: "ustr list \<Rightarrow> bytes option" where
  "decode_parts [] = Some []"
| "decode_parts (part # ps) =
     (if ulen part \<noteq> 6 \<or> \<not> is_ascii part then None
      else case prefix_index (take 3 part) of
        None \<Rightarrow> None
      | Some hi \<Rightarrow> (case suffix_index (take 3 (drop 3 part)) of
          None \<Rightarrow> None
        | Some lo \<Rightarrow> map_option (\<lambda>out. hi # lo # out) (decode_parts ps)))"

definition from_ob :: "'z phonemic_ext_scheme \<Rightarrow> ustr \<Rightarrow> bytes option" where
  "from_ob X s =
     (let parts = filter (\<lambda>p. p \<noteq> []) (split_on hyphen (to_lowercase X s))
      in if parts = [] then None else decode_parts parts)"

definition valid_pubkey_hex :: "'z phonemic_ext_scheme \<Rightarrow> bytes \<Rightarrow> ustr option" where
  "valid_pubkey_hex X bs =
     (if length bs \<noteq> 32 then None
      else if \<not> ed_valid_key X bs then None
      else Some (hex_encode X bs))"

definition try_parse_pubkey :: "'z phonemic_ext_scheme \<Rightarrow> ustr \<Rightarrow> ustr option" where
  "try_parse_pubkey X input =
     (let trimmed = trim input
      in case Option.bind (from_ob X trimmed) (valid_pubkey_hex X) of
           Some hex \<Rightarrow> Some hex
         | None \<Rightarrow> (case hex_decode X trimmed of
                      Some bs \<Rightarrow> valid_pubkey_hex X bs
                    | None \<Rightarrow> None))"

section \<open>The tables are full, distinct and lower case\<close>

definition is_lower_letter :: "nat \<Rightarrow> bool" where
  "is_lower_letter c \<longleftrightarrow> 97 \<le> c \<and> c \<le> 122"

locale syllable_table =
  fixes tbl :: "ustr list"
  assumes full: "length tbl = 256"
    and unique: "distinct tbl"
    and shape: "list_all (\<lambda>s. length s = 3 \<and> list_all is_lower_letter s) tbl"
begin

lemma entry_shape:
  "length (tbl ! unat (b :: byte)) = 3" "list_all is_lower_letter (tbl ! unat b)"
  using shape full byte_lt_256 [of b] by (simp_all add: list_all_length)

lemma index_entry: "index_map tbl s = Some b \<longleftrightarrow> tbl ! unat b = s"
proof -
  have d: "distinct (map fst (rev (zip tbl [0..<length tbl])))"
    using unique by (simp add: rev_map [symmetric] map_fst_zip)
  have "index_map tbl s = Some b \<longleftrightarrow> (\<exists>i. (s, i) \<in> set (zip tbl [0..<length tbl]) \<and> of_nat i = b)"
    by (simp add: index_map_def map_of_eq_Some_iff [OF d])
  also have "\<dots> \<longleftrightarrow> (\<exists>i<256. tbl ! i = s \<and> of_nat i = b)"
    by (auto simp: in_set_zip full)
  also have "\<dots> \<longleftrightarrow> tbl ! unat b = s"
    by (auto simp: unat_of_nat intro: exI [of _ "unat b"])
  finally show ?thesis .
qed

end

lemma inj_lit: "inj lit"
  by (simp add: inj_def)

lemma PREFIXES_distinct: "distinct PREFIXES"
  unfolding PREFIXES_def by (simp add: distinct_map inj_on_subset [OF inj_lit])

lemma SUFFIXES_distinct: "distinct SUFFIXES"
  unfolding SUFFIXES_def by (simp add: distinct_map inj_on_subset [OF inj_lit])

interpretation prefixes: syllable_table PREFIXES
proof
  show "list_all (\<lambda>s. length s = 3 \<and> list_all is_lower_letter s) PREFIXES"
    unfolding PREFIXES_def by (simp add: lit_def is_lower_letter_def)
qed (simp add: PREFIXES_def, rule PREFIXES_distinct)

interpretation suffixes: syllable_table SUFFIXES
proof
  show "list_all (\<lambda>s. length s = 3 \<and> list_all is_lower_letter s) SUFFIXES"
    unfolding SUFFIXES_def by (simp add: lit_def is_lower_letter_def)
qed (simp add: SUFFIXES_def, rule SUFFIXES_distinct)

lemmas index_iff =
  prefixes.index_entry [folded prefix_index_def] suffixes.index_entry [folded suffix_index_def]

section \<open>Round trips\<close>

lemma syllable_length [simp]: "length (syllable p) = 6"
  by (simp add: syllable_def prefixes.entry_shape suffixes.entry_shape)

lemma syllable_letters: "list_all is_lower_letter (syllable p)"
  by (simp add: syllable_def prefixes.entry_shape suffixes.entry_shape)

lemma lower_letters_ascii: "list_all is_lower_letter s \<Longrightarrow> is_ascii s"
  by (auto simp: is_ascii_def list_all_iff is_lower_letter_def)

lemma syllable_ascii [simp]: "is_ascii (syllable p)"
  by (rule lower_letters_ascii [OF syllable_letters])

lemma syllable_no_hyphen: "hyphen \<notin> set (syllable p)"
  using syllable_letters [of p] by (auto simp: list_all_iff is_lower_letter_def)

lemma syllable_nonempty [simp]: "syllable p \<noteq> []"
  using syllable_length [of p] by (metis list.size(3) zero_neq_numeral)

lemma syllable_halves:
  "take 3 (syllable p) = PREFIXES ! unat (fst p)"
  "take 3 (drop 3 (syllable p)) = SUFFIXES ! unat (snd p)"
  by (simp_all add: syllable_def prefixes.entry_shape suffixes.entry_shape)

lemma byte_pairs_Nil_iff: "even (length bs) \<Longrightarrow> byte_pairs bs = [] \<longleftrightarrow> bs = []"
  by (cases bs rule: byte_pairs.cases) auto

lemma decode_parts_syllables:
  "even (length bs) \<Longrightarrow> decode_parts (map syllable (byte_pairs bs)) = Some bs"
proof (induction bs rule: byte_pairs.induct)
  case (1 hi lo r)
  have "prefix_index (take 3 (syllable (hi, lo))) = Some hi"
    and "suffix_index (take 3 (drop 3 (syllable (hi, lo)))) = Some lo"
    by (simp_all add: index_iff syllable_halves)
  with 1 show ?case by (simp add: ulen_ascii)
qed auto

lemma decode_parts_inv:
  "decode_parts ps = Some bs \<Longrightarrow> even (length bs) \<and> ps = map syllable (byte_pairs bs)"
proof (induction ps arbitrary: bs)
  case (Cons p ps)
  then obtain hi lo out where d: "decode_parts ps = Some out" and bs: "bs = hi # lo # out"
    and p: "ulen p = 6" "is_ascii p"
    and i: "prefix_index (take 3 p) = Some hi" "suffix_index (take 3 (drop 3 p)) = Some lo"
    by (auto split: if_splits option.splits)
  have "length p = 6"
    using p by (simp add: ulen_ascii)
  then have "p = take 3 p @ take 3 (drop 3 p)"
    by (simp del: take_drop)
  with i have "p = syllable (hi, lo)"
    by (simp add: index_iff syllable_def)
  with Cons.IH [OF d] bs show ?case by simp
qed simp

lemma letters_unchanged: "list_all (\<lambda>c. is_lower_letter c \<or> c = hyphen) s \<Longrightarrow> map ascii_lower s = s"
  by (induction s) (auto simp: ascii_lower_def is_lower_letter_def)

lemma joined_letters:
  "list_all (\<lambda>c. is_lower_letter c \<or> c = hyphen) (join_with hyphen (map syllable ps))"
proof (induction ps)
  case (Cons p ps)
  then show ?case using syllable_letters [of p] by (cases ps) (auto simp: list_all_iff)
qed simp

lemma joined_ascii: "list_all (\<lambda>c. is_lower_letter c \<or> c = hyphen) s \<Longrightarrow> is_ascii s"
  by (auto simp: is_ascii_def list_all_iff is_lower_letter_def)

lemma to_lowercase_joined:
  "phonemic_ext_ok X \<Longrightarrow>
     to_lowercase X (join_with hyphen (map syllable ps)) = join_with hyphen (map syllable ps)"
  using joined_letters [of ps] by (simp add: phonemic_ext_ok_def joined_ascii letters_unchanged)

lemma split_joined:
  "ps \<noteq> [] \<Longrightarrow> filter (\<lambda>p. p \<noteq> []) (split_on hyphen (join_with hyphen (map syllable ps))) = map syllable ps"
  by (subst split_join) (auto simp: syllable_no_hyphen filter_id_conv)

lemma from_ob_spelling:
  assumes "phonemic_ext_ok X" and "to_ob bs = Some s"
  shows "from_ob X s = Some bs"
proof -
  have bs: "bs \<noteq> []" "even (length bs)" and s: "s = join_with hyphen (map syllable (byte_pairs bs))"
    using assms(2) by (auto simp: to_ob_def split: if_splits)
  then have "byte_pairs bs \<noteq> []" by (simp add: byte_pairs_Nil_iff)
  then show ?thesis
    using assms(1) bs s
    by (simp add: from_ob_def to_lowercase_joined split_joined decode_parts_syllables)
qed

lemma from_ob_canonical:
  assumes "from_ob X s = Some bs"
  shows "to_ob bs =
    Some (join_with hyphen (filter (\<lambda>p. p \<noteq> []) (split_on hyphen (to_lowercase X s))))"
proof -
  let ?parts = "filter (\<lambda>p. p \<noteq> []) (split_on hyphen (to_lowercase X s))"
  have d: "decode_parts ?parts = Some bs" and ne: "?parts \<noteq> []"
    using assms by (auto simp: from_ob_def Let_def split: if_splits)
  from decode_parts_inv [OF d] have e: "even (length bs)"
    and m: "?parts = map syllable (byte_pairs bs)" by auto
  have "bs \<noteq> []" using m ne by auto
  then show ?thesis using e unfolding m by (simp add: to_ob_def)
qed

text \<open>The canonical form of an \<open>@p\<close> input: lower case, empty parts dropped. An input decodes to a byte
  string exactly when its canonical form is the spelling of that byte string.\<close>

definition canonical_ob :: "'z phonemic_ext_scheme \<Rightarrow> ustr \<Rightarrow> ustr" where
  "canonical_ob X t = join_with hyphen (filter (\<lambda>p. p \<noteq> []) (split_on hyphen (to_lowercase X t)))"

lemma split_on_parts: "p \<in> set (split_on ch s) \<Longrightarrow> ch \<notin> set p"
  by (induction s arbitrary: p) (auto split: if_splits list.splits)

lemma from_ob_iff: "from_ob X t = Some cs \<longleftrightarrow> to_ob cs = Some (canonical_ob X t)"
proof
  show "from_ob X t = Some cs \<Longrightarrow> to_ob cs = Some (canonical_ob X t)"
    unfolding canonical_ob_def by (rule from_ob_canonical)
next
  let ?parts = "filter (\<lambda>p. p \<noteq> []) (split_on hyphen (to_lowercase X t))"
  assume "to_ob cs = Some (canonical_ob X t)"
  then have cs: "cs \<noteq> []" "even (length cs)" and eq: "join_with hyphen (map syllable (byte_pairs cs)) = join_with hyphen ?parts"
    by (auto simp: to_ob_def canonical_ob_def split: if_splits)
  have ne: "map syllable (byte_pairs cs) \<noteq> []" using cs by (simp add: byte_pairs_Nil_iff)
  then have "join_with hyphen (map syllable (byte_pairs cs)) \<noteq> []"
    by (cases "map syllable (byte_pairs cs)"; cases "tl (map syllable (byte_pairs cs))") auto
  with eq have parts: "?parts \<noteq> []" by (metis join_with.simps(1))
  have "map syllable (byte_pairs cs) = split_on hyphen (join_with hyphen (map syllable (byte_pairs cs)))"
    using ne by (subst split_join) (auto simp: syllable_no_hyphen)
  also have "\<dots> = ?parts"
    unfolding eq using parts by (subst split_join) (auto dest: split_on_parts)
  finally have "?parts = map syllable (byte_pairs cs)" by simp
  then show "from_ob X t = Some cs"
    using cs parts by (simp add: from_ob_def Let_def decode_parts_syllables)
qed

lemma hex_no_hyphen: "list_all is_hex_digit s \<Longrightarrow> hyphen \<notin> set s"
  by (auto simp: list_all_iff is_hex_digit_def)

lemma trim_id: "list_all (\<lambda>c. \<not> is_whitespace c) s \<Longrightarrow> trim s = s"
proof -
  have d: "list_all (\<lambda>c. \<not> is_whitespace c) t \<Longrightarrow> dropWhile is_whitespace t = t" for t
    by (cases t) auto
  assume "list_all (\<lambda>c. \<not> is_whitespace c) s"
  then show ?thesis by (simp add: trim_def d)
qed

lemma hex_not_space: "list_all is_hex_digit s \<Longrightarrow> list_all (\<lambda>c. \<not> is_whitespace c) s"
  by (auto simp: list_all_iff is_hex_digit_def is_whitespace_def)

lemma hex_ascii: "list_all is_hex_digit s \<Longrightarrow> is_ascii s"
  by (auto simp: list_all_iff is_hex_digit_def is_ascii_def)

lemma letters_not_space:
  "list_all (\<lambda>c. is_lower_letter c \<or> c = hyphen) s \<Longrightarrow> list_all (\<lambda>c. \<not> is_whitespace c) s"
  by (auto simp: list_all_iff is_lower_letter_def is_whitespace_def)

lemma to_ob_trim: "to_ob bs = Some s \<Longrightarrow> trim s = s"
  using joined_letters [of "byte_pairs bs"]
  by (auto simp: to_ob_def split: if_splits intro!: trim_id letters_not_space)

lemma from_ob_hex:
  assumes "phonemic_ext_ok X" and "length b = 32"
  shows "from_ob X (hex_encode X b) = None"
proof -
  let ?h = "hex_encode X b"
  have h: "list_all is_hex_digit ?h" "length ?h = 64"
    using assms by (simp_all add: phonemic_ext_ok_def)
  have "map ascii_lower ?h = ?h"
    using h(1) by (intro map_idI) (auto simp: list_all_iff is_hex_digit_def ascii_lower_def)
  then have low: "to_lowercase X ?h = ?h"
    using assms(1) h(1) by (simp add: phonemic_ext_ok_def hex_ascii)
  have "?h \<noteq> []" and "ulen ?h \<noteq> 6"
    using h by (auto simp: ulen_ascii hex_ascii)
  then show ?thesis
    by (simp add: from_ob_def low split_on_no_sep hex_no_hyphen h(1))
qed

lemma valid_pubkey_hex_iff: "valid_pubkey_hex X k = Some h \<longleftrightarrow> length k = 32 \<and> ed_valid_key X k \<and> h = hex_encode X k"
  by (auto simp: valid_pubkey_hex_def)

lemma try_parse_pubkey_iff:
  "try_parse_pubkey X input = Some h \<longleftrightarrow>
     (\<exists>k. length k = 32 \<and> ed_valid_key X k \<and> h = hex_encode X k \<and>
        (to_ob k = Some (canonical_ob X (trim input)) \<or>
         hex_decode X (trim input) = Some k \<and>
           \<not> (\<exists>k'. length k' = 32 \<and> ed_valid_key X k' \<and> to_ob k' = Some (canonical_ob X (trim input)))))"
proof (cases "Option.bind (from_ob X (trim input)) (valid_pubkey_hex X)")
  case None
  then have "\<not> (\<exists>k'. length k' = 32 \<and> ed_valid_key X k' \<and> to_ob k' = Some (canonical_ob X (trim input)))"
    by (auto simp flip: from_ob_iff simp: valid_pubkey_hex_def)
  with None show ?thesis
    by (auto simp: try_parse_pubkey_def valid_pubkey_hex_iff split: option.split)
next
  case (Some h')
  then obtain k where k: "from_ob X (trim input) = Some k" "length k = 32" "ed_valid_key X k" "h' = hex_encode X k"
    by (auto simp: bind_eq_Some_conv valid_pubkey_hex_iff)
  then have "to_ob k' = Some (canonical_ob X (trim input)) \<longleftrightarrow> k' = k" for k'
    by (auto simp flip: from_ob_iff)
  with Some k show ?thesis by (auto simp: try_parse_pubkey_def)
qed

text \<open>C40. A contact identifier is accepted in its two spellings and in nothing else. An \<open>@p\<close> input decodes
  to a byte string exactly when its lower-case parts, joined by single hyphens, are the spelling of that
  byte string, so the spelling of every byte string that has one is recovered. An input is accepted as a
  key exactly when, trimmed of white space, it spells a 32-byte key that passes the curve-point check, or
  spells no such key and is the hex of one; what is returned is the lower-case hex of that key. In
  particular both forms of every valid key are accepted.\<close>

theorem try_parse_spec:
  assumes "phonemic_ext_ok X"
  shows "(to_ob bs = Some s \<longrightarrow> from_ob X s = Some bs) \<and>
    (from_ob X t = Some cs \<longleftrightarrow> to_ob cs = Some (canonical_ob X t)) \<and>
    (length key = 32 \<and> ed_valid_key X key \<longrightarrow> try_parse_pubkey X (hex_encode X key) = Some (hex_encode X key) \<and>
      (\<exists>s. to_ob key = Some s \<and> try_parse_pubkey X s = Some (hex_encode X key))) \<and>
    (try_parse_pubkey X input = Some h \<longleftrightarrow>
      (\<exists>k. length k = 32 \<and> ed_valid_key X k \<and> h = hex_encode X k \<and>
         (to_ob k = Some (canonical_ob X (trim input)) \<or>
          hex_decode X (trim input) = Some k \<and>
            \<not> (\<exists>k'. length k' = 32 \<and> ed_valid_key X k' \<and> to_ob k' = Some (canonical_ob X (trim input))))))"
proof (intro conjI impI)
  show "from_ob X s = Some bs" if "to_ob bs = Some s" using from_ob_spelling [OF assms that] .
  show "from_ob X t = Some cs \<longleftrightarrow> to_ob cs = Some (canonical_ob X t)" by (rule from_ob_iff)
next
  assume key: "length key = 32 \<and> ed_valid_key X key"
  have h: "list_all is_hex_digit (hex_encode X key)" "hex_decode X (hex_encode X key) = Some key"
    using assms by (simp_all add: phonemic_ext_ok_def)
  then show "try_parse_pubkey X (hex_encode X key) = Some (hex_encode X key)"
    using assms key
    by (simp add: try_parse_pubkey_def trim_id hex_not_space from_ob_hex valid_pubkey_hex_def)
  obtain s where s: "to_ob key = Some s"
    using key by (cases key) (auto simp: to_ob_def)
  then have "try_parse_pubkey X s = Some (hex_encode X key)"
    using key from_ob_spelling [OF assms s]
    by (simp add: try_parse_pubkey_def to_ob_trim [OF s] valid_pubkey_hex_def)
  with s show "\<exists>s. to_ob key = Some s \<and> try_parse_pubkey X s = Some (hex_encode X key)" by blast
qed (rule try_parse_pubkey_iff)

section \<open>An instance of the external functions\<close>

text \<open>
  A concrete hex codec and ASCII lower-casing: the assumptions above can hold together, and the
  witnesses evaluate on it.
\<close>

definition ref_digit :: "nat \<Rightarrow> nat" where
  "ref_digit d = (if d < 10 then 48 + d else 87 + d)"

definition ref_hex_encode :: "bytes \<Rightarrow> ustr" where
  "ref_hex_encode b = concat (map (\<lambda>x. [ref_digit (unat x div 16), ref_digit (unat x mod 16)]) b)"

definition ref_undigit :: "nat \<Rightarrow> nat option" where
  "ref_undigit c =
     (if 48 \<le> c \<and> c \<le> 57 then Some (c - 48)
      else if 97 \<le> c \<and> c \<le> 102 then Some (c - 87)
      else if 65 \<le> c \<and> c \<le> 70 then Some (c - 55) else None)"

fun ref_hex_decode :: "ustr \<Rightarrow> bytes option" where
  "ref_hex_decode [] = Some []"
| "ref_hex_decode [c] = None"
| "ref_hex_decode (c # d # s) =
     (case (ref_undigit c, ref_undigit d) of
        (Some a, Some b) \<Rightarrow> map_option (\<lambda>r. of_nat (16 * a + b) # r) (ref_hex_decode s)
      | _ \<Rightarrow> None)"

definition ref_phonemic_ext :: phonemic_ext where
  "ref_phonemic_ext =
     \<lparr>hex_encode = ref_hex_encode, hex_decode = ref_hex_decode,
      to_lowercase = map ascii_lower, ed_valid_key = (\<lambda>_. True)\<rparr>"

lemma ref_undigit_digit: "d < 16 \<Longrightarrow> ref_undigit (ref_digit d) = Some d"
  by (auto simp: ref_undigit_def ref_digit_def)

lemma ref_hex_roundtrip: "ref_hex_decode (ref_hex_encode b) = Some b"
proof (induction b)
  case (Cons x b)
  have "unat x div 16 < 16" using byte_lt_256 [of x] by (simp add: less_mult_imp_div_less)
  then show ?case
    using Cons by (simp add: ref_hex_encode_def ref_undigit_digit)
qed (simp add: ref_hex_encode_def)

lemma ref_hex_shape:
  "list_all is_hex_digit (ref_hex_encode b) \<and> length (ref_hex_encode b) = 2 * length b"
proof (induction b)
  case (Cons x b)
  have "unat x div 16 < 16" using byte_lt_256 [of x] by (simp add: less_mult_imp_div_less)
  moreover have "d < 16 \<Longrightarrow> is_hex_digit (ref_digit d)" for d
    by (auto simp: is_hex_digit_def ref_digit_def)
  ultimately show ?case
    using Cons by (simp add: ref_hex_encode_def)
qed (simp add: ref_hex_encode_def)

lemma ref_phonemic_ext_ok: "phonemic_ext_ok ref_phonemic_ext"
  by (simp add: phonemic_ext_ok_def ref_phonemic_ext_def ref_hex_roundtrip ref_hex_shape)

definition zero_key :: bytes where "zero_key = replicate 32 0"

theorem try_parse_spec_witness:
  "try_parse_pubkey ref_phonemic_ext (hex_encode ref_phonemic_ext zero_key) =
     Some (hex_encode ref_phonemic_ext zero_key)"
  using try_parse_spec [OF ref_phonemic_ext_ok, of zero_key]
  by (simp add: zero_key_def ref_phonemic_ext_def)

end
