(* ===== verification/Crypto.thy ===== *)
theory Crypto
  imports Phonemic
begin

text \<open>
  The message cryptography (\<open>core/src/crypto.rs\<close>): identities, the padded blob layout,
  \<open>encrypt\<close>, \<open>decrypt\<close> and the auth-challenge signature.

  A call returns an \<open>outcome\<close>: \<open>Ok\<close>, \<open>Err\<close> with the source's error, or \<open>Panic\<close> where
  the source would panic (a slice out of range, a subtraction below zero, an \<open>expect\<close>).
  The primitives are other crates, so they are fields of \<open>crypto_ext\<close>: Ed25519, X25519, the
  Edwards-to-Montgomery map, SHA-512, HKDF-SHA256, XChaCha20-Poly1305 and zstd.
  \<open>crypto_ext_ok\<close> states their documented behaviour: output lengths, that a signature made with
  a key verifies under it, that the two X25519 sides agree, that the AEAD and zstd decode what
  they encoded, and the bound on the size of a zstd frame. The random generator is the stream of
  bytes it will hand out.
\<close>

unbundle bit_operations_syntax

record crypto_ext = phonemic_ext +
  ed_pub :: "bytes \<Rightarrow> bytes"
  ed_sign :: "bytes \<Rightarrow> bytes \<Rightarrow> bytes"
  ed_verify_strict :: "bytes \<Rightarrow> bytes \<Rightarrow> bytes \<Rightarrow> bool"
  x25519_mult :: "bytes \<Rightarrow> bytes \<Rightarrow> bytes"
  x25519_basepoint :: bytes
  edwards_to_montgomery :: "bytes \<Rightarrow> bytes option"
  sha512 :: "bytes \<Rightarrow> bytes"
  hkdf_sha256 :: "bytes \<Rightarrow> bytes \<Rightarrow> bytes \<Rightarrow> bytes"
  aead_encrypt :: "bytes \<Rightarrow> bytes \<Rightarrow> bytes \<Rightarrow> bytes \<Rightarrow> bytes option"
  aead_decrypt :: "bytes \<Rightarrow> bytes \<Rightarrow> bytes \<Rightarrow> bytes \<Rightarrow> bytes option"
  zstd_encode :: "bytes \<Rightarrow> bytes option"
  zstd_read :: "nat \<Rightarrow> nat \<Rightarrow> bytes \<Rightarrow> bytes option"

section \<open>Errors and outcomes\<close>

datatype crypto_error =
    BadKeyLength
  | BlobTooShort
  | BlobTooLong
  | InvalidPublicKey
  | InvalidEphemeralKey
  | Encrypt
  | Decrypt
  | BadSignature
  | Decompress
  | ChallengeTooLong

text \<open>\<open>Display\<close>: the message of an error.\<close>

fun crypto_error_display :: "crypto_error \<Rightarrow> ustr" where
  "crypto_error_display BadKeyLength = lit ''bad key length''"
| "crypto_error_display BlobTooShort = lit ''blob too short''"
| "crypto_error_display BlobTooLong = lit ''blob too long''"
| "crypto_error_display InvalidPublicKey = lit ''invalid public key''"
| "crypto_error_display InvalidEphemeralKey = lit ''invalid ephemeral key''"
| "crypto_error_display Encrypt = lit ''encryption failed''"
| "crypto_error_display Decrypt = lit ''decryption failed''"
| "crypto_error_display BadSignature = lit ''signature verification failed''"
| "crypto_error_display Decompress = lit ''decompression failed''"
| "crypto_error_display ChallengeTooLong = lit ''auth challenge too long''"

datatype 'a outcome = Ok 'a | Err crypto_error | Panic

fun obind :: "'a outcome \<Rightarrow> ('a \<Rightarrow> 'b outcome) \<Rightarrow> 'b outcome" where
  "obind (Ok x) f = f x"
| "obind (Err e) f = Err e"
| "obind Panic f = Panic"

lemma obind_eq_Ok [simp]: "obind a f = Ok y \<longleftrightarrow> (\<exists>x. a = Ok x \<and> f x = Ok y)"
  by (cases a) auto

lemma obind_eq_Panic [simp]: "obind a f = Panic \<longleftrightarrow> a = Panic \<or> (\<exists>x. a = Ok x \<and> f x = Panic)"
  by (cases a) auto

text \<open>\<open>xs[a..b]\<close>, which panics out of range.\<close>

definition slice :: "nat \<Rightarrow> nat \<Rightarrow> 'a list \<Rightarrow> 'a list outcome" where
  "slice a b xs = (if a \<le> b \<and> b \<le> length xs then Ok (take (b - a) (drop a xs)) else Panic)"

section \<open>Constants\<close>

definition HKDF_INFO :: bytes where "HKDF_INFO = utf8_encode (lit ''skrepka-v2'')"
definition AUTH_TAG :: ustr where "AUTH_TAG = lit ''skrepka-auth-v1:''"
definition MSG_TAG :: bytes where "MSG_TAG = utf8_encode (lit ''skrepka-msg-v2:'')"
definition WIRE_VERSION :: byte where "WIRE_VERSION = 2"
definition ED25519_SECRET_LEN :: nat where [size_caps]: "ED25519_SECRET_LEN = 64"
definition NONCE_LEN :: nat where [size_caps]: "NONCE_LEN = 24"
definition MIN_BLOB_LEN :: nat where [size_caps]: "MIN_BLOB_LEN = 1 + 32 + NONCE_LEN + 32 + 64 + 4 + 16"
definition MAX_BLOB_LEN :: nat where [size_caps]: "MAX_BLOB_LEN = 42 * 1024 * 1024"
definition MAX_PLAINTEXT_LEN :: nat where [size_caps]: "MAX_PLAINTEXT_LEN = 2 ^ 20"
definition MAX_CHALLENGE_LEN :: nat where [size_caps]: "MAX_CHALLENGE_LEN = 256"

definition PADDING_BUCKETS :: "nat list" where
  "PADDING_BUCKETS = [256, 512, 1024, 2048, 4096, 8192, 16384, 32768, 65536]"

fun first_bucket :: "nat list \<Rightarrow> nat \<Rightarrow> nat option" where
  "first_bucket [] actual = None"
| "first_bucket (b # bs) actual = (if actual \<le> b then Some b else first_bucket bs actual)"

definition padded_len :: "nat \<Rightarrow> nat" where
  "padded_len actual =
     (if actual = 0 then PADDING_BUCKETS ! 0
      else case first_bucket PADDING_BUCKETS actual of
        Some b \<Rightarrow> b
      | None \<Rightarrow>
          (let remainder = actual mod 65536
           in if remainder = 0 then actual + 65536 else actual + 65536 - remainder))"

definition aad :: "byte \<Rightarrow> bytes \<Rightarrow> bytes \<Rightarrow> bytes \<Rightarrow> bytes" where
  "aad version eph_pub nonce recipient_pub = version # eph_pub @ nonce @ recipient_pub"

section \<open>Identities\<close>

record identity =
  id_secret_key :: bytes
  id_x25519_priv :: bytes
  id_x25519_pub :: bytes

definition all_zero :: "bytes \<Rightarrow> bool" where
  "all_zero bs \<longleftrightarrow> list_all (\<lambda>b. b = 0) bs"

definition clamp_scalar :: "bytes \<Rightarrow> bytes" where
  "clamp_scalar s =
     (let s1 = s[0 := (s ! 0) AND 248];
          s2 = s1[31 := (s1 ! 31) AND 127]
      in s2[31 := (s2 ! 31) OR 64])"

definition ed25519_sk_to_x25519 :: "'z crypto_ext_scheme \<Rightarrow> bytes \<Rightarrow> bytes" where
  "ed25519_sk_to_x25519 X secret_key = clamp_scalar (take 32 (sha512 X (take 32 secret_key)))"

definition ed25519_pk_to_x25519 :: "'z crypto_ext_scheme \<Rightarrow> bytes \<Rightarrow> bytes outcome" where
  "ed25519_pk_to_x25519 X ed_public =
     (case edwards_to_montgomery X ed_public of
        None \<Rightarrow> Err InvalidPublicKey
      | Some montgomery \<Rightarrow> if all_zero montgomery then Err InvalidPublicKey else Ok montgomery)"

definition with_x25519 :: "'z crypto_ext_scheme \<Rightarrow> bytes \<Rightarrow> identity outcome" where
  "with_x25519 X secret_key =
     (let priv = ed25519_sk_to_x25519 X secret_key;
          pub = x25519_mult X priv (x25519_basepoint X)
      in if all_zero pub then Err InvalidPublicKey
         else Ok \<lparr>id_secret_key = secret_key, id_x25519_priv = priv, id_x25519_pub = pub\<rparr>)"

definition from_secret_bytes :: "'z crypto_ext_scheme \<Rightarrow> bytes \<Rightarrow> identity outcome" where
  "from_secret_bytes X bs =
     (if length bs \<noteq> ED25519_SECRET_LEN then Err BadKeyLength
      else if ed_pub X (take 32 bs) \<noteq> drop 32 bs then Err BadKeyLength
      else with_x25519 X bs)"

definition from_seed :: "'z crypto_ext_scheme \<Rightarrow> bytes \<Rightarrow> identity outcome" where
  "from_seed X seed = with_x25519 X (seed @ ed_pub X seed)"

type_synonym rng = "nat \<Rightarrow> byte"

definition fill_bytes :: "nat \<Rightarrow> rng \<Rightarrow> bytes \<times> rng" where
  "fill_bytes n r = (map r [0..<n], \<lambda>i. r (n + i))"

definition generate :: "'z crypto_ext_scheme \<Rightarrow> rng \<Rightarrow> identity outcome" where
  "generate X r = from_seed X (fst (fill_bytes 32 r))"

definition public_key :: "identity \<Rightarrow> bytes" where
  "public_key i = drop 32 (id_secret_key i)"

definition public_key_hex :: "'z crypto_ext_scheme \<Rightarrow> identity \<Rightarrow> ustr" where
  "public_key_hex X i = hex_encode X (public_key i)"

definition signing_seed :: "identity \<Rightarrow> bytes" where
  "signing_seed i = take 32 (id_secret_key i)"

definition auth_message :: "ustr \<Rightarrow> ustr \<Rightarrow> bytes" where
  "auth_message server_host challenge = utf8_encode (AUTH_TAG @ server_host @ lit '':'' @ challenge)"

definition sign_challenge :: "'z crypto_ext_scheme \<Rightarrow> identity \<Rightarrow> ustr \<Rightarrow> ustr \<Rightarrow> ustr outcome" where
  "sign_challenge X i server_host challenge =
     (if ulen challenge > MAX_CHALLENGE_LEN then Err ChallengeTooLong
      else Ok (hex_encode X (ed_sign X (signing_seed i) (auth_message server_host challenge))))"

section \<open>Key agreement, compression, the blob\<close>

definition x25519 :: "'z crypto_ext_scheme \<Rightarrow> bytes \<Rightarrow> bytes \<Rightarrow> bytes outcome" where
  "x25519 X scalar point =
     (let shared = x25519_mult X scalar point
      in if all_zero shared then Err InvalidEphemeralKey else Ok shared)"

definition derive_key :: "'z crypto_ext_scheme \<Rightarrow> bytes \<Rightarrow> bytes \<Rightarrow> bytes \<Rightarrow> bytes" where
  "derive_key X raw_secret eph_pub recip_x_pub =
     hkdf_sha256 X (eph_pub @ recip_x_pub) raw_secret HKDF_INFO"

definition compress :: "'z crypto_ext_scheme \<Rightarrow> bytes \<Rightarrow> bytes outcome" where
  "compress X plaintext = (case zstd_encode X plaintext of Some c \<Rightarrow> Ok c | None \<Rightarrow> Panic)"

definition decompress :: "'z crypto_ext_scheme \<Rightarrow> bytes \<Rightarrow> bytes outcome" where
  "decompress X data =
     (case zstd_read X 21 (MAX_PLAINTEXT_LEN + 1) data of
        None \<Rightarrow> Err Decompress
      | Some out \<Rightarrow> if length out > MAX_PLAINTEXT_LEN then Err Decompress else Ok out)"

text \<open>\<open>(n as u32).to_be_bytes()\<close> and \<open>u32::from_be_bytes\<close>.\<close>

definition be32 :: "nat \<Rightarrow> bytes" where
  "be32 n = [of_nat (n div 2 ^ 24 mod 256), of_nat (n div 2 ^ 16 mod 256),
             of_nat (n div 2 ^ 8 mod 256), of_nat (n mod 256)]"

definition from_be32 :: "bytes \<Rightarrow> nat" where
  "from_be32 bs = fold (\<lambda>b acc. acc * 256 + unat b) bs 0"

definition msg_signed :: "bytes \<Rightarrow> bytes \<Rightarrow> bytes" where
  "msg_signed recipient_pub rest = MSG_TAG @ recipient_pub @ rest"

definition encrypt :: "'z crypto_ext_scheme \<Rightarrow> rng \<Rightarrow> identity \<Rightarrow> bytes \<Rightarrow> bytes \<Rightarrow> bytes outcome" where
  "encrypt X r0 sender recipient_ed_pub plaintext =
     (if length plaintext > MAX_PLAINTEXT_LEN then Err Encrypt
      else
        let (eph_priv, r1) = fill_bytes 32 r0;
            eph_pub = x25519_mult X eph_priv (x25519_basepoint X)
        in obind (ed25519_pk_to_x25519 X recipient_ed_pub) (\<lambda>recip_x.
           obind (x25519 X eph_priv recip_x) (\<lambda>raw_secret.
           let key = derive_key X raw_secret eph_pub recip_x
           in obind (compress X plaintext) (\<lambda>compressed.
             let unpadded_blob_len = 1 + 32 + NONCE_LEN + 32 + 64 + 4 + length compressed + 16;
                 target = padded_len unpadded_blob_len
             in if target < unpadded_blob_len then Panic
                else
                  let (padding, r2) = fill_bytes (target - unpadded_blob_len) r1;
                      rest = be32 (length compressed) @ compressed @ padding;
                      signature = ed_sign X (signing_seed sender) (msg_signed recipient_ed_pub rest);
                      inner = public_key sender @ signature @ rest;
                      (nonce, r3) = fill_bytes NONCE_LEN r2
                  in case aead_encrypt X key nonce
                            (aad WIRE_VERSION eph_pub nonce recipient_ed_pub) inner of
                       None \<Rightarrow> Err Encrypt
                     | Some ciphertext \<Rightarrow> Ok (WIRE_VERSION # eph_pub @ nonce @ ciphertext)))))"

record decrypted =
  plaintext :: bytes
  sender_hex :: ustr

definition open_inner :: "'z crypto_ext_scheme \<Rightarrow> identity \<Rightarrow> bytes \<Rightarrow> decrypted outcome" where
  "open_inner X recipient inner =
     (if length inner < 32 + 64 + 4 then Err BlobTooShort
      else
        obind (slice 0 32 inner) (\<lambda>sender_pub.
        obind (slice 32 96 inner) (\<lambda>sig_bytes.
        obind (slice 96 100 inner) (\<lambda>len_bytes.
        let compressed_len = from_be32 len_bytes
        in if compressed_len > length inner - 100 then Err Decrypt
           else
             obind (slice 100 (100 + compressed_len) inner) (\<lambda>compressed.
             if \<not> ed_valid_key X sender_pub then Err BadSignature
             else
               obind (slice 96 (length inner) inner) (\<lambda>rest.
               if \<not> ed_verify_strict X sender_pub (msg_signed (public_key recipient) rest) sig_bytes
               then Err BadSignature
               else obind (decompress X compressed) (\<lambda>pt.
                 Ok \<lparr>plaintext = pt, sender_hex = hex_encode X sender_pub\<rparr>)))))))"

definition decrypt :: "'z crypto_ext_scheme \<Rightarrow> identity \<Rightarrow> bytes \<Rightarrow> decrypted outcome" where
  "decrypt X recipient blob =
     (if length blob < MIN_BLOB_LEN then Err BlobTooShort
      else if length blob > MAX_BLOB_LEN then Err BlobTooLong
      else if blob ! 0 \<noteq> WIRE_VERSION then Err Decrypt
      else
        obind (slice 1 33 blob) (\<lambda>eph_pub.
        obind (slice 33 (33 + NONCE_LEN) blob) (\<lambda>nonce.
        obind (slice (33 + NONCE_LEN) (length blob) blob) (\<lambda>ciphertext.
        obind (x25519 X (id_x25519_priv recipient) eph_pub) (\<lambda>raw_secret.
        let key = derive_key X raw_secret eph_pub (id_x25519_pub recipient)
        in case aead_decrypt X key nonce (aad (blob ! 0) eph_pub nonce (public_key recipient)) ciphertext of
             None \<Rightarrow> Err Decrypt
           | Some inner \<Rightarrow> open_inner X recipient inner)))))"

section \<open>What the primitives promise\<close>

definition crypto_ext_ok :: "'z crypto_ext_scheme \<Rightarrow> bool" where
  "crypto_ext_ok X \<longleftrightarrow>
     phonemic_ext_ok X \<and>
     (\<forall>seed. length seed = 32 \<longrightarrow> length (ed_pub X seed) = 32 \<and> ed_valid_key X (ed_pub X seed)) \<and>
     (\<forall>seed m. length seed = 32 \<longrightarrow>
        length (ed_sign X seed m) = 64 \<and> ed_verify_strict X (ed_pub X seed) m (ed_sign X seed m)) \<and>
     (\<forall>a p. length (x25519_mult X a p) = 32) \<and>
     (\<forall>a b. x25519_mult X a (x25519_mult X b (x25519_basepoint X)) =
            x25519_mult X b (x25519_mult X a (x25519_basepoint X))) \<and>
     (\<forall>seed. length seed = 32 \<longrightarrow>
        edwards_to_montgomery X (ed_pub X seed) =
          Some (x25519_mult X (ed25519_sk_to_x25519 X seed) (x25519_basepoint X))) \<and>
     (\<forall>k n a m c. aead_encrypt X k n a m = Some c \<longrightarrow>
        aead_decrypt X k n a c = Some m \<and> length c = length m + 16) \<and>
     (\<forall>k n a m. length m \<le> MAX_BLOB_LEN \<longrightarrow> aead_encrypt X k n a m \<noteq> None) \<and>
     (\<forall>p. length p \<le> MAX_PLAINTEXT_LEN \<longrightarrow>
        (\<exists>c. zstd_encode X p = Some c \<and> length c \<le> length p + length p div 256 + 1024 \<and>
             zstd_read X 21 (MAX_PLAINTEXT_LEN + 1) c = Some p))"

definition identity_ok :: "'z crypto_ext_scheme \<Rightarrow> identity \<Rightarrow> bool" where
  "identity_ok X i \<longleftrightarrow>
     length (id_secret_key i) = 64 \<and>
     ed_pub X (take 32 (id_secret_key i)) = drop 32 (id_secret_key i) \<and>
     id_x25519_priv i = ed25519_sk_to_x25519 X (id_secret_key i) \<and>
     id_x25519_pub i = x25519_mult X (id_x25519_priv i) (x25519_basepoint X)"

lemma crypto_okD:
  assumes "crypto_ext_ok X"
  shows ok_phonemic: "phonemic_ext_ok X"
    and ok_pub: "length seed = 32 \<Longrightarrow> length (ed_pub X seed) = 32 \<and> ed_valid_key X (ed_pub X seed)"
    and ok_sign: "length seed = 32 \<Longrightarrow>
      length (ed_sign X seed m) = 64 \<and> ed_verify_strict X (ed_pub X seed) m (ed_sign X seed m)"
    and ok_mult: "length (x25519_mult X a p) = 32"
    and ok_agree: "x25519_mult X a (x25519_mult X b (x25519_basepoint X)) =
      x25519_mult X b (x25519_mult X a (x25519_basepoint X))"
    and ok_montgomery: "length seed = 32 \<Longrightarrow> edwards_to_montgomery X (ed_pub X seed) =
      Some (x25519_mult X (ed25519_sk_to_x25519 X seed) (x25519_basepoint X))"
    and ok_aead: "aead_encrypt X k n d pt = Some c \<Longrightarrow>
      aead_decrypt X k n d c = Some pt \<and> length c = length pt + 16"
    and ok_aead_total: "length pt \<le> MAX_BLOB_LEN \<Longrightarrow> aead_encrypt X k n d pt \<noteq> None"
    and ok_zstd: "length pt \<le> MAX_PLAINTEXT_LEN \<Longrightarrow>
      \<exists>c. zstd_encode X pt = Some c \<and> length c \<le> length pt + length pt div 256 + 1024 \<and>
          zstd_read X 21 (MAX_PLAINTEXT_LEN + 1) c = Some pt"
  using assms unfolding crypto_ext_ok_def by blast+

section \<open>Padding\<close>

lemma padded_len_cases:
  "padded_len n =
     (if n \<le> 256 then 256 else if n \<le> 512 then 512 else if n \<le> 1024 then 1024
      else if n \<le> 2048 then 2048 else if n \<le> 4096 then 4096 else if n \<le> 8192 then 8192
      else if n \<le> 16384 then 16384 else if n \<le> 32768 then 32768 else if n \<le> 65536 then 65536
      else 65536 * (n div 65536 + 1))"
proof -
  have "n + 65536 - n mod 65536 = 65536 * (n div 65536 + 1)"
    by (simp add: algebra_simps minus_mod_eq_mult_div [symmetric])
  moreover have "n mod 65536 = 0 \<Longrightarrow> n + 65536 = 65536 * (n div 65536 + 1)"
    by auto
  ultimately show ?thesis
    by (simp add: padded_len_def PADDING_BUCKETS_def Let_def)
qed

lemma round_up_bounds: "(n :: nat) < 65536 * (n div 65536 + 1)" "65536 * (n div 65536 + 1) \<le> n + 65536"
proof -
  have q: "n = 65536 * q + r \<Longrightarrow> r < 65536 \<Longrightarrow> n < 65536 * (q + 1) \<and> 65536 * (q + 1) \<le> n + 65536" for q r
    by simp
  then show "n < 65536 * (n div 65536 + 1)" "65536 * (n div 65536 + 1) \<le> n + 65536"
    using q [of "n div 65536" "n mod 65536"] by simp_all
qed

lemma padded_len_ge: "n \<le> padded_len n"
  using round_up_bounds(1) [of n] by (simp add: padded_len_cases)

lemma padded_len_le_max: "n < MAX_BLOB_LEN \<Longrightarrow> padded_len n \<le> MAX_BLOB_LEN"
proof -
  assume "n < MAX_BLOB_LEN"
  then have "n div 65536 + 1 \<le> 672" by (simp add: size_caps less_mult_imp_div_less Suc_le_eq)
  then show ?thesis by (simp add: padded_len_cases size_caps)
qed

lemma padded_len_boundary:
  "padded_len n \<in> set PADDING_BUCKETS \<or> (65536 < padded_len n \<and> 65536 dvd padded_len n)"
  by (auto simp: padded_len_cases PADDING_BUCKETS_def)

lemma first_bucket_in: "first_bucket bs n = Some b \<Longrightarrow> b \<in> set bs \<and> n \<le> b"
  by (induction bs) (auto split: if_splits)

lemma first_bucket_None: "first_bucket bs n = None \<longleftrightarrow> (\<forall>b\<in>set bs. b < n)"
  by (induction bs) auto

lemma first_bucket_mono:
  "sorted bs \<Longrightarrow> n \<le> m \<Longrightarrow> first_bucket bs m = Some b \<Longrightarrow> \<exists>b'\<le>b. first_bucket bs n = Some b'"
  by (induction bs) (auto split: if_splits dest: first_bucket_in)

lemma padded_len_mono: "n \<le> m \<Longrightarrow> padded_len n \<le> padded_len m"
proof (cases "first_bucket PADDING_BUCKETS m")
  case None
  assume "n \<le> m"
  have "\<forall>b\<in>set PADDING_BUCKETS. b < m" using None by (simp only: first_bucket_None)
  then have m: "65536 < m" by (simp add: PADDING_BUCKETS_def)
  then have "padded_len m = 65536 * (m div 65536 + 1)" by (simp add: padded_len_cases)
  moreover have "padded_len n \<le> 65536 * (n div 65536 + 1)" by (simp add: padded_len_cases)
  moreover have "n div 65536 \<le> m div 65536" using \<open>n \<le> m\<close> by (rule div_le_mono)
  ultimately show ?thesis by simp
next
  case (Some b)
  assume "n \<le> m"
  moreover have "sorted PADDING_BUCKETS" by (simp add: PADDING_BUCKETS_def)
  ultimately obtain b' where "b' \<le> b" "first_bucket PADDING_BUCKETS n = Some b'"
    using Some first_bucket_mono by blast
  with Some show ?thesis by (auto simp: padded_len_def PADDING_BUCKETS_def split: if_splits)
qed

text \<open>A blob is padded up, to one of the nine buckets or to a multiple of 65536; the padded
  length is monotone in the real one, and past the last bucket there is always some padding, at
  most 65536 bytes of it.\<close>

lemma padded_len_spec:
  "n \<le> padded_len n \<and>
   (padded_len n \<in> set PADDING_BUCKETS \<or> (65536 < padded_len n \<and> 65536 dvd padded_len n)) \<and>
   padded_len n \<le> padded_len (n + k) \<and>
   \<not> (65536 < n \<and> (padded_len n = n \<or> n + 65536 < padded_len n))"
proof -
  have "\<not> (65536 < n \<and> (padded_len n = n \<or> n + 65536 < padded_len n))"
    using round_up_bounds [of n] by (auto simp: padded_len_cases)
  then show ?thesis
    using padded_len_ge padded_len_boundary padded_len_mono by simp
qed

section \<open>The length field\<close>

lemma be32_length [simp]: "length (be32 n) = 4"
  by (simp add: be32_def)

lemma from_be32_be32: "n < 2 ^ 32 \<Longrightarrow> from_be32 (be32 n) = n"
proof -
  assume n: "n < 2 ^ 32"
  have small: "m < 256 \<Longrightarrow> unat (of_nat m :: byte) = m" for m
    by (simp add: unat_of_nat)
  have e: "n div 2 ^ 16 = n div 256 div 256" "n div 2 ^ 24 = n div 256 div 256 div 256"
    by (simp_all add: div_mult2_eq [symmetric])
  have "n div 256 div 256 div 256 < 256"
    using n by (simp add: div_mult2_eq [symmetric] less_mult_imp_div_less)
  then have "from_be32 (be32 n) =
      ((n div 256 div 256 div 256 * 256 + n div 256 div 256 mod 256) * 256 + n div 256 mod 256) * 256 + n mod 256"
    unfolding from_be32_def be32_def e by (simp add: small)
  then show ?thesis by (simp only: div_mult_mod_eq)
qed

section \<open>Identities\<close>

lemma sk_to_x25519_take: "length seed = 32 \<Longrightarrow> ed25519_sk_to_x25519 X (seed @ p) = ed25519_sk_to_x25519 X seed"
  by (simp add: ed25519_sk_to_x25519_def)

lemma with_x25519_ok:
  "with_x25519 X sk = Ok i \<Longrightarrow> length sk = 64 \<Longrightarrow> ed_pub X (take 32 sk) = drop 32 sk \<Longrightarrow>
     identity_ok X i \<and> id_secret_key i = sk"
  by (auto simp: with_x25519_def Let_def identity_ok_def split: if_splits)

lemma from_secret_bytes_ok:
  "from_secret_bytes X sk = Ok i \<Longrightarrow> identity_ok X i \<and> id_secret_key i = sk"
  by (auto simp: from_secret_bytes_def size_caps split: if_splits dest: with_x25519_ok)

lemma identity_lengths:
  assumes "identity_ok X i"
  shows "length (signing_seed i) = 32" "length (public_key i) = 32"
    "ed_pub X (signing_seed i) = public_key i"
  using assms by (simp_all add: identity_ok_def signing_seed_def public_key_def)

lemma identity_montgomery:
  assumes "crypto_ext_ok X" and "identity_ok X i"
  shows "edwards_to_montgomery X (public_key i) = Some (id_x25519_pub i)"
proof -
  have "edwards_to_montgomery X (ed_pub X (signing_seed i)) =
      Some (x25519_mult X (ed25519_sk_to_x25519 X (signing_seed i)) (x25519_basepoint X))"
    by (rule ok_montgomery [OF assms(1) identity_lengths(1) [OF assms(2)]])
  moreover have "ed25519_sk_to_x25519 X (signing_seed i) = id_x25519_priv i"
    using assms(2) by (simp add: identity_ok_def signing_seed_def ed25519_sk_to_x25519_def)
  ultimately show ?thesis
    using assms(2) identity_lengths(3) [OF assms(2)] by (simp add: identity_ok_def)
qed

text \<open>C39. Loading an identity re-derives the public half: \<open>from_secret_bytes\<close> accepts exactly what
  \<open>from_seed\<close> builds, so a key that claims a foreign public key is refused.\<close>

theorem from_secret_bytes_iff_seed:
  assumes "crypto_ext_ok X"
  shows "from_secret_bytes X sk = Ok i \<longleftrightarrow>
    (\<exists>seed. length seed = 32 \<and> sk = seed @ ed_pub X seed \<and> from_seed X seed = Ok i)"
proof
  assume l: "from_secret_bytes X sk = Ok i"
  then have "length sk = 64" "ed_pub X (take 32 sk) = drop 32 sk" "with_x25519 X sk = Ok i"
    by (auto simp: from_secret_bytes_def size_caps split: if_splits)
  then show "\<exists>seed. length seed = 32 \<and> sk = seed @ ed_pub X seed \<and> from_seed X seed = Ok i"
    by (intro exI [of _ "take 32 sk"]) (simp add: from_seed_def)
next
  assume "\<exists>seed. length seed = 32 \<and> sk = seed @ ed_pub X seed \<and> from_seed X seed = Ok i"
  then show "from_secret_bytes X sk = Ok i"
    using ok_pub [OF assms] by (auto simp: from_secret_bytes_def from_seed_def size_caps)
qed

section \<open>No panic, whatever the blob\<close>

lemma slice_ok: "a \<le> b \<Longrightarrow> b \<le> length xs \<Longrightarrow> slice a b xs = Ok (take (b - a) (drop a xs))"
  by (simp add: slice_def)

lemma decompress_no_panic [simp]: "decompress X d \<noteq> Panic"
  by (simp add: decompress_def split: option.splits)

lemma x25519_no_panic [simp]: "x25519 X a p \<noteq> Panic"
  by (simp add: x25519_def Let_def)

lemma pk_no_panic [simp]: "ed25519_pk_to_x25519 X k \<noteq> Panic"
  by (simp add: ed25519_pk_to_x25519_def split: option.splits)

lemma open_inner_no_panic: "open_inner X i inner \<noteq> Panic"
proof (cases "length inner < 100")
  case False
  then show ?thesis
    by (auto simp: open_inner_def Let_def slice_ok slice_def split: if_splits)
qed (simp add: open_inner_def)

text \<open>C31. Decryption never panics: for every byte string a relay can serve, each slice is in
  range and the result is a value or one of the declared errors.\<close>

theorem decrypt_never_panics: "decrypt X i blob \<noteq> Panic"
proof (cases "length blob < MIN_BLOB_LEN")
  case False
  then show ?thesis
    using open_inner_no_panic
    by (auto simp: decrypt_def Let_def slice_def size_caps split: if_splits option.splits)
qed (simp add: decrypt_def)

section \<open>Encryption and decryption\<close>

lemma fill_bytes_length [simp]: "length (fst (fill_bytes n r)) = n"
  by (simp add: fill_bytes_def)

text \<open>What a successful \<open>encrypt\<close> built, layer by layer.\<close>

lemma encrypt_Ok_parts:
  assumes "encrypt X r sender rp pt = Ok blob"
  obtains recip_x c padding nonce ct where
    "length pt \<le> MAX_PLAINTEXT_LEN"
    "ed25519_pk_to_x25519 X rp = Ok recip_x"
    "\<not> all_zero (x25519_mult X (fst (fill_bytes 32 r)) recip_x)"
    "zstd_encode X pt = Some c"
    "length padding = padded_len (173 + length c) - (173 + length c)" "length nonce = 24"
    "aead_encrypt X
       (derive_key X (x25519_mult X (fst (fill_bytes 32 r)) recip_x)
          (x25519_mult X (fst (fill_bytes 32 r)) (x25519_basepoint X)) recip_x)
       nonce (aad WIRE_VERSION (x25519_mult X (fst (fill_bytes 32 r)) (x25519_basepoint X)) nonce rp)
       (public_key sender @
        ed_sign X (signing_seed sender) (msg_signed rp (be32 (length c) @ c @ padding)) @
        be32 (length c) @ c @ padding) = Some ct"
    "blob = WIRE_VERSION # x25519_mult X (fst (fill_bytes 32 r)) (x25519_basepoint X) @ nonce @ ct"
proof -
  obtain eph r1 where f1: "fill_bytes 32 r = (eph, r1)" by fastforce
  have n: "1 + 32 + NONCE_LEN + 32 + 64 + 4 + k + 16 = 173 + k" for k
    by (simp add: size_caps)
  obtain recip_x c where a: "length pt \<le> MAX_PLAINTEXT_LEN" "ed25519_pk_to_x25519 X rp = Ok recip_x"
    "\<not> all_zero (x25519_mult X eph recip_x)" "zstd_encode X pt = Some c"
    using assms f1
    by (auto simp: encrypt_def x25519_def compress_def Let_def split: if_splits option.splits)
  obtain padding r2 where f2: "fill_bytes (padded_len (173 + length c) - (173 + length c)) r1 = (padding, r2)"
    by fastforce
  obtain nonce r3 where f3: "fill_bytes NONCE_LEN r2 = (nonce, r3)" by fastforce
  have len: "length padding = padded_len (173 + length c) - (173 + length c)" "length nonce = 24"
    using f2 f3 by (auto simp: fill_bytes_def size_caps)
  obtain ct where
    "aead_encrypt X
       (derive_key X (x25519_mult X eph recip_x) (x25519_mult X eph (x25519_basepoint X)) recip_x)
       nonce (aad WIRE_VERSION (x25519_mult X eph (x25519_basepoint X)) nonce rp)
       (public_key sender @
        ed_sign X (signing_seed sender) (msg_signed rp (be32 (length c) @ c @ padding)) @
        be32 (length c) @ c @ padding) = Some ct"
    "blob = WIRE_VERSION # x25519_mult X eph (x25519_basepoint X) @ nonce @ ct"
    using assms a f1 f2 f3 unfolding encrypt_def n
    by (auto simp: x25519_def compress_def Let_def split: if_splits option.splits)
  then show ?thesis
    using a f1 len by (intro that [of recip_x c padding nonce ct]) simp_all
qed

lemma zstd_small:
  assumes "crypto_ext_ok X" "length pt \<le> MAX_PLAINTEXT_LEN" "zstd_encode X pt = Some c"
  shows "173 + length c < MAX_BLOB_LEN" "length c < 2 ^ 32"
    "zstd_read X 21 (MAX_PLAINTEXT_LEN + 1) c = Some pt"
proof -
  have z: "length c \<le> length pt + length pt div 256 + 1024"
    and "zstd_read X 21 (MAX_PLAINTEXT_LEN + 1) c = Some pt"
    using ok_zstd [OF assms(1,2)] assms(3) by auto
  then show "zstd_read X 21 (MAX_PLAINTEXT_LEN + 1) c = Some pt" by simp
  have "length c \<le> 2 ^ 21 + 1024"
    using z assms(2) div_le_dividend [of "length pt" 256] by (simp add: size_caps)
  then show "173 + length c < MAX_BLOB_LEN" "length c < 2 ^ 32"
    by (simp_all add: size_caps)
qed

lemma encrypt_blob_length:
  assumes ok: "crypto_ext_ok X" "identity_ok X sender" and e: "encrypt X r sender rp pt = Ok blob"
  shows "\<exists>c. zstd_encode X pt = Some c \<and> length blob = padded_len (173 + length c) \<and>
    MIN_BLOB_LEN \<le> length blob \<and> length blob \<le> MAX_BLOB_LEN"
proof -
  from e obtain recip_x c padding nonce ct where
    p: "length pt \<le> MAX_PLAINTEXT_LEN" "zstd_encode X pt = Some c"
    "length padding = padded_len (173 + length c) - (173 + length c)" "length nonce = 24" and
    ct: "aead_encrypt X
       (derive_key X (x25519_mult X (fst (fill_bytes 32 r)) recip_x)
          (x25519_mult X (fst (fill_bytes 32 r)) (x25519_basepoint X)) recip_x)
       nonce (aad WIRE_VERSION (x25519_mult X (fst (fill_bytes 32 r)) (x25519_basepoint X)) nonce rp)
       (public_key sender @
        ed_sign X (signing_seed sender) (msg_signed rp (be32 (length c) @ c @ padding)) @
        be32 (length c) @ c @ padding) = Some ct" and
    b: "blob = WIRE_VERSION # x25519_mult X (fst (fill_bytes 32 r)) (x25519_basepoint X) @ nonce @ ct"
    by (rule encrypt_Ok_parts)
  have "length ct = 32 + 64 + 4 + length c + length padding + 16"
    using ok_aead [OF ok(1) ct] ok_sign [OF ok(1) identity_lengths(1) [OF ok(2)]]
      identity_lengths(2) [OF ok(2)] by simp
  then have "length blob = 173 + length c + length padding"
    using b p(4) ok_mult [OF ok(1)] by simp
  then have "length blob = padded_len (173 + length c)"
    using p(3) padded_len_ge [of "173 + length c"] by simp
  then show ?thesis
    using p(2) padded_len_ge [of "173 + length c"] padded_len_le_max zstd_small(1) [OF ok(1) p(1,2)]
    by (auto simp: MIN_BLOB_LEN_def NONCE_LEN_def)
qed

lemma encrypt_length_on_boundary:
  assumes "crypto_ext_ok X" and "identity_ok X sender" and "encrypt X r sender rp pt = Ok blob"
  shows "(length blob \<in> set PADDING_BUCKETS \<or> 65536 dvd length blob) \<and>
    MIN_BLOB_LEN \<le> length blob \<and> length blob \<le> MAX_BLOB_LEN"
  using encrypt_blob_length [OF assms] padded_len_boundary by metis

lemma open_inner_sealed:
  assumes ok: "crypto_ext_ok X" "identity_ok X sender"
    and c: "length pt \<le> MAX_PLAINTEXT_LEN" "zstd_encode X pt = Some c"
  shows "open_inner X recipient
      (public_key sender @
       ed_sign X (signing_seed sender) (msg_signed (public_key recipient) (be32 (length c) @ c @ padding)) @
       be32 (length c) @ c @ padding) =
    Ok \<lparr>plaintext = pt, sender_hex = public_key_hex X sender\<rparr>"
proof -
  note z = zstd_small [OF ok(1) c] and ids = identity_lengths [OF ok(2)]
  let ?rest = "be32 (length c) @ c @ padding"
  let ?sig = "ed_sign X (signing_seed sender) (msg_signed (public_key recipient) ?rest)"
  have sig: "length ?sig = 64" "ed_verify_strict X (public_key sender) (msg_signed (public_key recipient) ?rest) ?sig"
    using ok_sign [OF ok(1) ids(1)] ids(3) by auto
  have "ed_valid_key X (public_key sender)"
    using ok_pub [OF ok(1) ids(1)] ids(3) by simp
  moreover have "decompress X c = Ok pt"
    using z(3) c(1) by (simp add: decompress_def)
  ultimately show ?thesis
    using sig ids(2) z(2)
    by (simp add: open_inner_def Let_def slice_def from_be32_be32 public_key_hex_def)
qed

lemma decrypt_sealed:
  assumes ok: "crypto_ext_ok X" "identity_ok X sender" "identity_ok X recipient"
    and e: "encrypt X r sender (public_key recipient) pt = Ok blob"
  shows "decrypt X recipient blob = Ok \<lparr>plaintext = pt, sender_hex = public_key_hex X sender\<rparr>"
proof -
  let ?eph = "fst (fill_bytes 32 r)"
  let ?ep = "x25519_mult X ?eph (x25519_basepoint X)"
  from e obtain recip_x c padding nonce ct where
    p: "length pt \<le> MAX_PLAINTEXT_LEN" "ed25519_pk_to_x25519 X (public_key recipient) = Ok recip_x"
    "\<not> all_zero (x25519_mult X ?eph recip_x)" "zstd_encode X pt = Some c" "length nonce = 24" and
    ct: "aead_encrypt X (derive_key X (x25519_mult X ?eph recip_x) ?ep recip_x)
       nonce (aad WIRE_VERSION ?ep nonce (public_key recipient))
       (public_key sender @
        ed_sign X (signing_seed sender) (msg_signed (public_key recipient) (be32 (length c) @ c @ padding)) @
        be32 (length c) @ c @ padding) = Some ct" and
    b: "blob = WIRE_VERSION # ?ep @ nonce @ ct"
    by (rule encrypt_Ok_parts)
  have rx: "recip_x = id_x25519_pub recipient"
    using p(2) identity_montgomery [OF ok(1,3)] by (auto simp: ed25519_pk_to_x25519_def split: if_splits)
  have "x25519_mult X ?eph recip_x = x25519_mult X (id_x25519_priv recipient) ?ep"
    using ok(3) ok_agree [OF ok(1)] unfolding rx by (simp add: identity_ok_def)
  then have sec: "x25519 X (id_x25519_priv recipient) ?ep = Ok (x25519_mult X ?eph recip_x)"
    using p(3) by (simp add: x25519_def)
  have len: "MIN_BLOB_LEN \<le> length blob" "length blob \<le> MAX_BLOB_LEN"
    using encrypt_blob_length [OF ok(1,2) e] by auto
  have sl: "slice 1 33 blob = Ok ?ep" "slice 33 (33 + NONCE_LEN) blob = Ok nonce"
    "slice (33 + NONCE_LEN) (length blob) blob = Ok ct"
    using b p(5) ok_mult [OF ok(1)] by (simp_all add: slice_def size_caps)
  have "blob ! 0 = WIRE_VERSION" using b by simp
  then show ?thesis
    using len sl sec ok_aead [OF ok(1) ct] open_inner_sealed [OF ok(1,2) p(1,4)]
    by (simp add: decrypt_def rx)
qed

text \<open>C16. Decryption inverts encryption: the addressed recipient recovers exactly the plaintext and
  the sender's public key.\<close>

theorem decrypt_encrypt:
  assumes "crypto_ext_ok X" and "identity_ok X sender" and "identity_ok X recipient"
    and "encrypt X r sender (public_key recipient) pt = Ok blob"
  shows "decrypt X recipient blob = Ok \<lparr>plaintext = pt, sender_hex = public_key_hex X sender\<rparr>"
  using assms by (rule decrypt_sealed)

lemma encrypt_seals:
  assumes ok: "crypto_ext_ok X" "identity_ok X sender" and "length pt \<le> MAX_PLAINTEXT_LEN"
    and k: "ed25519_pk_to_x25519 X rp = Ok k" "\<not> all_zero (x25519_mult X (fst (fill_bytes 32 r)) k)"
  shows "\<exists>blob. encrypt X r sender rp pt = Ok blob"
proof -
  obtain c where c: "zstd_encode X pt = Some c"
    using ok_zstd [OF ok(1) assms(3)] by blast
  have n: "1 + 32 + NONCE_LEN + 32 + 64 + 4 + k + 16 = 173 + k" for k
    by (simp add: size_caps)
  obtain eph r1 where f1: "fill_bytes 32 r = (eph, r1)" by fastforce
  obtain padding r2 where f2: "fill_bytes (padded_len (173 + length c) - (173 + length c)) r1 = (padding, r2)"
    by fastforce
  have "length padding = padded_len (173 + length c) - (173 + length c)"
    using f2 by (auto simp: fill_bytes_def)
  then have len: "length (public_key sender @ ed_sign X (signing_seed sender) m @ be32 l @ c @ padding)
      \<le> MAX_BLOB_LEN" for m l
    using identity_lengths [OF ok(2)] ok_sign [OF ok(1)] padded_len_ge [of "173 + length c"]
      padded_len_le_max [OF zstd_small(1) [OF ok(1) assms(3) c]] by simp
  note total = ok_aead_total [OF ok(1) len]
  show ?thesis
    using assms(3) k c f1 f2 padded_len_ge [of "173 + length c"] unfolding encrypt_def n
    by (auto simp: total x25519_def compress_def Let_def split: prod.splits option.splits)
qed

text \<open>C37. Encryption never panics and succeeds exactly when the payload is within the limit, the
  recipient's key is a usable curve point and the shared secret is not zero; the only errors are
  those three. Every blob it makes has one of the nine bucket lengths or a multiple of 65536, within
  the limits \<open>decrypt\<close> checks, so its length tells only the bucket.\<close>

theorem encrypt_outcomes:
  assumes ok: "crypto_ext_ok X" "identity_ok X sender"
  shows "encrypt X r sender rp pt \<noteq> Panic \<and>
    ((\<exists>blob. encrypt X r sender rp pt = Ok blob) \<longleftrightarrow>
       length pt \<le> MAX_PLAINTEXT_LEN \<and>
       (\<exists>k. ed25519_pk_to_x25519 X rp = Ok k \<and> \<not> all_zero (x25519_mult X (fst (fill_bytes 32 r)) k))) \<and>
    (\<forall>e. encrypt X r sender rp pt = Err e \<longrightarrow> e \<in> {Encrypt, InvalidPublicKey, InvalidEphemeralKey}) \<and>
    (\<forall>blob. encrypt X r sender rp pt = Ok blob \<longrightarrow>
       (length blob \<in> set PADDING_BUCKETS \<or> 65536 dvd length blob) \<and>
       MIN_BLOB_LEN \<le> length blob \<and> length blob \<le> MAX_BLOB_LEN)"
proof (cases "length pt \<le> MAX_PLAINTEXT_LEN \<and>
    (\<exists>k. ed25519_pk_to_x25519 X rp = Ok k \<and> \<not> all_zero (x25519_mult X (fst (fill_bytes 32 r)) k))")
  case True
  then obtain blob where "encrypt X r sender rp pt = Ok blob"
    using encrypt_seals [OF ok] by blast
  with True encrypt_length_on_boundary [OF ok] show ?thesis by simp
next
  case False
  have pk: "ed25519_pk_to_x25519 X rp = Err e \<Longrightarrow> e = InvalidPublicKey" for e
    by (auto simp: ed25519_pk_to_x25519_def split: option.splits if_splits)
  obtain eph r1 where "fill_bytes 32 r = (eph, r1)" by fastforce
  with False pk have "encrypt X r sender rp pt \<in> {Err Encrypt, Err InvalidPublicKey, Err InvalidEphemeralKey}"
    by (cases "ed25519_pk_to_x25519 X rp") (auto simp: encrypt_def x25519_def Let_def)
  with False show ?thesis by auto
qed

text \<open>C15. What decryption accepts is authentic: the sender key it reports is a valid point whose
  signature verifies over this recipient's key and the opened contents, and the plaintext respects
  the decompression limit.\<close>

theorem decrypt_authentic:
  assumes "decrypt X i blob = Ok d"
  shows "\<exists>sender_pub sig rest. sender_hex d = hex_encode X sender_pub \<and> ed_valid_key X sender_pub \<and>
    ed_verify_strict X sender_pub (msg_signed (public_key i) rest) sig \<and>
    length (plaintext d) \<le> MAX_PLAINTEXT_LEN \<and>
    decompress X (take (from_be32 (take 4 rest)) (drop 4 rest)) = Ok (plaintext d)"
proof -
  obtain inner where o: "open_inner X i inner = Ok d"
    using assms by (auto simp: decrypt_def Let_def split: if_splits option.splits)
  then have len: "100 \<le> length inner" by (auto simp: open_inner_def split: if_splits)
  let ?rest = "drop 96 inner"
  have d: "drop 4 ?rest = drop 100 inner" by simp
  from o len have v: "sender_hex d = hex_encode X (take 32 inner)" "ed_valid_key X (take 32 inner)"
      "ed_verify_strict X (take 32 inner) (msg_signed (public_key i) ?rest) (take 64 (drop 32 inner))"
    and dec: "decompress X (take (from_be32 (take 4 ?rest)) (drop 4 ?rest)) = Ok (plaintext d)"
    unfolding d by (auto simp: open_inner_def Let_def slice_def split: if_splits)
  have "length (plaintext d) \<le> MAX_PLAINTEXT_LEN"
    using dec by (auto simp: decompress_def split: option.splits if_splits)
  with v dec show ?thesis by blast
qed

text \<open>Signatures are separated by domain: no auth challenge, whatever host and challenge a
  relay chooses, makes the client sign a byte string that verifies as a message signature.\<close>

lemma auth_and_message_signatures_differ:
  "auth_message server_host challenge \<noteq> msg_signed recipient_pub rest"
  by (simp add: auth_message_def msg_signed_def AUTH_TAG_def MSG_TAG_def lit_def utf8_char_def)

section \<open>An instance of the primitives\<close>

text \<open>
  Stand-in primitives that satisfy \<open>crypto_ext_ok\<close>: they show that the assumptions are consistent
  and let the witnesses run. They offer no security.
\<close>

definition ref_crypto_ext :: crypto_ext where
  "ref_crypto_ext =
     \<lparr>hex_encode = ref_hex_encode, hex_decode = ref_hex_decode,
      to_lowercase = map ascii_lower, ed_valid_key = (\<lambda>_. True),
      ed_pub = (\<lambda>seed. seed), ed_sign = (\<lambda>seed m. replicate 64 0),
      ed_verify_strict = (\<lambda>k m sig. True),
      x25519_mult = (\<lambda>a p. replicate 32 1), x25519_basepoint = replicate 32 9,
      edwards_to_montgomery = (\<lambda>k. if length k = 32 then Some (replicate 32 1) else None),
      sha512 = (\<lambda>m. replicate 64 0), hkdf_sha256 = (\<lambda>salt ikm info. replicate 32 0),
      aead_encrypt = (\<lambda>k n a m. Some (m @ replicate 16 0)),
      aead_decrypt = (\<lambda>k n a c. if length c < 16 then None else Some (take (length c - 16) c)),
      zstd_encode = Some, zstd_read = (\<lambda>w n c. Some (take n c))\<rparr>"

lemma ref_crypto_ext_ok: "crypto_ext_ok ref_crypto_ext"
  by (simp add: crypto_ext_ok_def phonemic_ext_ok_def ref_crypto_ext_def ref_hex_roundtrip ref_hex_shape)

definition ref_identity :: "byte \<Rightarrow> identity" where
  "ref_identity b =
     \<lparr>id_secret_key = replicate 64 b,
      id_x25519_priv = ed25519_sk_to_x25519 ref_crypto_ext (replicate 64 b),
      id_x25519_pub = replicate 32 1\<rparr>"

lemma ref_identity_ok: "identity_ok ref_crypto_ext (ref_identity b)"
  by (simp add: identity_ok_def ref_identity_def ref_crypto_ext_def)

lemma ref_identity_key: "public_key (ref_identity b) = replicate 32 b"
  by (simp add: public_key_def ref_identity_def)

lemma ref_usable_key:
  "ed25519_pk_to_x25519 ref_crypto_ext (replicate 32 b) = Ok (replicate 32 1)"
  "\<not> all_zero (x25519_mult ref_crypto_ext a p)"
  by (simp_all add: ed25519_pk_to_x25519_def ref_crypto_ext_def all_zero_def list_all_iff)

lemma ref_encrypt: "\<exists>blob. encrypt ref_crypto_ext (\<lambda>_. 0) (ref_identity 1) (replicate 32 b) [5] = Ok blob"
  by (rule encrypt_seals [OF ref_crypto_ext_ok ref_identity_ok _ ref_usable_key]) (simp add: size_caps)

theorem from_secret_bytes_iff_seed_witness:
  "(from_secret_bytes ref_crypto_ext (replicate 64 7) = Ok (ref_identity 7)) \<longleftrightarrow>
    (\<exists>seed. length seed = 32 \<and> replicate 64 7 = seed @ ed_pub ref_crypto_ext seed \<and>
       from_seed ref_crypto_ext seed = Ok (ref_identity 7))"
  by (rule from_secret_bytes_iff_seed [OF ref_crypto_ext_ok])

theorem decrypt_encrypt_witness:
  "\<exists>blob. encrypt ref_crypto_ext (\<lambda>_. 0) (ref_identity 1) (public_key (ref_identity 2)) [5] = Ok blob \<and>
     decrypt ref_crypto_ext (ref_identity 2) blob =
       Ok \<lparr>plaintext = [5], sender_hex = public_key_hex ref_crypto_ext (ref_identity 1)\<rparr>"
  using ref_encrypt [of 2] decrypt_encrypt [OF ref_crypto_ext_ok ref_identity_ok ref_identity_ok]
  unfolding ref_identity_key by (metis ref_identity_key)

theorem encrypt_outcomes_witness:
  "encrypt ref_crypto_ext (\<lambda>_. 0) (ref_identity 1) [] [5] \<noteq> Panic \<and>
   \<not> (\<exists>blob. encrypt ref_crypto_ext (\<lambda>_. 0) (ref_identity 1) [] [5] = Ok blob)"
proof -
  have "ed25519_pk_to_x25519 ref_crypto_ext [] = Err InvalidPublicKey"
    by (simp add: ed25519_pk_to_x25519_def ref_crypto_ext_def)
  then show ?thesis
    using encrypt_outcomes [OF ref_crypto_ext_ok ref_identity_ok, of "\<lambda>_. 0" 1 "[]" "[5]"] by simp
qed

theorem decrypt_authentic_witness:
  "\<exists>sender_pub. ed_valid_key ref_crypto_ext sender_pub \<and>
     public_key_hex ref_crypto_ext (ref_identity 1) = hex_encode ref_crypto_ext sender_pub"
proof -
  obtain blob where e: "encrypt ref_crypto_ext (\<lambda>_. 0) (ref_identity 1) (public_key (ref_identity 2)) [5] = Ok blob"
    using ref_encrypt [of 2] by (auto simp: ref_identity_key)
  let ?d = "\<lparr>plaintext = [5], sender_hex = public_key_hex ref_crypto_ext (ref_identity 1)\<rparr>"
  have "decrypt ref_crypto_ext (ref_identity 2) blob = Ok ?d"
    by (rule decrypt_sealed [OF ref_crypto_ext_ok ref_identity_ok ref_identity_ok e])
  from decrypt_authentic [OF this] show ?thesis by auto
qed

end
