(* ===== verification/Protocol.thy ===== *)
theory Protocol
  imports Crypto "HOL-Library.Countable"
begin

text \<open>
  The plaintext payloads (\<open>core/src/protocol.rs\<close>): \<open>serialize_payload\<close>, the sanitiser and the
  bounded parser \<open>parse_payload\<close>.

  \<open>serde_json::Value\<close> is the datatype \<open>json\<close> (its maps are ordered maps, as in the crate's default
  configuration); its textual syntax is another crate, so printing and parsing are fields of
  \<open>protocol_ext\<close>, and \<open>protocol_ext_ok\<close> says that a value of the kinds the program builds prints to
  text that parses back. The base64 check is a field too.
\<close>

datatype json =
    JNull
  | JBool bool
  | JInt int
  | JFloat int
  | JStr ustr
  | JArr "json list"
  | JObj "(ustr \<times> json) list"

instance json :: countable by countable_datatype

record protocol_ext = crypto_ext +
  json_print :: "json \<Rightarrow> ustr"
  json_parse :: "bytes \<Rightarrow> json option"
  base64_ok :: "ustr \<Rightarrow> bool"

fun json_wf :: "json \<Rightarrow> bool" where
  "json_wf JNull = True"
| "json_wf (JBool b) = True"
| "json_wf (JInt n) = in_i64 n"
| "json_wf (JFloat x) = False"
| "json_wf (JStr s) = list_all is_scalar s"
| "json_wf (JArr vs) = list_all json_wf vs"
| "json_wf (JObj kvs) = (bt_wf kvs \<and> list_all (\<lambda>kv. list_all is_scalar (fst kv) \<and> json_wf (snd kv)) kvs)"

text \<open>Every string of a parsed value is a sequence of Unicode scalar values.\<close>

fun json_scalar :: "json \<Rightarrow> bool" where
  "json_scalar (JStr s) = list_all is_scalar s"
| "json_scalar (JArr vs) = list_all json_scalar vs"
| "json_scalar (JObj kvs) = list_all (\<lambda>kv. json_scalar (snd kv)) kvs"
| "json_scalar _ = True"

definition protocol_ext_ok :: "'z protocol_ext_scheme \<Rightarrow> bool" where
  "protocol_ext_ok X \<longleftrightarrow>
     crypto_ext_ok X \<and> (\<forall>v. json_wf v \<longrightarrow> json_parse X (utf8_encode (json_print X v)) = Some v) \<and>
     (\<forall>b v. json_parse X b = Some v \<longrightarrow> json_scalar v)"

lemma json_wf_scalar: "json_wf v \<Longrightarrow> json_scalar v"
  by (induction v rule: json_scalar.induct) (auto simp: list_all_iff)

text \<open>\<open>Value::get\<close>, \<open>as_str\<close>, \<open>as_i64\<close>, \<open>as_array\<close>.\<close>

fun json_get :: "json \<Rightarrow> string \<Rightarrow> json option" where
  "json_get (JObj kvs) k = bt_get kvs (lit k)"
| "json_get _ k = None"

fun json_str :: "json \<Rightarrow> ustr option" where
  "json_str (JStr s) = Some s"
| "json_str _ = None"

fun json_i64 :: "json \<Rightarrow> int option" where
  "json_i64 (JInt n) = (if in_i64 n then Some n else None)"
| "json_i64 _ = None"

fun json_array :: "json \<Rightarrow> json list option" where
  "json_array (JArr vs) = Some vs"
| "json_array _ = None"

section \<open>Payloads\<close>

definition MAX_BODY_LEN :: nat where [size_caps]: "MAX_BODY_LEN = 64 * 1024"
definition MAX_DISPLAY_NAME_LEN :: nat where [size_caps]: "MAX_DISPLAY_NAME_LEN = 128"
definition MAX_BIO_LEN :: nat where [size_caps]: "MAX_BIO_LEN = 1024"
definition MAX_PHOTO_LEN :: nat where [size_caps]: "MAX_PHOTO_LEN = 64 * 1024"
definition MAX_ID_LEN :: nat where [size_caps]: "MAX_ID_LEN = 128"
definition MAX_ACK_IDS :: nat where [size_caps]: "MAX_ACK_IDS = 1024"

datatype payload =
    Text ustr ustr
  | DeliveryAck "ustr list"
  | Profile "ustr option" "ustr option" "ustr option"

record parsed_payload =
  pp_ts :: int
  pp_payload :: payload

record envelope =
  to :: ustr
  encrypted_blob :: ustr

text \<open>The \<open>json!\<close> object, and \<open>obj["k"] = v\<close> on it.\<close>

definition json_obj :: "(string \<times> json) list \<Rightarrow> json" where
  "json_obj kvs = JObj (bt_collect (map (\<lambda>(k, v). (lit k, v)) kvs))"

definition opt_field :: "string \<Rightarrow> ustr option \<Rightarrow> (string \<times> json) list" where
  "opt_field k v = (case v of None \<Rightarrow> [] | Some s \<Rightarrow> [(k, JStr s)])"

fun payload_value :: "payload \<Rightarrow> int \<Rightarrow> json" where
  "payload_value (Text i body) ts =
     json_obj [(''type'', JStr (lit ''text'')), (''id'', JStr i), (''body'', JStr body), (''ts'', JInt ts)]"
| "payload_value (DeliveryAck ack_ids) ts =
     json_obj [(''type'', JStr (lit ''delivery.ack'')), (''ack_ids'', JArr (map JStr ack_ids)), (''ts'', JInt ts)]"
| "payload_value (Profile display_name bio photo) ts =
     json_obj ([(''type'', JStr (lit ''profile'')), (''ts'', JInt ts)] @
       opt_field ''display_name'' display_name @ opt_field ''bio'' bio @ opt_field ''photo'' photo)"

definition serialize_payload :: "'z protocol_ext_scheme \<Rightarrow> payload \<Rightarrow> int \<Rightarrow> ustr" where
  "serialize_payload X p ts = json_print X (payload_value p ts)"

definition keeps_char :: "nat \<Rightarrow> bool" where
  "keeps_char cp \<longleftrightarrow>
     \<not> (cp \<le> 0x1F \<and> cp \<noteq> 9 \<and> cp \<noteq> 10 \<and> cp \<noteq> 13) \<and>
     \<not> (cp = 0x200E \<or> cp = 0x200F \<or> (0x202A \<le> cp \<and> cp \<le> 0x202E) \<or> (0x2066 \<le> cp \<and> cp \<le> 0x2069)) \<and>
     \<not> (cp = 0x200B \<or> cp = 0x200C \<or> cp = 0x200D \<or> cp = 0xFEFF)"

definition sanitize_text :: "ustr \<Rightarrow> ustr" where
  "sanitize_text s = filter keeps_char s"

definition get_str :: "json \<Rightarrow> string \<Rightarrow> ustr option" where
  "get_str v k = Option.bind (json_get v k) json_str"

definition parse_text :: "json \<Rightarrow> payload option" where
  "parse_text v =
     (case get_str v ''id'' of
        None \<Rightarrow> None
      | Some i \<Rightarrow> (case get_str v ''body'' of
          None \<Rightarrow> None
        | Some raw \<Rightarrow>
            (let body = sanitize_text raw
             in if ulen i > MAX_ID_LEN \<or> ulen body > MAX_BODY_LEN then None else Some (Text i body))))"

definition parse_ack :: "json \<Rightarrow> payload option" where
  "parse_ack v =
     (case Option.bind (json_get v ''ack_ids'') json_array of
        None \<Rightarrow> None
      | Some raw \<Rightarrow>
          if length raw > MAX_ACK_IDS then None
          else
            (let ack_ids = List.map_filter json_str raw
             in if length ack_ids > MAX_ACK_IDS \<or> list_ex (\<lambda>i. ulen i > MAX_ID_LEN) ack_ids
                then None else Some (DeliveryAck ack_ids)))"

definition is_some_and :: "'a option \<Rightarrow> ('a \<Rightarrow> bool) \<Rightarrow> bool" where
  "is_some_and x P = (case x of None \<Rightarrow> False | Some a \<Rightarrow> P a)"

definition parse_profile :: "'z protocol_ext_scheme \<Rightarrow> json \<Rightarrow> payload option" where
  "parse_profile X v =
     (let display_name = map_option sanitize_text (get_str v ''display_name'');
          bio = map_option sanitize_text (get_str v ''bio'');
          photo = get_str v ''photo''
      in if is_some_and display_name (\<lambda>d. length d > MAX_DISPLAY_NAME_LEN) \<or>
            is_some_and bio (\<lambda>b. length b > MAX_BIO_LEN) \<or>
            is_some_and photo (\<lambda>p. ulen p > MAX_PHOTO_LEN) \<or>
            is_some_and photo (\<lambda>p. \<not> base64_ok X p)
         then None else Some (Profile display_name bio photo))"

definition payload_ts :: "json \<Rightarrow> int" where
  "payload_ts v = (case Option.bind (json_get v ''ts'') json_i64 of None \<Rightarrow> 0 | Some t \<Rightarrow> t)"

definition parse_payload :: "'z protocol_ext_scheme \<Rightarrow> bytes \<Rightarrow> parsed_payload option" where
  "parse_payload X bs =
     (case json_parse X bs of
        None \<Rightarrow> None
      | Some v \<Rightarrow>
          (let ts = payload_ts v
           in case get_str v ''type'' of
                None \<Rightarrow> None
              | Some ty \<Rightarrow>
                  map_option (\<lambda>p. \<lparr>pp_ts = ts, pp_payload = p\<rparr>)
                    (if ty = lit ''text'' then parse_text v
                     else if ty = lit ''delivery.ack'' then parse_ack v
                     else if ty = lit ''profile'' then parse_profile X v
                     else None)))"

section \<open>The limits and the clean strings\<close>

fun within_caps :: "'z protocol_ext_scheme \<Rightarrow> payload \<Rightarrow> bool" where
  "within_caps X (Text i body) = (ulen i \<le> MAX_ID_LEN \<and> ulen body \<le> MAX_BODY_LEN)"
| "within_caps X (DeliveryAck ids) = (length ids \<le> MAX_ACK_IDS \<and> list_all (\<lambda>i. ulen i \<le> MAX_ID_LEN) ids)"
| "within_caps X (Profile n b ph) =
     (\<not> is_some_and n (\<lambda>d. length d > MAX_DISPLAY_NAME_LEN) \<and>
      \<not> is_some_and b (\<lambda>d. length d > MAX_BIO_LEN) \<and>
      \<not> is_some_and ph (\<lambda>p. ulen p > MAX_PHOTO_LEN \<or> \<not> base64_ok X p))"

fun sanitize_payload :: "payload \<Rightarrow> payload" where
  "sanitize_payload (Text i body) = Text i (sanitize_text body)"
| "sanitize_payload (DeliveryAck ids) = DeliveryAck ids"
| "sanitize_payload (Profile n b ph) = Profile (map_option sanitize_text n) (map_option sanitize_text b) ph"

fun payload_strings :: "payload \<Rightarrow> ustr list" where
  "payload_strings (Text i body) = [i, body]"
| "payload_strings (DeliveryAck ids) = ids"
| "payload_strings (Profile n b ph) = List.map_filter id [n, b, ph]"

definition payload_wf :: "payload \<Rightarrow> bool" where
  "payload_wf p \<longleftrightarrow> list_all (list_all is_scalar) (payload_strings p)"

lemma sanitize_idem [simp]: "sanitize_text (sanitize_text s) = sanitize_text s"
  by (simp add: sanitize_text_def)

lemma sanitize_ulen: "ulen (sanitize_text s) \<le> ulen s"
  by (simp add: sanitize_text_def ulen_filter_le)

lemma sanitize_length: "length (sanitize_text s) \<le> length s"
  by (simp add: sanitize_text_def)

lemma json_get_obj: "json_get (json_obj kvs) k = map_of (rev kvs) k"
proof -
  have "map_of (map (\<lambda>(k, v). (lit k, v)) kvs) (lit k) = map_of kvs k" for kvs :: "(string \<times> json) list"
    by (induction kvs) auto
  then show ?thesis
    by (simp add: json_obj_def bt_get_collect rev_map)
qed

lemma map_filter_JStr [simp]: "List.map_filter json_str (map JStr ids) = ids"
  by (induction ids) (simp_all add: List.map_filter_simps)

lemma json_wf_obj:
  assumes "\<forall>(k, v)\<in>set kvs. list_all is_scalar (lit k) \<and> json_wf v"
  shows "json_wf (json_obj kvs)"
proof -
  have "(k, v) \<in> set (bt_collect (map (\<lambda>(k, v). (lit k, v)) kvs)) \<Longrightarrow>
      list_all is_scalar k \<and> json_wf v" for k v
  proof -
    assume "(k, v) \<in> set (bt_collect (map (\<lambda>(k, v). (lit k, v)) kvs))"
    then have "map_of (rev (map (\<lambda>(k, v). (lit k, v)) kvs)) k = Some v"
      by (simp flip: bt_get_collect add: bt_get_Some_iff bt_wf_collect)
    from map_of_SomeD [OF this] show ?thesis using assms by auto
  qed
  then show ?thesis by (force simp: json_obj_def bt_wf_collect list_all_iff)
qed

lemma payload_value_wf: "payload_wf p \<Longrightarrow> in_i64 ts \<Longrightarrow> json_wf (payload_value p ts)"
  by (cases p)
    (auto intro!: json_wf_obj simp: payload_wf_def opt_field_def lit_def is_scalar_def list_all_iff
      List.map_filter_simps split: option.splits)

section \<open>Round trip and bounds\<close>

lemma sanitize_is_clean: "list_all keeps_char (sanitize_text s)"
  by (simp add: sanitize_text_def list_all_iff)

lemma get_str_obj: "get_str (json_obj kvs) k = Option.bind (map_of (rev kvs) k) json_str"
  by (simp add: get_str_def json_get_obj)

lemma payload_fields:
  "payload_ts (payload_value p ts) = (if in_i64 ts then ts else 0)"
  "get_str (payload_value (Text i body) ts) ''type'' = Some (lit ''text'')"
  "get_str (payload_value (DeliveryAck ids) ts) ''type'' = Some (lit ''delivery.ack'')"
  "get_str (payload_value (Profile n b ph) ts) ''type'' = Some (lit ''profile'')"
  by (cases p) (simp_all add: payload_ts_def get_str_obj json_get_obj opt_field_def split: option.splits)

lemma parse_value:
  "parse_text (payload_value (Text i body) ts) =
     (if within_caps X (sanitize_payload (Text i body)) then Some (sanitize_payload (Text i body)) else None)"
  "parse_ack (payload_value (DeliveryAck ids) ts) =
     (if within_caps X (DeliveryAck ids) then Some (DeliveryAck ids) else None)"
  "parse_profile X (payload_value (Profile n b ph) ts) =
     (if within_caps X (sanitize_payload (Profile n b ph)) then Some (sanitize_payload (Profile n b ph)) else None)"
proof -
  show "parse_text (payload_value (Text i body) ts) =
     (if within_caps X (sanitize_payload (Text i body)) then Some (sanitize_payload (Text i body)) else None)"
    by (auto simp: parse_text_def get_str_obj Let_def)
  show "parse_ack (payload_value (DeliveryAck ids) ts) =
     (if within_caps X (DeliveryAck ids) then Some (DeliveryAck ids) else None)"
    by (auto simp: parse_ack_def json_get_obj Let_def list_ex_iff list_all_iff not_le)
  have "get_str (payload_value (Profile n b ph) ts) ''display_name'' = n"
    "get_str (payload_value (Profile n b ph) ts) ''bio'' = b"
    "get_str (payload_value (Profile n b ph) ts) ''photo'' = ph"
    by (simp_all add: get_str_obj opt_field_def split: option.splits)
  then show "parse_profile X (payload_value (Profile n b ph) ts) =
     (if within_caps X (sanitize_payload (Profile n b ph)) then Some (sanitize_payload (Profile n b ph)) else None)"
    by (auto simp: parse_profile_def Let_def is_some_and_def simp del: payload_value.simps split: option.splits)
qed

lemma parse_serialized:
  assumes "protocol_ext_ok X" and "payload_wf p" and "in_i64 ts"
  shows "parse_payload X (utf8_encode (serialize_payload X p ts)) =
    (if within_caps X (sanitize_payload p)
     then Some \<lparr>pp_ts = ts, pp_payload = sanitize_payload p\<rparr> else None)"
proof -
  have "json_parse X (utf8_encode (serialize_payload X p ts)) = Some (payload_value p ts)"
    using assms by (simp add: protocol_ext_ok_def serialize_payload_def payload_value_wf)
  then show ?thesis
    using assms(3)
    by (cases p)
      (simp_all add: parse_payload_def payload_fields parse_value [where X = X] Let_def
        del: payload_value.simps)
qed

text \<open>C35. Parsing a serialised payload gives back its timestamp and the payload itself with
  invisible characters removed, exactly when that payload is within the size limits, and nothing
  otherwise.\<close>

theorem parse_serialize:
  assumes "protocol_ext_ok X" and "payload_wf p" and "in_i64 ts"
  shows "parse_payload X (utf8_encode (serialize_payload X p ts)) =
    (if within_caps X (sanitize_payload p)
     then Some \<lparr>pp_ts = ts, pp_payload = sanitize_payload p\<rparr> else None)"
  using assms by (rule parse_serialized)

lemma parse_text_caps:
  "parse_text v = Some p \<Longrightarrow> within_caps X p \<and> sanitize_payload p = p \<and> (\<exists>i b. p = Text i b)"
  by (auto simp: parse_text_def Let_def split: option.splits if_splits)

lemma parse_ack_caps:
  "parse_ack v = Some p \<Longrightarrow> within_caps X p \<and> sanitize_payload p = p"
  by (auto simp: parse_ack_def Let_def list_ex_iff list_all_iff not_less split: option.splits if_splits)

lemma parse_profile_caps:
  "parse_profile X v = Some p \<Longrightarrow> within_caps X p \<and> sanitize_payload p = p"
  by (auto simp: parse_profile_def Let_def is_some_and_def option.map_comp comp_def
      split: option.splits if_splits)

lemma payload_ts_range: "in_i64 (payload_ts v)"
proof (cases "Option.bind (json_get v ''ts'') json_i64")
  case (Some t)
  then obtain w where "json_i64 w = Some t" by (auto simp: bind_eq_Some_conv)
  then show ?thesis using Some by (cases w) (auto simp: payload_ts_def split: if_splits)
qed (simp add: payload_ts_def in_i64_def i64_min_def i64_max_def)

lemma parse_payload_bounds:
  assumes "parse_payload X bs = Some q"
  shows "within_caps X (pp_payload q) \<and> sanitize_payload (pp_payload q) = pp_payload q \<and> in_i64 (pp_ts q)"
proof -
  obtain v p where "parse_text v = Some p \<or> parse_ack v = Some p \<or> parse_profile X v = Some p"
    and "q = \<lparr>pp_ts = payload_ts v, pp_payload = p\<rparr>"
    using assms by (auto simp: parse_payload_def Let_def split: option.splits if_splits)
  then show ?thesis
    using parse_text_caps parse_ack_caps parse_profile_caps payload_ts_range
    by (metis parsed_payload.select_convs)
qed

text \<open>C36. Whatever a peer puts inside a blob, a payload that parses is within every size limit, its
  displayed strings hold no control, bidirectional or zero-width characters (sanitising them again
  changes nothing), and its timestamp is a 64-bit integer.\<close>

theorem parse_payload_bounded:
  assumes "parse_payload X bs = Some q"
  shows "within_caps X (pp_payload q) \<and> sanitize_payload (pp_payload q) = pp_payload q \<and> in_i64 (pp_ts q)"
  using assms by (rule parse_payload_bounds)

text \<open>A parsed payload is made of Unicode text again, so it can be serialised back.\<close>

lemma get_str_scalar:
  assumes "json_scalar v" "get_str v k = Some s"
  shows "list_all is_scalar s"
proof (cases v)
  case (JObj kvs)
  with assms obtain w where w: "bt_get kvs (lit k) = Some w" "json_str w = Some s"
    by (auto simp: get_str_def Option.bind_eq_Some_conv)
  from w(1) assms JObj have "json_scalar w"
    by (auto simp: list_all_iff dest!: bt_get_in_set)
  with w(2) show ?thesis by (cases w) auto
qed (use assms in \<open>simp_all add: get_str_def\<close>)

lemma sanitize_scalar: "list_all is_scalar s \<Longrightarrow> list_all is_scalar (sanitize_text s)"
  by (auto simp: sanitize_text_def list_all_iff)

lemma parse_ack_scalar:
  assumes "json_scalar v" "parse_ack v = Some p"
  shows "payload_wf p"
proof -
  obtain raw where raw: "Option.bind (json_get v ''ack_ids'') json_array = Some raw"
    and p: "p = DeliveryAck (List.map_filter json_str raw)"
    using assms(2) by (auto simp: parse_ack_def Let_def split: option.splits if_splits)
  then obtain kvs where "v = JObj kvs" "bt_get kvs (lit ''ack_ids'') = Some (JArr raw)"
    by (cases v) (auto simp: Option.bind_eq_Some_conv elim!: json_array.elims)
  with assms(1) have "list_all json_scalar raw"
    by (auto simp: list_all_iff dest!: bt_get_in_set)
  then show ?thesis
    by (auto simp: p payload_wf_def list_all_iff map_filter_def elim!: json_str.elims)
qed

lemma parse_payload_wf:
  assumes "protocol_ext_ok X" "parse_payload X bs = Some q"
  shows "payload_wf (pp_payload q)"
proof -
  have "\<exists>v p. json_parse X bs = Some v \<and>
      (parse_text v = Some p \<or> parse_ack v = Some p \<or> parse_profile X v = Some p) \<and> pp_payload q = p"
    using assms(2) by (auto simp: parse_payload_def Let_def split: option.splits if_splits)
  then obtain v p where v: "json_parse X bs = Some v"
    and p: "parse_text v = Some p \<or> parse_ack v = Some p \<or> parse_profile X v = Some p" "pp_payload q = p"
    by blast
  have sc: "json_scalar v" using assms(1) v by (simp add: protocol_ext_ok_def)
  from p(1) have "payload_wf p"
  proof (elim disjE)
    assume "parse_text v = Some p"
    then show ?thesis
      using get_str_scalar [OF sc] sanitize_scalar
      by (auto simp: parse_text_def Let_def payload_wf_def split: option.splits if_splits)
  next
    assume "parse_ack v = Some p"
    then show ?thesis using parse_ack_scalar [OF sc] by simp
  next
    assume "parse_profile X v = Some p"
    then show ?thesis
      using get_str_scalar [OF sc] sanitize_scalar
      by (auto simp: parse_profile_def Let_def payload_wf_def map_filter_simps split: option.splits if_splits)
  qed
  with p(2) show ?thesis by simp
qed

section \<open>An instance of the JSON functions\<close>

definition ref_json_value :: json where
  "ref_json_value = payload_value (Text (lit ''u'') (lit ''hi'')) 1000"

definition ref_json_ack :: json where
  "ref_json_ack = payload_value (DeliveryAck [lit ''u'']) 1000"

definition ref_json_print :: "json \<Rightarrow> ustr" where
  "ref_json_print v = (if v = ref_json_value then [66] else if v = ref_json_ack then [67] else replicate (to_nat v) 65)"

definition ref_json_parse :: "bytes \<Rightarrow> json option" where
  "ref_json_parse b =
     (if b = [66] then Some ref_json_value else if b = [67] then Some ref_json_ack
      else let v = from_nat (length b) in if json_scalar v then Some v else None)"

lemma utf8_encode_As: "utf8_encode (replicate n 65) = replicate n 65"
  by (induction n) (simp_all add: utf8_char_def)

lemma ref_json_value_scalar: "json_scalar ref_json_value" "json_scalar ref_json_ack"
  by (rule json_wf_scalar,
    simp add: ref_json_value_def ref_json_ack_def payload_value_wf payload_wf_def lit_def is_scalar_def in_i64_def
      i64_min_def i64_max_def del: payload_value.simps)+

lemma ref_json_ack_other: "ref_json_ack \<noteq> ref_json_value"
proof
  assume "ref_json_ack = ref_json_value"
  then have "get_str ref_json_ack ''type'' = get_str ref_json_value ''type''" by simp
  then show False by (simp add: ref_json_ack_def ref_json_value_def payload_fields del: payload_value.simps)
qed

lemma ref_json_roundtrip:
  assumes "json_wf v"
  shows "ref_json_parse (utf8_encode (ref_json_print v)) = Some v"
proof -
  have "replicate n (65 :: byte) \<noteq> [66]" "replicate n (65 :: byte) \<noteq> [67]" for n
    by (cases n; simp)+
  then show ?thesis
    using json_wf_scalar [OF assms]
    by (simp add: ref_json_parse_def ref_json_print_def utf8_encode_As utf8_char_def)
qed

lemma ref_json_parse_scalar: "ref_json_parse b = Some v \<Longrightarrow> json_scalar v"
  using ref_json_value_scalar by (auto simp: ref_json_parse_def Let_def split: if_splits)

definition ref_protocol_ext :: protocol_ext where
  "ref_protocol_ext = crypto_ext.extend ref_crypto_ext
     (protocol_ext.fields ref_json_print ref_json_parse (\<lambda>_. True))"

lemma ref_protocol_ext_simps [simp]:
  "json_print ref_protocol_ext = ref_json_print"
  "json_parse ref_protocol_ext = ref_json_parse"
  "base64_ok ref_protocol_ext = (\<lambda>_. True)"
  by (simp_all add: ref_protocol_ext_def crypto_ext.defs protocol_ext.defs)

lemma crypto_ext_ok_extend: "crypto_ext_ok (crypto_ext.extend X m) \<longleftrightarrow> crypto_ext_ok X"
  by (simp add: crypto_ext_ok_def phonemic_ext_ok_def crypto_ext.defs ed25519_sk_to_x25519_def)

lemma ref_protocol_ext_ok: "protocol_ext_ok ref_protocol_ext"
  by (simp add: protocol_ext_ok_def ref_json_roundtrip ref_json_parse_scalar)
    (simp add: ref_protocol_ext_def crypto_ext_ok_extend ref_crypto_ext_ok)

theorem parse_serialize_witness:
  "parse_payload ref_protocol_ext
     (utf8_encode (serialize_payload ref_protocol_ext (Text (lit ''id'') (lit ''hi'' @ [0x200B])) 7)) =
   Some \<lparr>pp_ts = 7, pp_payload = Text (lit ''id'') (lit ''hi'')\<rparr>"
  by (subst parse_serialize [OF ref_protocol_ext_ok])
    (simp_all add: payload_wf_def lit_def is_scalar_def in_i64_def i64_min_def i64_max_def
      sanitize_text_def keeps_char_def size_caps utf8_char_def)

theorem parse_payload_bounded_witness:
  "within_caps ref_protocol_ext (Text (lit ''id'') (lit ''hi''))"
proof -
  have "parse_payload ref_protocol_ext
      (utf8_encode (serialize_payload ref_protocol_ext (Text (lit ''id'') (lit ''hi'')) 7)) =
    Some \<lparr>pp_ts = 7, pp_payload = Text (lit ''id'') (lit ''hi'')\<rparr>"
    by (subst parse_serialized [OF ref_protocol_ext_ok])
      (simp_all add: payload_wf_def lit_def is_scalar_def in_i64_def i64_min_def i64_max_def
        sanitize_text_def keeps_char_def size_caps utf8_char_def)
  from parse_payload_bounded [OF this] show ?thesis by simp
qed

end
