(* ===== verification/Domain.thy ===== *)
theory Domain
  imports Protocol
begin

text \<open>
  The persisted domain types (\<open>core/src/model.rs\<close>): settings, profile, contacts, stored messages,
  outbox items with their retry budget, and the display names derived from a key.
\<close>

definition DEFAULT_SERVER_URL :: ustr where "DEFAULT_SERVER_URL = lit ''http://localhost:8080''"
definition MAX_MESSAGES_PER_PEER :: nat where [size_caps]: "MAX_MESSAGES_PER_PEER = 1000"
definition MAX_OUTBOX_RETRIES :: nat where [size_caps]: "MAX_OUTBOX_RETRIES = 10"
definition OUTBOX_TTL_MS :: int where [size_caps]: "OUTBOX_TTL_MS = 86400000"

record settings =
  server_url :: ustr

definition settings_default :: settings where
  "settings_default = \<lparr>server_url = DEFAULT_SERVER_URL\<rparr>"

record own_profile =
  op_display_name :: ustr
  op_bio :: ustr
  op_photo :: "ustr option"

definition own_profile_default :: own_profile where
  "own_profile_default = \<lparr>op_display_name = [], op_bio = [], op_photo = None\<rparr>"

record contact =
  c_pubkey :: ustr
  c_nickname :: ustr
  c_display_name :: ustr
  c_bio :: ustr
  c_photo :: "ustr option"
  c_blocked :: bool
  c_last_profile_ts :: int
  c_last_ack_ts :: int
  c_added_at :: int

definition contact_new :: "ustr \<Rightarrow> ustr \<Rightarrow> int \<Rightarrow> contact" where
  "contact_new pubkey nickname added_at =
     \<lparr>c_pubkey = pubkey, c_nickname = nickname, c_display_name = [], c_bio = [], c_photo = None,
      c_blocked = False, c_last_profile_ts = 0, c_last_ack_ts = 0, c_added_at = added_at\<rparr>"

record stored_message =
  m_id :: ustr
  m_body :: ustr
  m_ts :: int
  m_outgoing :: bool
  m_delivered :: bool

record outbox_item =
  o_recipient :: ustr
  o_envelope_json :: ustr
  o_kind :: "ustr option"
  o_retries :: nat
  o_first_attempt :: int

definition outbox_item_new :: "ustr \<Rightarrow> ustr \<Rightarrow> outbox_item" where
  "outbox_item_new recipient envelope_json =
     \<lparr>o_recipient = recipient, o_envelope_json = envelope_json, o_kind = None,
      o_retries = 0, o_first_attempt = 0\<rparr>"

definition outbox_item_profile :: "ustr \<Rightarrow> ustr \<Rightarrow> outbox_item" where
  "outbox_item_profile recipient envelope_json =
     (outbox_item_new recipient envelope_json)\<lparr>o_kind := Some (lit ''profile'')\<rparr>"

definition is_profile :: "outbox_item \<Rightarrow> bool" where
  "is_profile i \<longleftrightarrow> o_kind i = Some (lit ''profile'')"

definition is_expired :: "outbox_item \<Rightarrow> int \<Rightarrow> bool" where
  "is_expired i now \<longleftrightarrow>
     o_retries i \<ge> MAX_OUTBOX_RETRIES \<or>
     (o_first_attempt i > 0 \<and> sat_sub now (o_first_attempt i) > OUTBOX_TTL_MS)"

definition hex_to_ob :: "'z phonemic_ext_scheme \<Rightarrow> ustr \<Rightarrow> ustr" where
  "hex_to_ob X hex_key =
     (case Option.bind (hex_decode X hex_key) to_ob of Some ob \<Rightarrow> ob | None \<Rightarrow> hex_key)"

definition trunc_ob :: "'z phonemic_ext_scheme \<Rightarrow> ustr \<Rightarrow> ustr" where
  "trunc_ob X hex_key =
     (let ob = hex_to_ob X hex_key; parts = split_on hyphen ob
      in if length parts > 4
         then parts ! 0 @ [hyphen] @ parts ! 1 @ [hyphen, 0x2026, hyphen] @
              parts ! (length parts - 2) @ [hyphen] @ parts ! (length parts - 1)
         else ob)"

definition label :: "'z phonemic_ext_scheme \<Rightarrow> contact \<Rightarrow> ustr" where
  "label X c =
     (if c_nickname c \<noteq> [] then c_nickname c
      else if c_display_name c \<noteq> [] then c_display_name c
      else trunc_ob X (c_pubkey c))"

lemma item_new_simps [simp]:
  "o_recipient (outbox_item_new r e) = r" "o_recipient (outbox_item_profile r e) = r"
  "o_envelope_json (outbox_item_new r e) = e" "o_envelope_json (outbox_item_profile r e) = e"
  "is_profile (outbox_item_profile r e)" "\<not> is_profile (outbox_item_new r e)"
  by (simp_all add: outbox_item_new_def outbox_item_profile_def is_profile_def)

lemma contact_new_simps [simp]:
  "c_pubkey (contact_new k n t) = k" "\<not> c_blocked (contact_new k n t)"
  "c_nickname (contact_new k n t) = n"
  by (simp_all add: contact_new_def)

end
