(* ===== verification/Conversation.thy ===== *)
theory Conversation
  imports Domain
begin

text \<open>
  A conversation: messages in ascending \<open>ts\<close> order, at most \<open>MAX_MESSAGES_PER_PEER\<close> of them
  (\<open>insert_sorted\<close> and \<open>trim_history\<close> of \<open>core/src/app.rs\<close>).

  \<open>partition_point\<close> is the standard library's binary search; on an ordered conversation it is
  shown to find the first later message. The contract of a bounded ordered log is the locale
  \<open>bounded_log\<close>, interpreted on the two operations; the handlers that store messages rely on it.
\<close>

section \<open>The binary search\<close>

function search_base :: "('a \<Rightarrow> bool) \<Rightarrow> 'a list \<Rightarrow> nat \<Rightarrow> nat \<Rightarrow> nat" where
  "search_base P xs sz base =
     (if sz \<le> 1 then base
      else let half = sz div 2; mid = base + half
           in search_base P xs (sz - half) (if P (xs ! mid) then mid else base))"
  by pat_completeness auto
termination by (relation "measure (\<lambda>(P, xs, sz, base). sz)") auto

declare search_base.simps [simp del]

definition partition_point :: "('a \<Rightarrow> bool) \<Rightarrow> 'a list \<Rightarrow> nat" where
  "partition_point P xs =
     (if xs = [] then 0
      else let base = search_base P xs (length xs) 0
           in if P (xs ! base) then base + 1 else base)"

definition insert_sorted :: "stored_message list \<Rightarrow> stored_message \<Rightarrow> stored_message list" where
  "insert_sorted convo msg =
     (let pos = partition_point (\<lambda>m. m_ts m \<le> m_ts msg) convo
      in take pos convo @ msg # drop pos convo)"

definition trim_history :: "stored_message list \<Rightarrow> stored_message list" where
  "trim_history convo =
     (if MAX_MESSAGES_PER_PEER \<le> length convo then drop (length convo - MAX_MESSAGES_PER_PEER) convo
      else convo)"

definition by_ts :: "stored_message list \<Rightarrow> bool" where
  "by_ts convo \<longleftrightarrow> sorted (map m_ts convo)"

definition convo_ok :: "stored_message list \<Rightarrow> bool" where
  "convo_ok convo \<longleftrightarrow> by_ts convo \<and> length convo \<le> MAX_MESSAGES_PER_PEER"

lemma search_base_spec:
  assumes "\<And>i. i < length xs \<Longrightarrow> P (xs ! i) \<longleftrightarrow> i < n"
    and "0 < sz" and "base + sz \<le> length xs" and "base = 0 \<or> base < n" and "n \<le> base + sz"
  shows "search_base P xs sz base < length xs \<and>
    (if P (xs ! search_base P xs sz base) then search_base P xs sz base + 1
     else search_base P xs sz base) = n"
  using assms
proof (induction P xs sz base rule: search_base.induct)
  case (1 P xs sz base)
  show ?case
  proof (cases "sz \<le> 1")
    case True
    then have "sz = 1" using "1.prems"(2) by simp
    moreover have "P (xs ! base) \<longleftrightarrow> base < n" using "1.prems"(1) [of base] "1.prems"(2,3) by simp
    moreover have "search_base P xs sz base = base"
      using True by (simp add: search_base.simps [of P xs sz base])
    ultimately show ?thesis using "1.prems"(3-5) by auto
  next
    case False
    let ?half = "sz div 2" and ?mid = "base + sz div 2"
    have "?mid < length xs" using False "1.prems"(3) by linarith
    then have "P (xs ! ?mid) \<longleftrightarrow> ?mid < n" by (rule "1.prems"(1))
    then show ?thesis
      using False "1.prems"(2-5) "1.IH" [OF False refl refl "1.prems"(1)]
      by (auto simp: search_base.simps [of P xs sz base] Let_def)
  qed
qed

lemma partition_point_ordered:
  assumes "\<And>i. i < length xs \<Longrightarrow> P (xs ! i) \<longleftrightarrow> i < n" and "n \<le> length xs"
  shows "partition_point P xs = n"
proof (cases "xs = []")
  case False
  then have "(if P (xs ! search_base P xs (length xs) 0) then search_base P xs (length xs) 0 + 1
      else search_base P xs (length xs) 0) = n"
    using search_base_spec [of xs P n "length xs" 0, OF assms(1)] assms(2) by simp
  then show ?thesis using False by (simp only: partition_point_def Let_def if_False)
qed (use assms(2) in \<open>simp add: partition_point_def\<close>)

lemma sorted_prefix:
  assumes "by_ts convo" and "i < length convo"
  shows "m_ts (convo ! i) \<le> t \<longleftrightarrow> i < length (takeWhile (\<lambda>m. m_ts m \<le> t) convo)"
proof
  let ?n = "length (takeWhile (\<lambda>m. m_ts m \<le> t) convo)"
  assume le: "m_ts (convo ! i) \<le> t"
  show "i < ?n"
  proof (rule ccontr)
    assume "\<not> i < ?n"
    then have n: "?n \<le> i" "?n < length convo" using assms(2) by auto
    then have "\<not> m_ts (convo ! ?n) \<le> t"
      using nth_length_takeWhile [of "\<lambda>m. m_ts m \<le> t" convo] by blast
    moreover have "m_ts (convo ! ?n) \<le> m_ts (convo ! i)"
      using assms n by (auto simp: by_ts_def sorted_iff_nth_mono)
    ultimately show False using le by simp
  qed
next
  assume "i < length (takeWhile (\<lambda>m. m_ts m \<le> t) convo)"
  then show "m_ts (convo ! i) \<le> t"
    by (metis nth_mem set_takeWhileD takeWhile_nth)
qed

lemma ordered_split:
  "by_ts convo \<Longrightarrow> takeWhile (\<lambda>m. m_ts m \<le> t) convo = filter (\<lambda>m. m_ts m \<le> t) convo \<and>
     dropWhile (\<lambda>m. m_ts m \<le> t) convo = filter (\<lambda>m. t < m_ts m) convo"
proof (induction convo)
  case (Cons x xs)
  show ?case
  proof (cases "m_ts x \<le> t")
    case False
    then have "\<forall>y\<in>set xs. t < m_ts y" using Cons.prems by (auto simp: by_ts_def)
    then show ?thesis using False by (auto simp: not_le intro!: filter_True filter_False [symmetric])
  qed (use Cons in \<open>auto simp: by_ts_def\<close>)
qed simp

text \<open>The binary search finds the end of the messages that are not later.\<close>

lemma insert_sorted_reference:
  assumes "by_ts convo"
  shows "insert_sorted convo msg =
    takeWhile (\<lambda>m. m_ts m \<le> m_ts msg) convo @ msg # dropWhile (\<lambda>m. m_ts m \<le> m_ts msg) convo"
proof -
  let ?P = "\<lambda>m. m_ts m \<le> m_ts msg"
  have "partition_point ?P convo = length (takeWhile ?P convo)"
    by (rule partition_point_ordered) (simp_all add: sorted_prefix [OF assms] length_takeWhile_le)
  then show ?thesis
    by (simp add: insert_sorted_def Let_def takeWhile_eq_take [symmetric] dropWhile_eq_drop)
qed

section \<open>The contract of a bounded ordered log\<close>

locale bounded_log =
  fixes insert :: "'a list \<Rightarrow> 'a \<Rightarrow> 'a list" and trim :: "'a list \<Rightarrow> 'a list"
    and key :: "'a \<Rightarrow> int" and cap :: nat
  assumes ordered_insert: "sorted (map key l) \<Longrightarrow> sorted (map key (insert l x))"
    and mset_insert: "mset (insert l x) = mset l + {#x#}"
    and trim_eq: "trim l = drop (length l - cap) l"
begin

lemma length_trim: "length (trim l) \<le> cap"
  by (simp add: trim_eq)

lemma ordered_trim: "sorted (map key l) \<Longrightarrow> sorted (map key (trim l))"
  by (simp add: trim_eq drop_map [symmetric] sorted_wrt_drop)

lemma set_store: "set (trim (insert l x)) \<subseteq> Set.insert x (set l)"
  using mset_insert [of l x] set_drop_subset
  by (metis add_mset_add_single set_mset_add_mset_insert set_mset_mset trim_eq)

lemma trim_newest: "sorted (map key l) \<Longrightarrow> y \<in> set (trim l) \<Longrightarrow>
    l = take (length l - cap) l @ trim l \<and> (\<forall>z\<in>set (take (length l - cap) l). key z \<le> key y)"
  using sorted_append [of "map key (take (length l - cap) l)" "map key (trim l)"]
  by (force simp: trim_eq simp flip: map_append)

lemma store_keeps: "sorted (map key l) \<Longrightarrow> sorted (map key (trim (insert l x))) \<and> length (trim (insert l x)) \<le> cap"
  by (simp add: ordered_insert ordered_trim length_trim)

lemma small_untouched: "length l \<le> cap \<Longrightarrow> trim l = l"
  by (simp add: trim_eq)

end

lemma insert_sorted_filter:
  "by_ts convo \<Longrightarrow> insert_sorted convo msg =
     filter (\<lambda>m. m_ts m \<le> m_ts msg) convo @ msg # filter (\<lambda>m. m_ts msg < m_ts m) convo"
  using ordered_split [of convo "m_ts msg"] by (simp add: insert_sorted_reference)

lemma insert_sorted_ordered: "by_ts convo \<Longrightarrow> by_ts (insert_sorted convo msg)"
  using insert_sorted_filter [of convo msg]
  by (auto simp: by_ts_def sorted_append sorted_filter)

lemma mset_insert_sorted: "mset (insert_sorted convo msg) = mset convo + {#msg#}"
  by (simp add: insert_sorted_def Let_def union_code [symmetric] del: union_code)
    (metis append_take_drop_id mset_append)

interpretation convo: bounded_log insert_sorted trim_history m_ts MAX_MESSAGES_PER_PEER
  using insert_sorted_ordered
  by unfold_locales (auto simp: by_ts_def mset_insert_sorted trim_history_def)

lemma convo_ok_store: "convo_ok l \<Longrightarrow> convo_ok (trim_history (insert_sorted l x))"
  using convo.store_keeps by (simp add: convo_ok_def by_ts_def)

lemma convo_ok_Nil [simp]: "convo_ok []"
  by (simp add: convo_ok_def by_ts_def)

text \<open>C33. Storing a message puts it after every message that is not later (ties keep arrival order)
  and before every later one, then drops the oldest beyond the cap: the binary search insertion
  equals the reference insertion, and the result is ordered and bounded.\<close>

theorem store_message_spec:
  assumes "by_ts convo"
  shows "trim_history (insert_sorted convo msg) =
      (let l = filter (\<lambda>m. m_ts m \<le> m_ts msg) convo @ msg # filter (\<lambda>m. m_ts msg < m_ts m) convo
       in drop (length l - MAX_MESSAGES_PER_PEER) l) \<and>
    convo_ok (trim_history (insert_sorted convo msg))"
  using convo.store_keeps assms
  by (auto simp: convo_ok_def by_ts_def insert_sorted_filter convo.trim_eq Let_def)

definition ref_msg :: "string \<Rightarrow> int \<Rightarrow> stored_message" where
  "ref_msg i t = \<lparr>m_id = lit i, m_body = [], m_ts = t, m_outgoing = False, m_delivered = False\<rparr>"

theorem store_message_spec_witness:
  "trim_history (insert_sorted [ref_msg ''a'' 1, ref_msg ''b'' 3] (ref_msg ''c'' 2)) =
     [ref_msg ''a'' 1, ref_msg ''c'' 2, ref_msg ''b'' 3]"
  using store_message_spec [of "[ref_msg ''a'' 1, ref_msg ''b'' 3]" "ref_msg ''c'' 2"]
  by (simp add: by_ts_def ref_msg_def size_caps)

end
