(* ===== verification/App_State.thy ===== *)
theory App_State
  imports Conversation
begin

text \<open>
  The state of the client (\<open>core/src/app.rs\<close>, the part before \<open>impl App\<close>): constants, effects,
  events, the \<open>Model\<close> with its generation counters, the pure helpers, the wire shapes, and the
  guarded writes of \<open>impl Skrepka\<close>.

  \<^item> \<open>Command<Effect, Event>\<close> is the list of what it requests: a render, an event fed back to
    \<open>update\<close>, an HTTP request, a key-value operation or a timer. The closure given to
    \<open>then_send\<close> is the tag in the request; \<open>kv_event\<close> and \<open>http_event\<close> apply it.
  \<^item> What a run reads from the outside is \<open>env\<close>: the clock readings in the order of the calls to
    \<open>now_ms\<close>, the random streams, a fresh UUID, and the iteration order of a hash set.
  \<^item> Serde's derived codecs, the \<open>url\<close> parser and the request builder are fields of \<open>app_ext\<close>.
\<close>

section \<open>Constants\<close>

definition MAX_FUTURE_SKEW_MS :: int where [size_caps]: "MAX_FUTURE_SKEW_MS = 60000"
definition MAX_CONTACTS :: nat where [size_caps]: "MAX_CONTACTS = 500"
definition MAX_POLL_TOTAL_BYTES :: nat where [size_caps]: "MAX_POLL_TOTAL_BYTES = 64 * 1024 * 1024"
definition MAX_POLL_EVENTS :: nat where [size_caps]: "MAX_POLL_EVENTS = 2000"
definition MAX_POLL_RESPONSE_BYTES :: nat where [size_caps]: "MAX_POLL_RESPONSE_BYTES = 64 * 1024 * 1024"
definition POLL_WATCHDOG_MS :: nat where [size_caps]: "POLL_WATCHDOG_MS = 90000"
definition FLUSH_WATCHDOG_MS :: nat where [size_caps]: "FLUSH_WATCHDOG_MS = 90000"
definition AUTH_WATCHDOG_MS :: nat where [size_caps]: "AUTH_WATCHDOG_MS = 90000"
definition MAX_SEND_BATCH :: nat where [size_caps]: "MAX_SEND_BATCH = 100"
definition MAX_SEND_BATCH_BYTES :: nat where [size_caps]: "MAX_SEND_BATCH_BYTES = 4 * 1024 * 1024"
definition MAX_RETRY_AFTER_MS :: nat where [size_caps]: "MAX_RETRY_AFTER_MS = 5 * 60 * 1000"
definition MAX_SEEN_IDS_PER_PEER :: nat where [size_caps]: "MAX_SEEN_IDS_PER_PEER = 2000"
definition STARTUP_LOADS :: nat where [size_caps]: "STARTUP_LOADS = 6"

definition K_SETTINGS :: ustr where "K_SETTINGS = lit ''settings''"
definition K_PROFILE :: ustr where "K_PROFILE = lit ''profile''"
definition K_CONTACTS :: ustr where "K_CONTACTS = lit ''contacts''"
definition K_CURSOR :: ustr where "K_CURSOR = lit ''cursor''"
definition K_OUTBOX :: ustr where "K_OUTBOX = lit ''outbox''"
definition K_SEEN_IDS :: ustr where "K_SEEN_IDS = lit ''seen_ids''"

definition k_messages :: "ustr \<Rightarrow> ustr" where
  "k_messages peer = lit ''messages:'' @ peer"

section \<open>Events, effects, commands\<close>

type_synonym gen = "64 word"
type_synonym kv_data = "ustr + bytes option"

record response =
  r_status :: nat
  r_retry_after :: "ustr option"
  r_body :: "bytes option"

type_synonym http_result = "unit + response"

datatype event =
    IdentityLoaded bytes
  | ShowConversations
  | ShowSettings
  | ShowAddContact
  | ShowEditProfile
  | OpenChat ustr
  | Back
  | ComposeChanged ustr
  | SendText
  | AddContact ustr ustr
  | SetBlocked ustr bool
  | DeleteContact ustr
  | SaveProfile ustr ustr "ustr option"
  | SetServerUrl ustr
  | Connect
  | LoadedSettings kv_data
  | LoadedProfile kv_data
  | LoadedContacts kv_data
  | LoadedCursor kv_data
  | LoadedOutbox kv_data
  | LoadedSeenIds kv_data
  | LoadedMessages ustr kv_data
  | Saved kv_data
  | SavedCursor kv_data
  | Authenticate
  | Poll
  | PollWatchdog gen
  | StartFlush
  | FlushWatchdog gen
  | AuthWatchdog gen
  | ChallengeResult gen http_result
  | VerifyResult gen http_result
  | PollResult gen http_result
  | SendResult gen http_result

record poll_event =
  pe_encrypted_blob :: ustr

record poll_resp =
  pr_events :: "poll_event list"
  pr_cursor :: int

datatype wire_body =
    ChallengeReq ustr
  | VerifyReq ustr ustr ustr bool
  | PollReq int
  | SendBatch "envelope list"

datatype kv_then =
    ThenLoadedSettings
  | ThenLoadedProfile
  | ThenLoadedContacts
  | ThenLoadedCursor
  | ThenLoadedOutbox
  | ThenLoadedSeenIds
  | ThenLoadedMessages ustr
  | ThenSaved
  | ThenSavedCursor

fun kv_event :: "kv_then \<Rightarrow> kv_data \<Rightarrow> event" where
  "kv_event ThenLoadedSettings r = LoadedSettings r"
| "kv_event ThenLoadedProfile r = LoadedProfile r"
| "kv_event ThenLoadedContacts r = LoadedContacts r"
| "kv_event ThenLoadedCursor r = LoadedCursor r"
| "kv_event ThenLoadedOutbox r = LoadedOutbox r"
| "kv_event ThenLoadedSeenIds r = LoadedSeenIds r"
| "kv_event (ThenLoadedMessages peer) r = LoadedMessages peer r"
| "kv_event ThenSaved r = Saved r"
| "kv_event ThenSavedCursor r = SavedCursor r"

datatype http_then =
    ThenChallengeResult gen
  | ThenVerifyResult gen
  | ThenPollResult gen
  | ThenSendResult gen

fun http_event :: "http_then \<Rightarrow> http_result \<Rightarrow> event" where
  "http_event (ThenChallengeResult g) r = ChallengeResult g r"
| "http_event (ThenVerifyResult g) r = VerifyResult g r"
| "http_event (ThenPollResult g) r = PollResult g r"
| "http_event (ThenSendResult g) r = SendResult g r"

datatype cmd =
    Render
  | Emit event
  | HttpPost ustr "ustr option" wire_body http_then
  | KvGet ustr kv_then
  | KvSet ustr bytes kv_then
  | KvDelete ustr kv_then
  | NotifyAfter nat event

section \<open>The model\<close>

datatype conn_status = Offline | Connecting | Online

datatype page = Conversations | Chat | AddContactPage | SettingsPage | EditProfilePage

record in_flight =
  f_recipient :: ustr
  f_count :: nat
  f_bytes :: nat

record model =
  secret_key :: "bytes option"
  my_pubkey :: ustr
  settings :: settings
  profile :: own_profile
  contacts :: "contact btree"
  messages :: "stored_message list btree"
  seen_ids :: "ustr set btree"
  outbox :: "outbox_item list"
  cursor :: int
  token :: "ustr option"
  conn :: conn_status
  poll_retries :: nat
  send_retries :: nat
  polling :: bool
  poll_gen :: gen
  authenticating :: bool
  auth_gen :: gen
  flushing :: bool
  flush_gen :: gen
  in_flight :: "in_flight option"
  send_batch_budget :: "nat option"
  loads_pending :: nat
  kv_load_failed :: bool
  flush_paused_until :: int
  page :: page
  active_peer :: "ustr option"
  compose :: ustr
  error :: "ustr option"

definition model_default :: model where
  "model_default =
     \<lparr>secret_key = None, my_pubkey = [], settings = settings_default, profile = own_profile_default,
      contacts = [], messages = [], seen_ids = [], outbox = [], cursor = 0, token = None,
      conn = Offline, poll_retries = 0, send_retries = 0, polling = False, poll_gen = 0,
      authenticating = False, auth_gen = 0, flushing = False, flush_gen = 0, in_flight = None,
      send_batch_budget = None, loads_pending = 0, kv_load_failed = False, flush_paused_until = 0,
      page = Conversations, active_peer = None, compose = [], error = None\<rparr>"

section \<open>External functions of the application\<close>

record url =
  u_scheme :: ustr
  u_host :: "ustr option"
  u_query :: "ustr option"
  u_fragment :: "ustr option"
  u_as_str :: ustr

datatype kv_value =
    VSettings settings
  | VProfile own_profile
  | VContacts "contact list"
  | VCursor int
  | VOutbox "outbox_item list"
  | VSeenIds "ustr set btree"
  | VMessages "stored_message list"

record app_ext = protocol_ext +
  url_parse :: "ustr \<Rightarrow> url option"
  body_json_ok :: "wire_body \<Rightarrow> bool"
  to_vec :: "kv_value \<Rightarrow> bytes option"
  de_settings :: "bytes \<Rightarrow> settings option"
  de_profile :: "bytes \<Rightarrow> own_profile option"
  de_contacts :: "bytes \<Rightarrow> contact list option"
  de_cursor :: "bytes \<Rightarrow> int option"
  de_outbox :: "bytes \<Rightarrow> outbox_item list option"
  de_seen_ids :: "bytes \<Rightarrow> ustr set btree option"
  de_messages :: "bytes \<Rightarrow> stored_message list option"
  de_challenge :: "bytes \<Rightarrow> ustr option"
  de_verify :: "bytes \<Rightarrow> ustr option"
  de_poll :: "bytes \<Rightarrow> poll_resp option"

record env =
  clock :: "nat \<Rightarrow> nat option"
  rngs :: "nat \<Rightarrow> rng"
  uuid :: ustr
  hash_order :: "ustr set \<Rightarrow> ustr list"

text \<open>The \<open>i\<close>-th reading of the clock; \<open>after_reads n\<close> is what a callee sees after \<open>n\<close> readings.
  A time before the epoch reads as 1.\<close>

definition now_ms :: "env \<Rightarrow> nat \<Rightarrow> int" where
  "now_ms E i = (case clock E i of Some d \<Rightarrow> as_i64 d | None \<Rightarrow> 1)"

definition after_reads :: "nat \<Rightarrow> env \<Rightarrow> env" where
  "after_reads n E = E\<lparr>clock := \<lambda>i. clock E (n + i)\<rparr>"

section \<open>Methods of the model\<close>

definition identity_of :: "'z crypto_ext_scheme \<Rightarrow> model \<Rightarrow> identity option" where
  "identity_of X m =
     (case secret_key m of
        None \<Rightarrow> None
      | Some sk \<Rightarrow> (case from_secret_bytes X sk of Ok i \<Rightarrow> Some i | _ \<Rightarrow> None))"

definition startup_load_done :: "model \<Rightarrow> bool \<times> model" where
  "startup_load_done m =
     (if loads_pending m = 0 then (False, m)
      else let n = loads_pending m - 1 in (n = 0, m\<lparr>loads_pending := n\<rparr>))"

definition next_poll_gen :: "model \<Rightarrow> gen \<times> model" where
  "next_poll_gen m = (poll_gen m + 1, m\<lparr>poll_gen := poll_gen m + 1\<rparr>)"

definition abandon_poll :: "model \<Rightarrow> model" where
  "abandon_poll m = m\<lparr>polling := False, poll_gen := poll_gen m + 1\<rparr>"

definition next_auth_gen :: "model \<Rightarrow> gen \<times> model" where
  "next_auth_gen m = (auth_gen m + 1, m\<lparr>auth_gen := auth_gen m + 1\<rparr>)"

definition next_flush_gen :: "model \<Rightarrow> gen \<times> model" where
  "next_flush_gen m = (flush_gen m + 1, m\<lparr>flush_gen := flush_gen m + 1\<rparr>)"

definition abandon_flush :: "model \<Rightarrow> model" where
  "abandon_flush m = m\<lparr>flushing := False, in_flight := None, flush_gen := flush_gen m + 1\<rparr>"

definition abandon_auth :: "model \<Rightarrow> model" where
  "abandon_auth m = m\<lparr>authenticating := False, auth_gen := auth_gen m + 1\<rparr>"

definition detach_in_flight :: "ustr \<Rightarrow> model \<Rightarrow> model" where
  "detach_in_flight peer m =
     (if is_some_and (in_flight m) (\<lambda>f. f_recipient f = peer) then m\<lparr>in_flight := None\<rparr> else m)"

definition in_flight_count :: "model \<Rightarrow> nat" where
  "in_flight_count m = (case in_flight m of None \<Rightarrow> 0 | Some f \<Rightarrow> f_count f)"

section \<open>Pure helpers\<close>

definition server_host :: "'z app_ext_scheme \<Rightarrow> ustr \<Rightarrow> ustr" where
  "server_host X u =
     (case Option.bind (url_parse X u) u_host of
        Some h \<Rightarrow> to_lowercase X (trim_end_matches 46 h)
      | None \<Rightarrow> [])"

definition normalize_server_url :: "'z app_ext_scheme \<Rightarrow> ustr \<Rightarrow> ustr option" where
  "normalize_server_url X input =
     (case url_parse X (trim input) of
        None \<Rightarrow> None
      | Some u \<Rightarrow>
          if \<not> (u_scheme u = lit ''http'' \<or> u_scheme u = lit ''https'') then None
          else if (case u_host u of None \<Rightarrow> True | Some h \<Rightarrow> h = []) then None
          else if u_query u \<noteq> None \<or> u_fragment u \<noteq> None then None
          else Some (trim_end_matches 47 (u_as_str u)))"

definition json_bytes :: "'z app_ext_scheme \<Rightarrow> kv_value \<Rightarrow> bytes" where
  "json_bytes X v = (case to_vec X v of Some b \<Rightarrow> b | None \<Rightarrow> [])"

definition backoff_ms :: "nat \<Rightarrow> nat" where
  "backoff_ms retries = min (min (3000 * 2 ^ min retries 4) (2 ^ 64 - 1)) 30000"

text \<open>\<open>parse_kv\<close> distinguishes a value, an absent key and a failed read (or an unreadable blob).\<close>

definition parse_kv :: "(bytes \<Rightarrow> 'a option) \<Rightarrow> kv_data \<Rightarrow> unit + 'a option" where
  "parse_kv de res =
     (case res of
        Inr (Some b) \<Rightarrow> (case de b of Some v \<Rightarrow> Inr (Some v) | None \<Rightarrow> Inl ())
      | Inr None \<Rightarrow> Inr None
      | Inl e \<Rightarrow> Inl ())"

section \<open>Guarded writes\<close>

definition STORAGE_FAILED :: ustr where
  "STORAGE_FAILED = lit ''storage read failed '' @ [0x2014] @ lit '' changes will not be saved''"

definition refuse_write :: "model \<Rightarrow> bool \<times> model" where
  "refuse_write m = (if kv_load_failed m then (True, m\<lparr>error := Some STORAGE_FAILED\<rparr>) else (False, m))"

definition persist_contacts :: "'z app_ext_scheme \<Rightarrow> model \<Rightarrow> model \<times> cmd list" where
  "persist_contacts X m =
     (let (refused, m1) = refuse_write m
      in if refused then (m1, [])
         else (m1, [KvSet K_CONTACTS (json_bytes X (VContacts (bt_values (contacts m1)))) ThenSaved]))"

definition persist_profile :: "'z app_ext_scheme \<Rightarrow> model \<Rightarrow> model \<times> cmd list" where
  "persist_profile X m =
     (let (refused, m1) = refuse_write m
      in if refused then (m1, [])
         else (m1, [KvSet K_PROFILE (json_bytes X (VProfile (profile m1))) ThenSaved]))"

definition persist_outbox :: "'z app_ext_scheme \<Rightarrow> model \<Rightarrow> model \<times> cmd list" where
  "persist_outbox X m =
     (let (refused, m1) = refuse_write m
      in if refused then (m1, [])
         else (m1, [KvSet K_OUTBOX (json_bytes X (VOutbox (outbox m1))) ThenSaved]))"

definition persist_messages :: "'z app_ext_scheme \<Rightarrow> ustr \<Rightarrow> model \<Rightarrow> model \<times> cmd list" where
  "persist_messages X peer m =
     (let (refused, m1) = refuse_write m
      in if refused then (m1, [])
         else (m1, [KvSet (k_messages peer)
                     (json_bytes X (VMessages (case bt_get (messages m1) peer of None \<Rightarrow> [] | Some l \<Rightarrow> l)))
                     ThenSaved]))"

definition persist_seen_ids :: "'z app_ext_scheme \<Rightarrow> model \<Rightarrow> model \<times> cmd list" where
  "persist_seen_ids X m =
     (let (refused, m1) = refuse_write m
      in if refused then (m1, [])
         else (m1, [KvSet K_SEEN_IDS (json_bytes X (VSeenIds (seen_ids m1))) ThenSaved]))"

definition schedule_reconnect :: "model \<Rightarrow> model \<times> cmd list" where
  "schedule_reconnect m =
     (m\<lparr>poll_retries := sat_inc_u32 (poll_retries m)\<rparr>,
      [NotifyAfter (backoff_ms (poll_retries m)) Authenticate, Render])"

definition backoff_poll :: "model \<Rightarrow> model \<times> cmd list" where
  "backoff_poll m =
     (m\<lparr>conn := Offline, poll_retries := sat_inc_u32 (poll_retries m)\<rparr>,
      [NotifyAfter (backoff_ms (poll_retries m)) Poll, Render])"

section \<open>Guarded writes: the contract of the five persist operations\<close>

text \<open>A model that failed to read a key writes none: the operation reports the refusal and requests
  nothing; otherwise it requests one write of what the model holds and changes nothing.\<close>

locale guarded_write =
  fixes persist :: "model \<Rightarrow> model \<times> cmd list" and key :: ustr and content :: "model \<Rightarrow> bytes"
  assumes refused: "kv_load_failed m \<Longrightarrow> persist m = (m\<lparr>error := Some STORAGE_FAILED\<rparr>, [])"
    and written: "\<not> kv_load_failed m \<Longrightarrow> persist m = (m, [KvSet key (content m) ThenSaved])"
begin

lemma model_after: "fst (persist m) = m\<lparr>error := if kv_load_failed m then Some STORAGE_FAILED else error m\<rparr>"
  by (cases "kv_load_failed m") (simp_all add: refused written)

lemma commands: "snd (persist m) = (if kv_load_failed m then [] else [KvSet key (content m) ThenSaved])"
  by (cases "kv_load_failed m") (simp_all add: refused written)

end

interpretation w_contacts: guarded_write "persist_contacts X" K_CONTACTS
    "\<lambda>m. json_bytes X (VContacts (bt_values (contacts m)))" for X
  by unfold_locales (simp_all add: persist_contacts_def refuse_write_def)

interpretation w_profile: guarded_write "persist_profile X" K_PROFILE
    "\<lambda>m. json_bytes X (VProfile (profile m))" for X
  by unfold_locales (simp_all add: persist_profile_def refuse_write_def)

interpretation w_outbox: guarded_write "persist_outbox X" K_OUTBOX
    "\<lambda>m. json_bytes X (VOutbox (outbox m))" for X
  by unfold_locales (simp_all add: persist_outbox_def refuse_write_def)

interpretation w_messages: guarded_write "persist_messages X peer" "k_messages peer"
    "\<lambda>m. json_bytes X (VMessages (case bt_get (messages m) peer of None \<Rightarrow> [] | Some l \<Rightarrow> l))" for X peer
  by unfold_locales (simp_all add: persist_messages_def refuse_write_def)

interpretation w_seen_ids: guarded_write "persist_seen_ids X" K_SEEN_IDS
    "\<lambda>m. json_bytes X (VSeenIds (seen_ids m))" for X
  by unfold_locales (simp_all add: persist_seen_ids_def refuse_write_def)

lemmas persist_model [simp] = w_contacts.model_after w_profile.model_after w_outbox.model_after
  w_messages.model_after w_seen_ids.model_after

lemmas persist_cmds [simp] = w_contacts.commands w_profile.commands w_outbox.commands
  w_messages.commands w_seen_ids.commands

section \<open>Generations: the contract of the three request guards\<close>

text \<open>A request opens a new generation; giving up on it retires the generation and lowers the guard.
  A result that carries another generation is not the current request's.\<close>

locale gen_guard =
  fixes busy :: "model \<Rightarrow> bool" and gen :: "model \<Rightarrow> gen"
    and issue :: "model \<Rightarrow> gen \<times> model" and abandon :: "model \<Rightarrow> model"
  assumes issue_gen: "fst (issue m) = gen m + 1" "gen (snd (issue m)) = gen m + 1"
    and abandon_gen: "gen (abandon m) = gen m + 1" "\<not> busy (abandon m)"
begin

lemma issued_is_current: "fst (issue m) = gen (snd (issue m))"
  by (simp add: issue_gen)

lemma abandon_retires: "gen (abandon m) \<noteq> gen m"
  by (simp add: abandon_gen)

lemma gen_after_abandons: "gen ((abandon ^^ n) m) = gen m + of_nat n"
  by (induction n) (simp_all add: abandon_gen ac_simps)

lemma stays_stale:
  assumes "0 < n" and "n < 2 ^ 64"
  shows "gen ((abandon ^^ n) m) \<noteq> gen m"
proof
  assume "gen ((abandon ^^ n) m) = gen m"
  then have "(of_nat n :: 64 word) = 0"
    by (simp add: gen_after_abandons)
  then have "unat (of_nat n :: 64 word) = 0"
    by simp
  then show False
    using assms by (simp add: unat_of_nat take_bit_nat_eq_self)
qed

end

interpretation g_poll: gen_guard polling poll_gen next_poll_gen abandon_poll
  by unfold_locales (simp_all add: next_poll_gen_def abandon_poll_def)

interpretation g_auth: gen_guard authenticating auth_gen next_auth_gen abandon_auth
  by unfold_locales (simp_all add: next_auth_gen_def abandon_auth_def)

interpretation g_flush: gen_guard flushing flush_gen next_flush_gen abandon_flush
  by unfold_locales (simp_all add: next_flush_gen_def abandon_flush_def)

section \<open>Back-off\<close>

lemma backoff_ms_cases:
  "backoff_ms r = (if r = 0 then 3000 else if r = 1 then 6000 else if r = 2 then 12000
     else if r = 3 then 24000 else 30000)"
proof -
  have "min r 4 = 0 \<or> min r 4 = 1 \<or> min r 4 = 2 \<or> min r 4 = 3 \<or> 4 \<le> r" by linarith
  then show ?thesis by (auto simp: backoff_ms_def min_def)
qed

text \<open>The back-off starts at three seconds, doubles with every failure until it is capped at
  thirty seconds, and stays in that range for every retry count, the saturated one included.\<close>

lemma backoff_ms_spec:
  "backoff_ms 0 = 3000 \<and> backoff_ms (Suc r) = min (2 * backoff_ms r) 30000 \<and>
   3000 \<le> backoff_ms r \<and> backoff_ms r \<le> 30000 \<and> backoff_ms (sat_inc_u32 u32_max) = 30000"
  by (auto simp: backoff_ms_cases sat_inc_u32_def u32_max_def)

lemma parse_kv_simps [simp]:
  "parse_kv de (Inr None) = Inr None" "parse_kv de (Inl e) = Inl ()"
  by (simp_all add: parse_kv_def)

section \<open>A reference instance of the external functions\<close>

definition ref_app_ext :: app_ext where
  "ref_app_ext = protocol_ext.extend ref_protocol_ext
     (app_ext.fields
        (\<lambda>s. if s = [] then None
             else Some \<lparr>u_scheme = lit ''http'', u_host = Some s, u_query = None, u_fragment = None, u_as_str = s\<rparr>)
        (\<lambda>_. True) (\<lambda>_. Some []) (\<lambda>_. None) (\<lambda>_. None) (\<lambda>_. None) (\<lambda>_. None) (\<lambda>_. None) (\<lambda>_. None)
        (\<lambda>_. None) (\<lambda>_. Some []) (\<lambda>_. Some (lit ''t''))
        (\<lambda>b. Some \<lparr>pr_events = [\<lparr>pe_encrypted_blob = ref_hex_encode b\<rparr>], pr_cursor = 500\<rparr>))"

definition ref_env :: env where
  "ref_env = \<lparr>clock = (\<lambda>_. Some 1000), rngs = (\<lambda>_ _. 0), uuid = lit ''u'', hash_order = sorted_list_of_set\<rparr>"

lemma ref_env_simps [simp]:
  "now_ms ref_env i = 1000" "rngs ref_env = (\<lambda>_ _. 0)" "uuid ref_env = lit ''u''"
  "hash_order ref_env = sorted_list_of_set" "after_reads n ref_env = ref_env"
  by (simp_all add: now_ms_def ref_env_def as_i64_def after_reads_def)

lemma ref_app_ext_simps [simp]:
  "hex_encode ref_app_ext = hex_encode ref_crypto_ext" "hex_decode ref_app_ext = hex_decode ref_crypto_ext"
  "body_json_ok ref_app_ext = (\<lambda>_. True)" "json_print ref_app_ext = ref_json_print"
  "json_parse ref_app_ext = ref_json_parse" "base64_ok ref_app_ext = (\<lambda>_. True)"
  by (simp_all add: ref_app_ext_def ref_protocol_ext_def crypto_ext.defs protocol_ext.defs app_ext.defs)

lemma ref_app_crypto_ok: "crypto_ext_ok ref_app_ext"
  using ref_crypto_ext_ok
  by (simp add: ref_app_ext_def ref_protocol_ext_def crypto_ext_ok_def phonemic_ext_ok_def
      crypto_ext.defs protocol_ext.defs app_ext.defs ed25519_sk_to_x25519_def)

lemma ref_app_ext_ok: "protocol_ext_ok ref_app_ext"
  using ref_app_crypto_ok by (simp add: protocol_ext_ok_def ref_json_roundtrip ref_json_parse_scalar)

lemma ref_app_identity_ok: "identity_ok ref_app_ext (ref_identity b)"
  using ref_identity_ok [of b]
  by (simp add: ref_app_ext_def ref_protocol_ext_def identity_ok_def
      crypto_ext.defs protocol_ext.defs app_ext.defs ed25519_sk_to_x25519_def)

lemma ref_app_from_secret: "from_secret_bytes ref_app_ext (replicate 64 b) = Ok (ref_identity b)"
  by (simp add: from_secret_bytes_def with_x25519_def ref_identity_def ref_app_ext_def ref_protocol_ext_def
      crypto_ext.defs protocol_ext.defs app_ext.defs ed25519_sk_to_x25519_def ref_crypto_ext_def size_caps Let_def all_zero_def list_all_iff)

lemma ref_app_encrypt:
  assumes "length pt \<le> MAX_PLAINTEXT_LEN"
  shows "\<exists>blob. encrypt ref_app_ext r (ref_identity a) (replicate 32 b) pt = Ok blob"
proof -
  have "ed25519_pk_to_x25519 ref_app_ext (replicate 32 b) = Ok (replicate 32 1)"
    "\<not> all_zero (x25519_mult ref_app_ext (fst (fill_bytes 32 r)) (replicate 32 1))"
    by (simp_all add: ed25519_pk_to_x25519_def ref_app_ext_def ref_protocol_ext_def ref_crypto_ext_def
        crypto_ext.defs protocol_ext.defs app_ext.defs all_zero_def list_all_iff)
  then show ?thesis
    by (rule encrypt_seals [OF ref_app_crypto_ok ref_app_identity_ok assms])
qed

end
