(* ===== verification/Outbox.thy ===== *)
theory Outbox
  imports App_State "HOL-Library.Sublist"
begin

text \<open>
  The outbox (\<open>flush_next\<close>, \<open>retry_batch\<close>, \<open>encrypt_for\<close> and the \<open>SendResult\<close> and
  \<open>FlushWatchdog\<close> arms of \<open>update\<close> in \<open>core/src/app.rs\<close>): a batch is built from the head of the
  queue, stamped, put on the wire under a fresh generation, and popped, kept, split or charged
  according to the relay's answer.
\<close>

section \<open>Building a batch\<close>

text \<open>Encryption never panics (the outcome theorem of \<open>Crypto\<close>), so an item either yields its
  blob or is unusable. Each attempt draws its own randomness from the operating system.\<close>

definition encrypt_for :: "'z crypto_ext_scheme \<Rightarrow> rng \<Rightarrow> identity \<Rightarrow> outbox_item \<Rightarrow> bytes option" where
  "encrypt_for X r sender item =
     (case hex_decode X (o_recipient item) of
        None \<Rightarrow> None
      | Some recipient \<Rightarrow>
          if length recipient \<noteq> 32 then None
          else (case encrypt X r sender recipient (utf8_encode (o_envelope_json item)) of
                  Ok blob \<Rightarrow> Some blob
                | Err e \<Rightarrow> None
                | Panic \<Rightarrow> None))"

record batch =
  b_outbox :: "outbox_item list"
  b_error :: "ustr option"
  b_dirty :: bool
  b_recipient :: "ustr option"
  b_messages :: "envelope list"
  b_bytes :: nat
  b_attempts :: nat

definition batch_start :: "model \<Rightarrow> batch" where
  "batch_start m =
     \<lparr>b_outbox = outbox m, b_error = error m, b_dirty = False, b_recipient = None,
      b_messages = [], b_bytes = 0, b_attempts = 0\<rparr>"

definition INVALID_KEY :: "'z phonemic_ext_scheme \<Rightarrow> ustr \<Rightarrow> ustr" where
  "INVALID_KEY X recipient = lit ''cannot send to '' @ trunc_ob X recipient @ lit '': invalid key''"

definition drop_unusable :: "'z phonemic_ext_scheme \<Rightarrow> outbox_item \<Rightarrow> batch \<Rightarrow> batch" where
  "drop_unusable X item b =
     b\<lparr>b_error := Some (INVALID_KEY X (o_recipient item)),
       b_outbox := take (length (b_messages b)) (b_outbox b) @ drop (Suc (length (b_messages b))) (b_outbox b),
       b_dirty := True, b_attempts := Suc (b_attempts b)\<rparr>"

definition take_item :: "outbox_item \<Rightarrow> ustr \<Rightarrow> batch \<Rightarrow> batch" where
  "take_item item hex_blob b =
     b\<lparr>b_bytes := b_bytes b + ulen hex_blob, b_recipient := Some (o_recipient item),
       b_messages := b_messages b @ [\<lparr>to = o_recipient item, encrypted_blob = hex_blob\<rparr>],
       b_attempts := Suc (b_attempts b)\<rparr>"

function collect_batch :: "'z app_ext_scheme \<Rightarrow> (nat \<Rightarrow> rng) \<Rightarrow> identity \<Rightarrow> nat \<Rightarrow> batch \<Rightarrow> batch" where
  "collect_batch X rs sender batch_budget b =
     (if \<not> length (b_messages b) < MAX_SEND_BATCH then b
      else if \<not> length (b_messages b) < length (b_outbox b) then b
      else let item = b_outbox b ! length (b_messages b)
           in if is_some_and (b_recipient b) (\<lambda>r. r \<noteq> o_recipient item) then b
              else (case encrypt_for X (rs (b_attempts b)) sender item of
                      None \<Rightarrow> collect_batch X rs sender batch_budget (drop_unusable X item b)
                    | Some blob \<Rightarrow>
                        let hex_blob = hex_encode X blob
                        in if b_messages b \<noteq> [] \<and> b_bytes b + ulen hex_blob > batch_budget then b
                           else collect_batch X rs sender batch_budget (take_item item hex_blob b)))"
  by pat_completeness auto
termination
  by (relation "measure (\<lambda>(X, rs, i, n, b). length (b_outbox b) - length (b_messages b))")
    (auto simp: drop_unusable_def take_item_def)

declare collect_batch.simps [simp del]

definition stamp :: "int \<Rightarrow> nat \<Rightarrow> outbox_item list \<Rightarrow> bool \<times> outbox_item list" where
  "stamp now n q =
     ((\<exists>i\<in>set (take n q). o_first_attempt i = 0),
      map (\<lambda>i. if o_first_attempt i = 0 then i\<lparr>o_first_attempt := now\<rparr> else i) (take n q) @ drop n q)"

section \<open>Sending\<close>

definition NO_SEND_REQUEST :: ustr where "NO_SEND_REQUEST = lit ''could not build send request''"

definition bearer :: "ustr \<Rightarrow> ustr" where
  "bearer t = lit ''Bearer '' @ t"

definition flush_next :: "'z app_ext_scheme \<Rightarrow> env \<Rightarrow> model \<Rightarrow> model \<times> cmd list" where
  "flush_next X E m =
     (if flushing m then (m, [])
      else if kv_load_failed m then (m, [])
      else if now_ms E 0 < flush_paused_until m then (m, [])
      else case (identity_of X m, token m) of
        (Some sender, Some tok) \<Rightarrow>
          let now = now_ms E 1;
              batch_budget = (case send_batch_budget m of Some n \<Rightarrow> n | None \<Rightarrow> MAX_SEND_BATCH_BYTES);
              b = collect_batch X (rngs E) sender batch_budget (batch_start m);
              m1 = m\<lparr>outbox := b_outbox b, error := b_error b\<rparr>
          in (case b_recipient b of
                None \<Rightarrow>
                  if b_dirty b then (let (m2, c) = persist_outbox X m1 in (m2, c @ [Render]))
                  else (m1, [])
              | Some recipient \<Rightarrow>
                  let (stamped, q) = stamp now (length (b_messages b)) (outbox m1);
                      m2 = m1\<lparr>outbox := q\<rparr>;
                      (m3, persist) = (if b_dirty b \<or> stamped then persist_outbox X m2 else (m2, []));
                      (gen, m4) = next_flush_gen (m3\<lparr>flushing := True\<rparr>);
                      m5 = m4\<lparr>in_flight := Some \<lparr>f_recipient = recipient,
                               f_count = length (b_messages b), f_bytes = b_bytes b\<rparr>\<rparr>;
                      u = server_url (settings m5) @ lit ''/messages'';
                      body = SendBatch (b_messages b)
                  in if body_json_ok X body
                     then (m5, persist @ [HttpPost u (Some (bearer tok)) body (ThenSendResult gen),
                                          NotifyAfter FLUSH_WATCHDOG_MS (FlushWatchdog gen)])
                     else (m5\<lparr>flushing := False, in_flight := None, error := Some NO_SEND_REQUEST\<rparr>,
                           persist @ [Render]))
      | _ \<Rightarrow> (m, []))"

section \<open>A failed batch\<close>

text \<open>\<open>charge_batch now n q\<close> walks the queue with the index: the first \<open>n\<close> items are charged a retry
  and dropped when their budget is spent; the result is the number dropped and the kept queue.\<close>

fun charge_batch :: "int \<Rightarrow> nat \<Rightarrow> outbox_item list \<Rightarrow> nat \<times> outbox_item list" where
  "charge_batch now n [] = (0, [])"
| "charge_batch now 0 (item # q) = (0, item # q)"
| "charge_batch now (Suc n) (item # q) =
     (let item' = item\<lparr>o_retries := sat_inc_u32 (o_retries item)\<rparr>;
          (expired, kept) = charge_batch now n q
      in if is_expired item' now then (Suc expired, kept) else (expired, item' # kept))"

fun decimal :: "nat \<Rightarrow> ustr" where
  "decimal n = (if n < 10 then [48 + n] else decimal (n div 10) @ [48 + n mod 10])"

definition GAVE_UP :: "'z phonemic_ext_scheme \<Rightarrow> nat \<Rightarrow> ustr \<Rightarrow> ustr" where
  "GAVE_UP X expired recipient =
     lit ''gave up sending '' @ decimal expired @ lit '' message(s) to '' @ trunc_ob X recipient"

definition retry_batch :: "'z app_ext_scheme \<Rightarrow> env \<Rightarrow> in_flight option \<Rightarrow> model \<Rightarrow> model \<times> cmd list" where
  "retry_batch X E bt m =
     (case bt of
        None \<Rightarrow> (m, [Render])
      | Some f \<Rightarrow>
          let now = now_ms E 0;
              (expired, kept) = charge_batch now (f_count f) (outbox m);
              m1 = m\<lparr>outbox := kept\<rparr>
          in if expired = 0 then (let (m2, c) = persist_outbox X m1 in (m2, c @ [Render]))
             else let m2 = m1\<lparr>error := Some (GAVE_UP X expired (f_recipient f))\<rparr>;
                      (m3, c1) = persist_outbox X m2;
                      (m4, c2) = flush_next X (after_reads 1 E) m3
                  in (m4, c1 @ c2 @ [Render]))"

section \<open>The relay's answer\<close>

definition on_rate_limited :: "env \<Rightarrow> response \<Rightarrow> model \<Rightarrow> model \<times> cmd list" where
  "on_rate_limited E resp m =
     (let (delay, m1) =
            (case Option.bind (r_retry_after resp) (\<lambda>v. parse_u64 (trim v)) of
               None \<Rightarrow> (backoff_ms (send_retries m), m\<lparr>send_retries := sat_inc_u32 (send_retries m)\<rparr>)
             | Some secs \<Rightarrow> (min (min (secs * 1000) (2 ^ 64 - 1)) MAX_RETRY_AFTER_MS, m))
      in (m1\<lparr>flush_paused_until := sat_add (now_ms E 0) (int delay)\<rparr>,
          [NotifyAfter delay StartFlush, Render]))"

definition on_send_finished :: "'z app_ext_scheme \<Rightarrow> env \<Rightarrow> in_flight option \<Rightarrow> model \<Rightarrow> model \<times> cmd list" where
  "on_send_finished X E bt m =
     (let m1 = m\<lparr>send_retries := 0\<rparr>;
          m2 = (if \<not> kv_load_failed m1
                then m1\<lparr>outbox := drop (case bt of None \<Rightarrow> 0 | Some f \<Rightarrow> f_count f) (outbox m1)\<rparr>
                else m1);
          (m3, c1) = persist_outbox X m2;
          (m4, c2) = flush_next X E m3
      in (m4, c1 @ c2))"

definition on_send_response :: "'z app_ext_scheme \<Rightarrow> env \<Rightarrow> gen \<Rightarrow> response \<Rightarrow> model \<Rightarrow> model \<times> cmd list" where
  "on_send_response X E g resp m =
     (if g \<noteq> flush_gen m then (m, [])
      else
        let bt = in_flight m;
            m1 = m\<lparr>flushing := False, in_flight := None\<rparr>;
            status = r_status resp
        in if status = 401 then (m1\<lparr>token := None\<rparr>, [Emit Authenticate])
           else if status = 429 then on_rate_limited E resp m1
           else if status = 413 \<and> is_some_and bt (\<lambda>f. f_count f > 1)
             then flush_next X E (m1\<lparr>send_batch_budget := Some (f_bytes (the bt) div 2)\<rparr>)
           else if (200 \<le> status \<and> status < 300) \<or> status = 400 then on_send_finished X E bt m1
           else retry_batch X E bt m1)"

definition on_send_error :: "'z app_ext_scheme \<Rightarrow> env \<Rightarrow> gen \<Rightarrow> model \<Rightarrow> model \<times> cmd list" where
  "on_send_error X E g m =
     (if g \<noteq> flush_gen m then (m, [])
      else retry_batch X E (in_flight m) (m\<lparr>flushing := False, in_flight := None\<rparr>))"

definition on_flush_watchdog :: "'z app_ext_scheme \<Rightarrow> env \<Rightarrow> gen \<Rightarrow> model \<Rightarrow> model \<times> cmd list" where
  "on_flush_watchdog X E g m =
     (if g \<noteq> flush_gen m \<or> \<not> flushing m then (m, [])
      else flush_next X E (abandon_flush m))"

section \<open>What the batch loop builds\<close>

definition sealed :: "'z crypto_ext_scheme \<Rightarrow> identity \<Rightarrow> outbox_item \<Rightarrow> envelope \<Rightarrow> bool" where
  "sealed X sender item e \<longleftrightarrow>
     to e = o_recipient item \<and>
     (\<exists>r blob. encrypt_for X r sender item = Some blob \<and> encrypted_blob e = hex_encode X blob)"

definition blob_bytes :: "envelope list \<Rightarrow> nat" where
  "blob_bytes es = sum_list (map (\<lambda>e. ulen (encrypted_blob e)) es)"

definition batch_ok :: "'z crypto_ext_scheme \<Rightarrow> identity \<Rightarrow> nat \<Rightarrow> batch \<Rightarrow> bool" where
  "batch_ok X sender budget b \<longleftrightarrow>
     length (b_messages b) \<le> MAX_SEND_BATCH \<and>
     (b_recipient b = None \<longleftrightarrow> b_messages b = []) \<and>
     list_all2 (sealed X sender) (take (length (b_messages b)) (b_outbox b)) (b_messages b) \<and>
     (\<forall>i\<in>set (take (length (b_messages b)) (b_outbox b)). b_recipient b = Some (o_recipient i)) \<and>
     b_bytes b = blob_bytes (b_messages b) \<and>
     (length (b_messages b) \<le> 1 \<or> b_bytes b \<le> budget)"

text \<open>The queue after the loop: the original items in their order, less unusable ones, and the
  \<open>dirty\<close> flag says whether anything was dropped.\<close>

definition batch_queue_ok :: "'z crypto_ext_scheme \<Rightarrow> identity \<Rightarrow> outbox_item list \<Rightarrow> batch \<Rightarrow> bool" where
  "batch_queue_ok X sender q b \<longleftrightarrow>
     subseq (b_outbox b) q \<and>
     (\<forall>i\<in>set q. i \<in> set (b_outbox b) \<or> (\<exists>r. encrypt_for X r sender i = None)) \<and>
     (\<not> b_dirty b \<longrightarrow> b_outbox b = q)"

lemma collect_batch_invariant:
  assumes "P b"
    and "\<And>b item. \<lbrakk>P b; length (b_messages b) < MAX_SEND_BATCH; length (b_messages b) < length (b_outbox b);
        item = b_outbox b ! length (b_messages b); encrypt_for X (rs (b_attempts b)) sender item = None\<rbrakk>
      \<Longrightarrow> P (drop_unusable X item b)"
    and "\<And>b item blob. \<lbrakk>P b; length (b_messages b) < MAX_SEND_BATCH; length (b_messages b) < length (b_outbox b);
        item = b_outbox b ! length (b_messages b);
        \<not> is_some_and (b_recipient b) (\<lambda>r. r \<noteq> o_recipient item);
        encrypt_for X (rs (b_attempts b)) sender item = Some blob;
        b_messages b = [] \<or> b_bytes b + ulen (hex_encode X blob) \<le> budget\<rbrakk>
      \<Longrightarrow> P (take_item item (hex_encode X blob) b)"
  shows "P (collect_batch X rs sender budget b)"
  using assms
proof (induction X rs sender budget b rule: collect_batch.induct)
  case (1 X rs sender budget b)
  note IH = 1(1) [OF _ _ refl] 1(2) [OF _ _ refl]
  note Pb = 1(3) and keep = 1(4,5)
  show ?case
    using IH Pb keep
    by (subst collect_batch.simps) (auto simp: Let_def not_less split: option.splits)
qed

lemma batch_ok_start: "batch_ok X sender budget (batch_start m)"
  by (simp add: batch_ok_def batch_start_def blob_bytes_def)

lemma blob_bytes_snoc [simp]: "blob_bytes (es @ [e]) = blob_bytes es + ulen (encrypted_blob e)"
  by (simp add: blob_bytes_def)

lemma batch_ok_drop:
  assumes "batch_ok X sender budget b" and "length (b_messages b) < length (b_outbox b)"
  shows "batch_ok X sender budget (drop_unusable X item b)"
  using assms by (auto simp: batch_ok_def drop_unusable_def)

lemma batch_ok_take:
  assumes "batch_ok X sender budget b" and "length (b_messages b) < MAX_SEND_BATCH"
    and "length (b_messages b) < length (b_outbox b)" and item: "item = b_outbox b ! length (b_messages b)"
    and "\<not> is_some_and (b_recipient b) (\<lambda>r. r \<noteq> o_recipient item)"
    and "encrypt_for X r sender item = Some blob"
    and "b_messages b = [] \<or> b_bytes b + ulen (hex_encode X blob) \<le> budget"
  shows "batch_ok X sender budget (take_item item (hex_encode X blob) b)"
proof -
  have "take (Suc (length (b_messages b))) (b_outbox b) = take (length (b_messages b)) (b_outbox b) @ [item]"
    using assms(3) item by (simp add: take_Suc_conv_app_nth)
  then show ?thesis
    using assms
    by (auto simp: batch_ok_def take_item_def sealed_def is_some_and_def list_all2_append
        split: option.splits intro!: exI [of _ r])
qed

lemma batch_ok_collect:
  "batch_ok X sender budget (collect_batch X rs sender budget (batch_start m))"
  by (rule collect_batch_invariant [where P = "batch_ok X sender budget"])
    (simp_all add: batch_ok_start batch_ok_drop batch_ok_take)

lemma batch_queue_collect:
  "batch_queue_ok X sender (outbox m) (collect_batch X rs sender budget (batch_start m))"
proof (rule collect_batch_invariant)
  show "batch_queue_ok X sender (outbox m) (batch_start m)"
    by (simp add: batch_queue_ok_def batch_start_def)
next
  fix b item
  assume b: "batch_queue_ok X sender (outbox m) b" and n: "length (b_messages b) < length (b_outbox b)"
    and item: "item = b_outbox b ! length (b_messages b)"
    and bad: "encrypt_for X (rs (b_attempts b)) sender item = None"
  let ?n = "length (b_messages b)" and ?q = "b_outbox b"
  have split: "?q = take ?n ?q @ item # drop (Suc ?n) ?q"
    using n item by (simp add: id_take_nth_drop)
  have "subseq (take ?n ?q @ drop (Suc ?n) ?q) ?q"
    by (subst (3) split) (intro list_emb_append_mono subseq_order.order_refl list_emb_Cons)
  moreover have "set ?q = insert item (set (take ?n ?q @ drop (Suc ?n) ?q))"
    by (subst split) simp
  ultimately show "batch_queue_ok X sender (outbox m) (drop_unusable X item b)"
    using b bad by (auto simp: batch_queue_ok_def drop_unusable_def intro: subseq_order.order_trans)
next
  fix b item blob
  assume "batch_queue_ok X sender (outbox m) b"
  then show "batch_queue_ok X sender (outbox m) (take_item item (hex_encode X blob) b)"
    by (simp add: batch_queue_ok_def take_item_def)
qed

text \<open>Why the loop stops: the batch is full, the queue is exhausted, the next item is for someone
  else, or it would outgrow the budget.\<close>

definition batch_stops :: "'z app_ext_scheme \<Rightarrow> (nat \<Rightarrow> rng) \<Rightarrow> identity \<Rightarrow> nat \<Rightarrow> batch \<Rightarrow> bool" where
  "batch_stops X rs sender budget b \<longleftrightarrow>
     MAX_SEND_BATCH \<le> length (b_messages b) \<or> length (b_outbox b) \<le> length (b_messages b) \<or>
     (\<exists>r. b_recipient b = Some r \<and> r \<noteq> o_recipient (b_outbox b ! length (b_messages b))) \<or>
     (\<exists>blob. b_messages b \<noteq> [] \<and>
        encrypt_for X (rs (b_attempts b)) sender (b_outbox b ! length (b_messages b)) = Some blob \<and>
        budget < b_bytes b + ulen (hex_encode X blob))"

lemma collect_batch_stops: "batch_stops X rs sender budget (collect_batch X rs sender budget b)"
proof (induction X rs sender budget b rule: collect_batch.induct)
  case (1 X rs sender budget b)
  note IH = 1(1) [OF _ _ refl] 1(2) [OF _ _ refl]
  have stop: "batch_stops X rs sender budget b" if
    "MAX_SEND_BATCH \<le> length (b_messages b) \<or> length (b_outbox b) \<le> length (b_messages b) \<or>
     is_some_and (b_recipient b) (\<lambda>r. r \<noteq> o_recipient (b_outbox b ! length (b_messages b))) \<or>
     (\<exists>blob. b_messages b \<noteq> [] \<and>
        encrypt_for X (rs (b_attempts b)) sender (b_outbox b ! length (b_messages b)) = Some blob \<and>
        budget < b_bytes b + ulen (hex_encode X blob))"
    using that by (auto simp: batch_stops_def is_some_and_def split: option.splits)
  show ?case
    using IH
    by (subst collect_batch.simps) (auto simp: Let_def not_less intro!: stop split: option.splits)
qed

lemma collect_batch_clean:
  "\<not> b_dirty (collect_batch X rs sender budget b) \<Longrightarrow> \<not> b_dirty b \<and> b_error (collect_batch X rs sender budget b) = b_error b"
  by (rule collect_batch_invariant [where P = "\<lambda>b'. \<not> b_dirty b' \<longrightarrow> \<not> b_dirty b \<and> b_error b' = b_error b", rule_format])
    (auto simp: drop_unusable_def take_item_def)

lemma stamp_simps [simp]:
  "length (snd (stamp now n q)) = length q"
  "map o_recipient (snd (stamp now n q)) = map o_recipient q"
  "map o_envelope_json (snd (stamp now n q)) = map o_envelope_json q"
  "map o_kind (snd (stamp now n q)) = map o_kind q"
  "map o_retries (snd (stamp now n q)) = map o_retries q"
  "drop n (snd (stamp now n q)) = drop n q"
proof -
  have q: "map f q = map f (take n q) @ map f (drop n q)" for f :: "outbox_item \<Rightarrow> 'x"
    by (simp flip: map_append)
  show "length (snd (stamp now n q)) = length q"
    by (simp add: stamp_def)
  show "map o_recipient (snd (stamp now n q)) = map o_recipient q"
    by (subst q) (simp add: stamp_def)
  show "map o_envelope_json (snd (stamp now n q)) = map o_envelope_json q"
    by (subst q) (simp add: stamp_def)
  show "map o_kind (snd (stamp now n q)) = map o_kind q"
    by (subst q) (simp add: stamp_def)
  show "map o_retries (snd (stamp now n q)) = map o_retries q"
    by (subst q) (simp add: stamp_def)
  show "drop n (snd (stamp now n q)) = drop n q"
    by (cases "n \<le> length q") (simp_all add: stamp_def)
qed

lemma stamp_none: "\<not> fst (stamp now n q) \<Longrightarrow> snd (stamp now n q) = q"
  by (simp add: stamp_def map_idI)

lemma set_stamp_recipient:
  "o_recipient ` set (take k (snd (stamp now n q))) = o_recipient ` set (take k q)"
  by (simp only: set_map [symmetric] take_map [symmetric] stamp_simps)

lemma sealed_cong:
  assumes "o_recipient i = o_recipient j" "o_envelope_json i = o_envelope_json j"
  shows "sealed X sender i e = sealed X sender j e"
  unfolding sealed_def encrypt_for_def assms by (rule refl)

lemma sealed_stamp: "sealed X sender (i\<lparr>o_first_attempt := t\<rparr>) e = sealed X sender i e"
  by (rule sealed_cong) simp_all

lemma take_stamp:
  "take n (snd (stamp now n q)) =
     map (\<lambda>i. if o_first_attempt i = 0 then i\<lparr>o_first_attempt := now\<rparr> else i) (take n q)"
  by (cases "n \<le> length q") (simp_all add: stamp_def)

lemma sealed_stamped:
  "list_all2 (sealed X sender) (take n q) es \<Longrightarrow> list_all2 (sealed X sender) (take n (snd (stamp now n q))) es"
  unfolding take_stamp list_all2_map1 by (auto elim!: list_all2_mono simp: sealed_stamp)

lemma stamped_items:
  "i \<in> set (take n (snd (stamp now n q))) \<Longrightarrow> now \<noteq> 0 \<Longrightarrow> o_first_attempt i \<noteq> 0"
  by (auto simp: take_stamp)

section \<open>The four outcomes of a flush\<close>

abbreviation budget_of :: "model \<Rightarrow> nat" where
  "budget_of m \<equiv> (case send_batch_budget m of Some n \<Rightarrow> n | None \<Rightarrow> MAX_SEND_BATCH_BYTES)"

lemma flush_next_cases:
  obtains
    (idle) "flush_next X E m = (m, [])"
  | (drained) sender tok b where "\<not> flushing m" "\<not> kv_load_failed m"
      "flush_paused_until m \<le> now_ms E 0" "identity_of X m = Some sender" "token m = Some tok"
      "b = collect_batch X (rngs E) sender (budget_of m) (batch_start m)" "b_recipient b = None"
      "flush_next X E m = (m\<lparr>outbox := b_outbox b, error := b_error b\<rparr>,
         if b_dirty b then [KvSet K_OUTBOX (json_bytes X (VOutbox (b_outbox b))) ThenSaved, Render] else [])"
  | (posted) sender tok b recipient q w where "\<not> flushing m" "\<not> kv_load_failed m"
      "flush_paused_until m \<le> now_ms E 0" "identity_of X m = Some sender" "token m = Some tok"
      "b = collect_batch X (rngs E) sender (budget_of m) (batch_start m)" "b_recipient b = Some recipient"
      "q = snd (stamp (now_ms E 1) (length (b_messages b)) (b_outbox b))"
      "w = (if b_dirty b \<or> fst (stamp (now_ms E 1) (length (b_messages b)) (b_outbox b))
            then [KvSet K_OUTBOX (json_bytes X (VOutbox q)) ThenSaved] else [])"
      "flush_next X E m =
         (m\<lparr>outbox := q, error := b_error b, flushing := True, flush_gen := flush_gen m + 1,
            in_flight := Some \<lparr>f_recipient = recipient, f_count = length (b_messages b), f_bytes = b_bytes b\<rparr>\<rparr>,
          w @ [HttpPost (server_url (settings m) @ lit ''/messages'') (Some (bearer tok))
                 (SendBatch (b_messages b)) (ThenSendResult (flush_gen m + 1)),
               NotifyAfter FLUSH_WATCHDOG_MS (FlushWatchdog (flush_gen m + 1))])"
  | (unbuilt) sender tok b recipient q w where "\<not> flushing m" "\<not> kv_load_failed m"
      "flush_paused_until m \<le> now_ms E 0" "identity_of X m = Some sender" "token m = Some tok"
      "b = collect_batch X (rngs E) sender (budget_of m) (batch_start m)" "b_recipient b = Some recipient"
      "q = snd (stamp (now_ms E 1) (length (b_messages b)) (b_outbox b))"
      "w = (if b_dirty b \<or> fst (stamp (now_ms E 1) (length (b_messages b)) (b_outbox b))
            then [KvSet K_OUTBOX (json_bytes X (VOutbox q)) ThenSaved] else [])"
      "flush_next X E m =
         (m\<lparr>outbox := q, error := Some NO_SEND_REQUEST, flushing := False, flush_gen := flush_gen m + 1,
            in_flight := None\<rparr>, w @ [Render])"
proof -
  consider "flushing m \<or> kv_load_failed m \<or> now_ms E 0 < flush_paused_until m \<or>
      identity_of X m = None \<or> token m = None"
    | (ready) sender tok where "\<not> flushing m" "\<not> kv_load_failed m" "flush_paused_until m \<le> now_ms E 0"
      "identity_of X m = Some sender" "token m = Some tok"
    by fastforce
  then show thesis
  proof cases
    case 1
    then have "flush_next X E m = (m, [])"
      by (auto simp: flush_next_def split: option.splits)
    then show ?thesis by (rule idle)
  next
    case ready
    define b where "b = collect_batch X (rngs E) sender (budget_of m) (batch_start m)"
    obtain st q where st: "stamp (now_ms E 1) (length (b_messages b)) (b_outbox b) = (st, q)"
      by fastforce
    show ?thesis
    proof (cases "b_recipient b")
      case None
      then have "flush_next X E m = (m\<lparr>outbox := b_outbox b, error := b_error b\<rparr>,
         if b_dirty b then [KvSet K_OUTBOX (json_bytes X (VOutbox (b_outbox b))) ThenSaved, Render] else [])"
        using ready by (simp add: flush_next_def w_outbox.written flip: b_def)
      with ready b_def None show ?thesis by (rule drained)
    next
      case (Some recipient)
      show ?thesis
      proof (cases "body_json_ok X (SendBatch (b_messages b))")
        case True
        show ?thesis
          by (rule posted [OF ready b_def Some refl refl])
            (use ready Some True in \<open>cases "b_dirty b"; cases st;
               simp add: flush_next_def w_outbox.written next_flush_gen_def st flip: b_def del: One_nat_def\<close>)
      next
        case False
        show ?thesis
          by (rule unbuilt [OF ready b_def Some refl refl])
            (use ready Some False in \<open>cases "b_dirty b"; cases st;
               simp add: flush_next_def w_outbox.written next_flush_gen_def st flip: b_def del: One_nat_def\<close>)
      qed
    qed
  qed
qed

text \<open>A flush touches the queue, the error line and the send guard, and nothing else.\<close>

lemma flush_next_only:
  "\<exists>q e f g i. fst (flush_next X E m) =
     m\<lparr>outbox := q, error := e, flushing := f, flush_gen := g, in_flight := i\<rparr>"
proof (cases X E m rule: flush_next_cases)
  case idle
  then show ?thesis
    by (intro exI [of _ "outbox m"] exI [of _ "error m"] exI [of _ "flushing m"] exI [of _ "flush_gen m"]
        exI [of _ "in_flight m"]) simp
next
  case (drained sender tok b)
  then show ?thesis
    by (intro exI [of _ "b_outbox b"] exI [of _ "b_error b"] exI [of _ "flushing m"] exI [of _ "flush_gen m"]
        exI [of _ "in_flight m"]) simp
qed (metis fst_conv)+

lemma flush_next_frame [simp, frame]:
  "secret_key (fst (flush_next X E m)) = secret_key m" "my_pubkey (fst (flush_next X E m)) = my_pubkey m"
  "settings (fst (flush_next X E m)) = settings m" "profile (fst (flush_next X E m)) = profile m"
  "contacts (fst (flush_next X E m)) = contacts m" "messages (fst (flush_next X E m)) = messages m"
  "seen_ids (fst (flush_next X E m)) = seen_ids m" "cursor (fst (flush_next X E m)) = cursor m"
  "token (fst (flush_next X E m)) = token m" "conn (fst (flush_next X E m)) = conn m"
  "polling (fst (flush_next X E m)) = polling m" "poll_gen (fst (flush_next X E m)) = poll_gen m"
  "authenticating (fst (flush_next X E m)) = authenticating m" "auth_gen (fst (flush_next X E m)) = auth_gen m"
  "send_batch_budget (fst (flush_next X E m)) = send_batch_budget m"
  "loads_pending (fst (flush_next X E m)) = loads_pending m"
  "kv_load_failed (fst (flush_next X E m)) = kv_load_failed m"
  "flush_paused_until (fst (flush_next X E m)) = flush_paused_until m"
  "send_retries (fst (flush_next X E m)) = send_retries m" "poll_retries (fst (flush_next X E m)) = poll_retries m"
  using flush_next_only [of X E m] by auto

section \<open>The send in flight\<close>

definition flight_ok :: "model \<Rightarrow> bool" where
  "flight_ok m \<longleftrightarrow>
     (case in_flight m of
        None \<Rightarrow> True
      | Some f \<Rightarrow> flushing m \<and> 1 \<le> f_count f \<and> f_count f \<le> MAX_SEND_BATCH \<and>
          f_count f \<le> length (outbox m) \<and>
          (\<forall>i\<in>set (take (f_count f) (outbox m)). o_recipient i = f_recipient f))"

lemma flight_ok_None [simp]: "in_flight m = None \<Longrightarrow> flight_ok m"
  by (simp add: flight_ok_def)

lemma batch_lengths:
  assumes "b = collect_batch X rs sender budget (batch_start m)"
  shows "length (b_messages b) \<le> length (b_outbox b)"
proof -
  have "length (take (length (b_messages b)) (b_outbox b)) = length (b_messages b)"
    using batch_ok_collect [of X sender budget rs m] assms by (auto simp: batch_ok_def dest: list_all2_lengthD)
  then show ?thesis by simp
qed

lemma flush_next_flight_ok:
  assumes "flight_ok m"
  shows "flight_ok (fst (flush_next X E m))"
proof (cases X E m rule: flush_next_cases)
  case (drained sender tok b)
  with assms show ?thesis by (auto simp: flight_ok_def split: option.splits)
next
  case (posted sender tok b recipient q w)
  let ?n = "length (b_messages b)"
  have ok: "batch_ok X sender (budget_of m) b"
    using batch_ok_collect posted(6) by simp
  have "o_recipient i = recipient" if "i \<in> set (take ?n q)" for i
  proof -
    have "o_recipient i \<in> o_recipient ` set (take ?n (b_outbox b))"
      using that set_stamp_recipient [of ?n "now_ms E 1" ?n "b_outbox b"] posted(8) by blast
    then show ?thesis using ok posted(7) by (auto simp: batch_ok_def)
  qed
  moreover have "b_messages b \<noteq> []" using ok posted(7) by (auto simp: batch_ok_def)
  ultimately show ?thesis
    using posted batch_lengths [OF posted(6)] ok
    by (simp add: flight_ok_def batch_ok_def Suc_le_eq)
qed (use assms in simp_all)

text \<open>The rules that end a batch, read off the queue after it.\<close>

lemma batch_maximal:
  assumes "b = collect_batch X (rngs E) sender budget (batch_start m)" "b_recipient b = Some r"
    and "q = snd (stamp now (length (b_messages b)) (b_outbox b))"
  shows "length (b_messages b) = MAX_SEND_BATCH \<or> length (b_messages b) = length q \<or>
    o_recipient (q ! length (b_messages b)) \<noteq> r \<or>
    (\<exists>rng blob. encrypt_for X rng sender (q ! length (b_messages b)) = Some blob \<and>
       budget < b_bytes b + ulen (hex_encode X blob))"
proof -
  let ?n = "length (b_messages b)"
  have le: "?n \<le> length (b_outbox b)" "?n \<le> MAX_SEND_BATCH"
    using batch_lengths [OF assms(1)] batch_ok_collect [of X sender budget "rngs E" m] assms(1)
    by (auto simp: batch_ok_def)
  have "length q = length (b_outbox b)" and nth: "?n < length (b_outbox b) \<Longrightarrow> q ! ?n = b_outbox b ! ?n"
    using assms(3) by (auto simp: stamp_def nth_append min_def)
  moreover have "batch_stops X (rngs E) sender budget b"
    unfolding assms(1) by (rule collect_batch_stops)
  ultimately show ?thesis
    using le assms(2) unfolding batch_stops_def
    by (cases "?n = length (b_outbox b)") auto
qed

text \<open>C11. Whatever goes on the wire is one well-formed batch, as large as the rules allow: it is posted
  only when no send is in flight, storage was read, the rate-limit pause is over and there is an
  identity and a token; it carries between one and a hundred envelopes, all for one recipient, that are
  encryptions of exactly the items at the head of the queue in their order; it respects the byte budget
  unless it is a single item; it ends only at a hundred items, at the end of the queue, before an item
  for someone else, or before one that would exceed the budget; and the bookkeeping of the send in
  flight describes exactly this batch.\<close>

theorem flush_batch_spec:
  assumes "HttpPost u auth (SendBatch es) th \<in> set (snd (flush_next X E m))"
  shows "\<exists>sender tok r m'. m' = fst (flush_next X E m) \<and>
    \<not> flushing m \<and> \<not> kv_load_failed m \<and> flush_paused_until m \<le> now_ms E 0 \<and>
    identity_of X m = Some sender \<and> token m = Some tok \<and>
    u = server_url (settings m) @ lit ''/messages'' \<and> auth = Some (bearer tok) \<and>
    1 \<le> length es \<and> length es \<le> MAX_SEND_BATCH \<and> (\<forall>e\<in>set es. to e = r) \<and>
    list_all2 (sealed X sender) (take (length es) (outbox m')) es \<and>
    (length es = 1 \<or> blob_bytes es \<le> budget_of m) \<and>
    (length es = MAX_SEND_BATCH \<or> length es = length (outbox m') \<or> o_recipient (outbox m' ! length es) \<noteq> r \<or>
      (\<exists>rng blob. encrypt_for X rng sender (outbox m' ! length es) = Some blob \<and>
         budget_of m < blob_bytes es + ulen (hex_encode X blob))) \<and>
    flushing m' \<and> flush_gen m' = flush_gen m + 1 \<and> th = ThenSendResult (flush_gen m') \<and>
    in_flight m' = Some \<lparr>f_recipient = r, f_count = length es, f_bytes = blob_bytes es\<rparr>"
proof (cases X E m rule: flush_next_cases)
  case (posted sender tok b recipient q w)
  have es: "es = b_messages b" and th: "u = server_url (settings m) @ lit ''/messages''"
    "auth = Some (bearer tok)" "th = ThenSendResult (flush_gen m + 1)"
    using assms posted(9,10) by (auto split: if_splits)
  have ok: "batch_ok X sender (budget_of m) b"
    using batch_ok_collect posted(6) by simp
  then have sealed: "list_all2 (sealed X sender) (take (length es) q) es"
    unfolding es posted(8) by (intro sealed_stamped) (simp add: batch_ok_def)
  have "to e = recipient" if "e \<in> set es" for e
  proof -
    from ok that obtain i where "i \<in> set (take (length es) (b_outbox b))" "sealed X sender i e"
      unfolding batch_ok_def es by (metis in_set_conv_nth list_all2_conv_all_nth)
    with ok posted(7) show ?thesis by (auto simp: batch_ok_def sealed_def es)
  qed
  moreover have "b_messages b \<noteq> []" using ok posted(7) by (auto simp: batch_ok_def)
  then have "1 \<le> length es" by (simp add: es Suc_le_eq)
  moreover have bytes: "b_bytes b = blob_bytes es" using ok by (simp add: batch_ok_def es)
  moreover note batch_maximal [OF posted(6-8), unfolded bytes, folded es]
  ultimately show ?thesis
    using posted th sealed ok es
    by (intro exI [of _ sender] exI [of _ tok] exI [of _ recipient]) (auto simp: batch_ok_def)
qed (use assms in \<open>auto split: if_splits\<close>)

definition unstamped :: "outbox_item \<Rightarrow> outbox_item" where
  "unstamped i = i\<lparr>o_first_attempt := 0\<rparr>"

lemma unstamped_stamp: "map unstamped (snd (stamp now n q)) = map unstamped q"
proof -
  have "map unstamped (snd (stamp now n q)) = map unstamped (take n q) @ map unstamped (drop n q)"
    by (simp add: stamp_def unstamped_def)
  then show ?thesis by (simp flip: map_append)
qed

lemma flush_queue:
  "\<exists>q. subseq q (outbox m) \<and> map unstamped (outbox (fst (flush_next X E m))) = map unstamped q \<and>
    (\<forall>i\<in>set (outbox m). i \<in> set q \<or>
       (\<exists>sender r. identity_of X m = Some sender \<and> encrypt_for X r sender i = None))"
proof (cases X E m rule: flush_next_cases)
  case idle
  then show ?thesis by (intro exI [of _ "outbox m"]) simp
next
  case (drained sender tok b)
  then show ?thesis
    using batch_queue_collect [of X sender m "rngs E" "budget_of m"]
    by (intro exI [of _ "b_outbox b"]) (auto simp: batch_queue_ok_def)
next
  case (posted sender tok b recipient q w)
  then show ?thesis
    using batch_queue_collect [of X sender m "rngs E" "budget_of m"]
    by (intro exI [of _ "b_outbox b"]) (auto simp: batch_queue_ok_def unstamped_stamp)
next
  case (unbuilt sender tok b recipient q w)
  then show ?thesis
    using batch_queue_collect [of X sender m "rngs E" "budget_of m"]
    by (intro exI [of _ "b_outbox b"]) (auto simp: batch_queue_ok_def unstamped_stamp)
qed

lemma flush_next_progress:
  assumes ready: "\<not> flushing m" "\<not> kv_load_failed m" "flush_paused_until m \<le> now_ms E 0"
      "identity_of X m = Some sender" "token m = Some tok"
    and item: "i \<in> set (outbox m)" "\<And>r. encrypt_for X r sender i \<noteq> None" and body: "\<And>b. body_json_ok X b"
  shows "\<exists>u auth es. HttpPost u auth (SendBatch es) (ThenSendResult (flush_gen m + 1)) \<in> set (snd (flush_next X E m))"
proof -
  define b where "b = collect_batch X (rngs E) sender (budget_of m) (batch_start m)"
  have "b_recipient b \<noteq> None"
  proof
    assume none: "b_recipient b = None"
    have "batch_ok X sender (budget_of m) b" "batch_queue_ok X sender (outbox m) b"
      unfolding b_def by (rule batch_ok_collect, rule batch_queue_collect)
    with none item(1) have "b_messages b = []" "i \<in> set (b_outbox b) \<or> (\<exists>r. encrypt_for X r sender i = None)"
      by (simp_all add: batch_ok_def batch_queue_ok_def)
    with item(2) have "b_messages b = []" "b_outbox b \<noteq> []" by (blast, metis empty_iff empty_set)
    with none collect_batch_stops [of X "rngs E" sender "budget_of m" "batch_start m"] show False
      by (simp add: batch_stops_def size_caps flip: b_def)
  qed
  then obtain r where r: "b_recipient b = Some r" by blast
  obtain st q where st: "stamp (now_ms E 1) (length (b_messages b)) (b_outbox b) = (st, q)"
    by fastforce
  show ?thesis
    using ready r body
    by (cases "b_dirty b"; cases st)
      (simp_all add: flush_next_def w_outbox.written next_flush_gen_def st flip: b_def del: One_nat_def)
qed

section \<open>The relay's answers\<close>

lemma flush_flight_bytes:
  assumes "in_flight m = None" "in_flight (fst (flush_next X E m)) = Some f"
  shows "f_count f = 1 \<or> f_bytes f \<le> budget_of m"
proof (cases X E m rule: flush_next_cases)
  case (posted sender tok b recipient q w)
  then have "batch_ok X sender (budget_of m) b" by (simp add: batch_ok_collect)
  with assms posted show ?thesis by (auto simp: batch_ok_def le_Suc_eq)
qed (use assms in auto)

text \<open>C32. A \<open>413\<close> to a batch of several items measures the relay's limit: nothing is charged or
  popped, the budget becomes half of what was sent, and the next batch is a single item or weighs at
  most half as much, so a chain of rejections ends with single items.\<close>

theorem too_large_splits_batch:
  assumes "r_status resp = 413" "in_flight m = Some f" "1 < f_count f"
    and "m' = fst (on_send_response X E (flush_gen m) resp m)"
  shows "send_batch_budget m' = Some (f_bytes f div 2) \<and>
    (\<exists>q. subseq q (outbox m) \<and> map unstamped (outbox m') = map unstamped q \<and>
       (\<forall>i\<in>set (outbox m). i \<in> set q \<or>
          (\<exists>sender r. identity_of X m = Some sender \<and> encrypt_for X r sender i = None))) \<and>
    (\<forall>f'. in_flight m' = Some f' \<longrightarrow> f_count f' = 1 \<or> f_bytes f' \<le> f_bytes f div 2)"
proof -
  let ?m = "m\<lparr>flushing := False, in_flight := None, send_batch_budget := Some (f_bytes f div 2)\<rparr>"
  have m': "m' = fst (flush_next X E ?m)"
    using assms by (simp add: on_send_response_def is_some_and_def)
  have "identity_of X ?m = identity_of X m" by (simp add: identity_of_def)
  then show ?thesis
    unfolding m' using flush_queue [of ?m X E] flush_flight_bytes [of ?m X E] by simp
qed

text \<open>A \<open>429\<close> parks the send loop: the queue and its retry budgets are untouched, the wait is
  the relay's \<open>Retry-After\<close> in seconds or our own back-off and never exceeds five minutes, one
  wake-up is scheduled for its end, and no flush sends before it.\<close>

lemma rate_limit_parks_sends:
  assumes "r_status resp = 429" "(m', cs) = on_send_response X E (flush_gen m) resp m"
  shows "outbox m' = outbox m \<and> \<not> flushing m' \<and> in_flight m' = None \<and>
    (\<exists>d. d \<le> MAX_RETRY_AFTER_MS \<and> cs = [NotifyAfter d StartFlush, Render] \<and>
       flush_paused_until m' = sat_add (now_ms E 0) (int d) \<and>
       d = (case Option.bind (r_retry_after resp) (\<lambda>v. parse_u64 (trim v)) of
              Some secs \<Rightarrow> min (secs * 1000) MAX_RETRY_AFTER_MS
            | None \<Rightarrow> backoff_ms (send_retries m))) \<and>
    (\<forall>E'. now_ms E' 0 < flush_paused_until m' \<longrightarrow> flush_next X E' m' = (m', []))"
proof -
  have wait: "min (min (n * 1000) 18446744073709551615) MAX_RETRY_AFTER_MS = min (n * 1000) MAX_RETRY_AFTER_MS" for n :: nat
    by (simp add: size_caps)
  have own: "backoff_ms r \<le> MAX_RETRY_AFTER_MS" for r
    by (simp add: backoff_ms_cases size_caps)
  show ?thesis
    using assms own [of "send_retries m"]
    by (cases "Option.bind (r_retry_after resp) (\<lambda>v. parse_u64 (trim v))")
      (simp_all add: on_send_response_def on_rate_limited_def flush_next_def wait)
qed

definition charged :: "outbox_item \<Rightarrow> outbox_item" where
  "charged i = i\<lparr>o_retries := sat_inc_u32 (o_retries i)\<rparr>"

lemma charge_batch_eq:
  "charge_batch now n q =
     (length (filter (\<lambda>i. is_expired i now) (map charged (take n q))),
      filter (\<lambda>i. \<not> is_expired i now) (map charged (take n q)) @ drop n q)"
  by (induction now n q rule: charge_batch.induct) (simp_all add: charged_def Let_def)

lemma charge_survivors:
  "i \<in> set (filter (\<lambda>i. \<not> is_expired i now) (map charged q)) \<Longrightarrow> o_retries i < MAX_OUTBOX_RETRIES"
  by (auto simp: is_expired_def)

lemma retry_batch_outbox:
  assumes "\<not> kv_load_failed m"
  shows "retry_batch X E (Some f) m =
    (let (expired, kept) = charge_batch (now_ms E 0) (f_count f) (outbox m);
         w = KvSet K_OUTBOX (json_bytes X (VOutbox kept)) ThenSaved
     in if expired = 0 then (m\<lparr>outbox := kept\<rparr>, [w, Render])
        else let (m', c) = flush_next X (after_reads 1 E)
                   (m\<lparr>outbox := kept, error := Some (GAVE_UP X expired (f_recipient f))\<rparr>)
             in (m', w # c @ [Render]))"
  using assms by (simp add: retry_batch_def w_outbox.written Let_def split: prod.splits)

text \<open>C30. A transient failure (a transport error, or any status that is not success, \<open>400\<close>,
  \<open>401\<close>, \<open>413\<close> or \<open>429\<close>) charges every item of the batch one retry, keeps in order
  those whose budget is not spent, drops the others, leaves the items behind the batch alone and writes the
  queue down; when something was dropped the user is told and the queue behind it is flushed.\<close>

theorem failed_send_charges_batch:
  assumes "in_flight m = Some f" "\<not> kv_load_failed m"
    and "res = Inl () \<or> (\<exists>resp. res = Inr resp \<and> \<not> (200 \<le> r_status resp \<and> r_status resp < 300) \<and>
           r_status resp \<notin> {400, 401, 413, 429})"
    and "items = map charged (take (f_count f) (outbox m))"
    and "kept = filter (\<lambda>i. \<not> is_expired i (now_ms E 0)) items @ drop (f_count f) (outbox m)"
    and "expired = length (filter (\<lambda>i. is_expired i (now_ms E 0)) items)"
    and "w = KvSet K_OUTBOX (json_bytes X (VOutbox kept)) ThenSaved"
    and "m1 = m\<lparr>flushing := False, in_flight := None, outbox := kept\<rparr>"
  shows "(case res of Inl e \<Rightarrow> on_send_error X E (flush_gen m) m
                   | Inr resp \<Rightarrow> on_send_response X E (flush_gen m) resp m) =
      (if expired = 0 then (m1, [w, Render])
       else let (m2, c) = flush_next X (after_reads 1 E) (m1\<lparr>error := Some (GAVE_UP X expired (f_recipient f))\<rparr>)
            in (m2, w # c @ [Render])) \<and>
    (\<forall>i\<in>set (filter (\<lambda>i. \<not> is_expired i (now_ms E 0)) items). o_retries i < MAX_OUTBOX_RETRIES)"
proof -
  have "(case res of Inl e \<Rightarrow> on_send_error X E (flush_gen m) m
                   | Inr resp \<Rightarrow> on_send_response X E (flush_gen m) resp m) =
      retry_batch X E (Some f) (m\<lparr>flushing := False, in_flight := None\<rparr>)"
    using assms(1,3) by (auto simp: on_send_error_def on_send_response_def)
  then have "(case res of Inl e \<Rightarrow> on_send_error X E (flush_gen m) m
                   | Inr resp \<Rightarrow> on_send_response X E (flush_gen m) resp m) =
      (if expired = 0 then (m1, [w, Render])
       else let (m2, c) = flush_next X (after_reads 1 E) (m1\<lparr>error := Some (GAVE_UP X expired (f_recipient f))\<rparr>)
            in (m2, w # c @ [Render]))"
    using assms(2) by (simp add: retry_batch_outbox charge_batch_eq assms(4-))
  moreover have "\<forall>i\<in>set (filter (\<lambda>i. \<not> is_expired i (now_ms E 0)) items). o_retries i < MAX_OUTBOX_RETRIES"
    unfolding assms(4) by (blast intro: charge_survivors)
  ultimately show ?thesis by blast
qed

section \<open>Concrete runs\<close>

definition ref_peer :: ustr where "ref_peer = hex_encode ref_app_ext (replicate 32 2)"

definition ref_item :: outbox_item where "ref_item = outbox_item_new ref_peer (lit ''x'')"

definition ref_model :: model where
  "ref_model = model_default\<lparr>secret_key := Some (replicate 64 1),
     my_pubkey := hex_encode ref_app_ext (replicate 32 1), token := Some (lit ''t''), outbox := [ref_item]\<rparr>"

lemma ref_model_simps [simp]:
  "identity_of ref_app_ext ref_model = Some (ref_identity 1)" "token ref_model = Some (lit ''t'')"
  "outbox ref_model = [ref_item]" "\<not> flushing ref_model" "\<not> kv_load_failed ref_model"
  "flush_paused_until ref_model = 0" "in_flight ref_model = None" "flush_gen ref_model = 0"
  "send_batch_budget ref_model = None" "settings ref_model = settings_default" "send_retries ref_model = 0"
  by (simp_all add: ref_model_def model_default_def identity_of_def ref_app_from_secret)

lemma ref_hex_decode_peer: "hex_decode ref_crypto_ext ref_peer = Some (replicate 32 2)"
  by (simp add: ref_peer_def ref_crypto_ext_def ref_hex_roundtrip)

lemma ref_item_usable: "encrypt_for ref_app_ext r (ref_identity a) ref_item \<noteq> None"
proof -
  have "length (utf8_encode (lit ''x'')) \<le> MAX_PLAINTEXT_LEN"
    by (simp add: lit_def utf8_char_def size_caps)
  then show ?thesis
    using ref_app_encrypt [of "utf8_encode (lit ''x'')" r a 2]
    by (auto simp: encrypt_for_def ref_item_def ref_hex_decode_peer)
qed

lemma ref_flush_posts:
  "\<exists>u auth es. HttpPost u auth (SendBatch es) (ThenSendResult 1) \<in> set (snd (flush_next ref_app_ext ref_env ref_model))"
  using flush_next_progress [of ref_model ref_env ref_app_ext "ref_identity 1" "lit ''t''" ref_item] ref_item_usable
  by simp

theorem flush_batch_spec_witness:
  "\<exists>f. in_flight (fst (flush_next ref_app_ext ref_env ref_model)) = Some f \<and> 1 \<le> f_count f"
  using ref_flush_posts flush_batch_spec [where X = ref_app_ext and E = ref_env and m = ref_model] by fastforce

definition ref_resp :: "nat \<Rightarrow> response" where
  "ref_resp s = \<lparr>r_status = s, r_retry_after = Some (lit '' 120 ''), r_body = None\<rparr>"

definition ref_flight :: in_flight where
  "ref_flight = \<lparr>f_recipient = ref_peer, f_count = 2, f_bytes = 4096\<rparr>"

definition ref_sending :: model where
  "ref_sending = ref_model\<lparr>outbox := [ref_item, ref_item\<lparr>o_retries := 9\<rparr>], flushing := True, in_flight := Some ref_flight\<rparr>"

theorem too_large_splits_batch_witness:
  "send_batch_budget (fst (on_send_response ref_app_ext ref_env 0 (ref_resp 413) ref_sending)) = Some 2048"
  using too_large_splits_batch [of "ref_resp 413" ref_sending ref_flight _ ref_app_ext ref_env, OF _ _ _ refl]
  by (simp add: ref_resp_def ref_sending_def ref_flight_def)

theorem failed_send_charges_batch_witness:
  "\<exists>c. snd (on_send_error ref_app_ext ref_env 0 ref_sending) =
     KvSet K_OUTBOX (json_bytes ref_app_ext (VOutbox [charged ref_item])) ThenSaved # c"
  using failed_send_charges_batch [of ref_sending ref_flight "Inl ()" _ _ ref_env _ _ ref_app_ext,
      OF _ _ _ refl refl refl refl refl]
  by (simp add: ref_sending_def ref_flight_def charged_def is_expired_def ref_item_def outbox_item_new_def
      sat_inc_u32_def u32_max_def size_caps split: prod.splits)

end
