(* ===== verification/Ingest.thy ===== *)
theory Ingest
  imports Outbox
begin

text \<open>
  Receiving (\<open>ingest_poll\<close> in \<open>core/src/app.rs\<close>): a poll page is folded into the model one event at
  a time, the acknowledgements it carries are applied after the loop, acknowledgements for what was
  stored are queued, and everything touched is written. The local variables of the Rust function are
  the record \<open>ingest\<close>.
\<close>

section \<open>The state of the loop\<close>

record pending_ack =
  pa_ts :: int
  pa_ids :: "ustr set"

definition pending_ack_default :: pending_ack where
  "pending_ack_default = \<lparr>pa_ts = 0, pa_ids = {}\<rparr>"

record ingest =
  i_model :: model
  i_touched :: "ustr set"
  i_contacts_dirty :: bool
  i_outbox_dirty :: bool
  i_ack_targets :: "ustr list btree"
  i_pending :: "pending_ack btree"
  i_budget :: nat
  i_processed :: nat
  i_stored :: nat

definition ingest_start :: "model \<Rightarrow> ingest" where
  "ingest_start m =
     \<lparr>i_model = m, i_touched = {}, i_contacts_dirty = False, i_outbox_dirty = False,
      i_ack_targets = [], i_pending = [], i_budget = MAX_POLL_TOTAL_BYTES, i_processed = 0, i_stored = 0\<rparr>"

definition own_profile_payload :: "model \<Rightarrow> payload" where
  "own_profile_payload m =
     Profile (Some (op_display_name (profile m))) (Some (op_bio (profile m))) (op_photo (profile m))"

definition or_default :: "'v \<Rightarrow> 'v option \<Rightarrow> 'v" where
  "or_default d x = (case x of Some v \<Rightarrow> v | None \<Rightarrow> d)"

section \<open>One payload\<close>

text \<open>The excess is removed in the iteration order of the hash set, skipping what the conversation
  still holds.\<close>

definition cap_seen_ids :: "env \<Rightarrow> stored_message list \<Rightarrow> ustr set \<Rightarrow> ustr set" where
  "cap_seen_ids E convo ids =
     (if card ids > MAX_SEEN_IDS_PER_PEER
      then let convo_ids = set (map m_id convo);
               excess = card ids - MAX_SEEN_IDS_PER_PEER;
               to_remove = take excess (filter (\<lambda>i. i \<notin> convo_ids) (hash_order E ids))
           in ids - set to_remove
      else ids)"

definition greet_stranger :: "'z app_ext_scheme \<Rightarrow> ustr \<Rightarrow> int \<Rightarrow> ingest \<Rightarrow> ingest" where
  "greet_stranger X sender ts s =
     (let m = i_model s
      in s\<lparr>i_model := m\<lparr>contacts := bt_insert sender (contact_new sender [] ts) (contacts m),
                        outbox := outbox m @ [outbox_item_profile sender
                          (serialize_payload X (own_profile_payload m) ts)]\<rparr>,
           i_contacts_dirty := True, i_outbox_dirty := True\<rparr>)"

definition store_text :: "env \<Rightarrow> ustr \<Rightarrow> int \<Rightarrow> ustr \<Rightarrow> ustr \<Rightarrow> ingest \<Rightarrow> ingest" where
  "store_text E sender ts msg_id body s =
     (let m = i_model s;
          convo = or_default [] (bt_get (messages m) sender);
          id_set0 = or_default {} (bt_get (seen_ids m) sender);
          id_set = (if id_set0 = {} then set (map m_id convo) else id_set0)
      in if msg_id \<in> id_set
         then s\<lparr>i_model := m\<lparr>messages := bt_insert sender convo (messages m),
                             seen_ids := bt_insert sender id_set (seen_ids m)\<rparr>\<rparr>
         else let convo1 = insert_sorted convo \<lparr>m_id = msg_id, m_body = body, m_ts = ts,
                             m_outgoing = False, m_delivered = False\<rparr>;
                  id_set1 = cap_seen_ids E convo1 (insert msg_id id_set)
              in s\<lparr>i_model := m\<lparr>messages := bt_insert sender (trim_history convo1) (messages m),
                                seen_ids := bt_insert sender id_set1 (seen_ids m)\<rparr>,
                   i_touched := insert sender (i_touched s),
                   i_ack_targets := bt_insert sender
                     (or_default [] (bt_get (i_ack_targets s) sender) @ [msg_id]) (i_ack_targets s)\<rparr>)"

definition ingest_text :: "'z app_ext_scheme \<Rightarrow> env \<Rightarrow> ustr \<Rightarrow> int \<Rightarrow> ustr \<Rightarrow> ustr \<Rightarrow> ingest \<Rightarrow> ingest" where
  "ingest_text X E sender ts msg_id body s =
     (let known = (bt_get (contacts (i_model s)) sender \<noteq> None)
      in if \<not> known \<and> length (contacts (i_model s)) \<ge> MAX_CONTACTS then s
         else store_text E sender ts msg_id body (if known then s else greet_stranger X sender ts s))"

definition ingest_ack :: "ustr \<Rightarrow> int \<Rightarrow> ustr list \<Rightarrow> ingest \<Rightarrow> ingest" where
  "ingest_ack sender ts ack_ids s =
     (let p = or_default pending_ack_default (bt_get (i_pending s) sender);
          p1 = (if ts > pa_ts p then p\<lparr>pa_ts := ts\<rparr> else p)
      in s\<lparr>i_pending := bt_insert sender (p1\<lparr>pa_ids := pa_ids p1 \<union> set ack_ids\<rparr>) (i_pending s)\<rparr>)"

definition update_profile :: "int \<Rightarrow> int \<Rightarrow> ustr option \<Rightarrow> ustr option \<Rightarrow> ustr option \<Rightarrow> contact \<Rightarrow> contact" where
  "update_profile ts now display_name bio photo c =
     c\<lparr>c_display_name := or_default (c_display_name c) display_name,
       c_bio := or_default (c_bio c) bio,
       c_photo := (case photo of Some p \<Rightarrow> Some p | None \<Rightarrow> c_photo c),
       c_last_profile_ts := min ts now\<rparr>"

definition ingest_profile ::
    "ustr \<Rightarrow> int \<Rightarrow> int \<Rightarrow> ustr option \<Rightarrow> ustr option \<Rightarrow> ustr option \<Rightarrow> ingest \<Rightarrow> ingest" where
  "ingest_profile sender ts now display_name bio photo s =
     (let m = i_model s
      in case bt_get (contacts m) sender of
           None \<Rightarrow> s
         | Some c \<Rightarrow>
             if ts \<ge> c_last_profile_ts c
             then s\<lparr>i_model := m\<lparr>contacts := bt_modify sender (update_profile ts now display_name bio photo)
                                   (contacts m)\<rparr>,
                    i_contacts_dirty := True\<rparr>
             else s)"

definition ingest_payload ::
    "'z app_ext_scheme \<Rightarrow> env \<Rightarrow> int \<Rightarrow> ustr \<Rightarrow> parsed_payload \<Rightarrow> ingest \<Rightarrow> ingest" where
  "ingest_payload X E now sender parsed s =
     (if sender = my_pubkey (i_model s) then s
      else if is_some_and (bt_get (contacts (i_model s)) sender) c_blocked then s
      else let ts = min (max (pp_ts parsed) 0) (sat_add now MAX_FUTURE_SKEW_MS)
           in case pp_payload parsed of
                Text msg_id body \<Rightarrow> ingest_text X E sender ts msg_id body s
              | DeliveryAck ack_ids \<Rightarrow> ingest_ack sender ts ack_ids s
              | Profile display_name bio photo \<Rightarrow> ingest_profile sender ts now display_name bio photo s)"

section \<open>The event loop\<close>

definition stop_page :: "int \<Rightarrow> ustr \<Rightarrow> ingest \<Rightarrow> ingest" where
  "stop_page prev_cursor err s =
     (let m = i_model s;
          m1 = (if i_stored s = 0 then m\<lparr>cursor := prev_cursor\<rparr> else m)
      in s\<lparr>i_model := m1\<lparr>error := Some err\<rparr>\<rparr>)"

definition TOO_MANY_EVENTS :: ustr where "TOO_MANY_EVENTS = lit ''relay sent too many poll events''"
definition OVERSIZED_PAGE :: ustr where "OVERSIZED_PAGE = lit ''relay sent an oversized poll page''"

fun ingest_events ::
    "'z app_ext_scheme \<Rightarrow> env \<Rightarrow> identity \<Rightarrow> int \<Rightarrow> int \<Rightarrow> poll_event list \<Rightarrow> ingest \<Rightarrow> ingest" where
  "ingest_events X E ident prev_cursor now [] s = s"
| "ingest_events X E ident prev_cursor now (ev # evs) s =
     (if ulen (pe_encrypted_blob ev) > MAX_BLOB_LEN * 2 then ingest_events X E ident prev_cursor now evs s
      else if i_processed s \<ge> MAX_POLL_EVENTS then stop_page prev_cursor TOO_MANY_EVENTS s
      else let s1 = s\<lparr>i_processed := i_processed s + 1\<rparr>
           in if i_budget s1 < ulen (pe_encrypted_blob ev) div 2 then stop_page prev_cursor OVERSIZED_PAGE s1
              else let s2 = s1\<lparr>i_budget := i_budget s1 - ulen (pe_encrypted_blob ev) div 2\<rparr>
                   in case hex_decode X (pe_encrypted_blob ev) of
                        None \<Rightarrow> ingest_events X E ident prev_cursor now evs s2
                      | Some blob \<Rightarrow>
                          (case decrypt X ident blob of
                             Ok dec \<Rightarrow>
                               (case parse_payload X (plaintext dec) of
                                  None \<Rightarrow> ingest_events X E ident prev_cursor now evs s2
                                | Some parsed \<Rightarrow>
                                    ingest_events X E ident prev_cursor now evs
                                      (ingest_payload X E now (sender_hex dec) parsed
                                        (s2\<lparr>i_stored := i_stored s2 + 1\<rparr>)))
                           | Err e \<Rightarrow> ingest_events X E ident prev_cursor now evs s2
                           | Panic \<Rightarrow> ingest_events X E ident prev_cursor now evs s2))"

section \<open>Deferred acknowledgements\<close>

definition mark_delivered :: "ustr set \<Rightarrow> stored_message \<Rightarrow> stored_message" where
  "mark_delivered ids m =
     (if m_outgoing m \<and> m_id m \<in> ids \<and> \<not> m_delivered m then m\<lparr>m_delivered := True\<rparr> else m)"

definition apply_ack :: "int \<Rightarrow> ustr \<Rightarrow> pending_ack \<Rightarrow> ingest \<Rightarrow> ingest" where
  "apply_ack now sender pending s =
     (let m = i_model s
      in if is_some_and (bt_get (contacts m) sender) (\<lambda>c. pa_ts pending < c_last_ack_ts c) then s
         else
           let known = (bt_get (contacts m) sender \<noteq> None);
               convo = or_default [] (bt_get (messages m) sender);
               changed = (\<exists>x\<in>set convo. m_outgoing x \<and> m_id x \<in> pa_ids pending \<and> \<not> m_delivered x)
           in s\<lparr>i_model := m\<lparr>contacts := bt_modify sender (\<lambda>c. c\<lparr>c_last_ack_ts := min (pa_ts pending) now\<rparr>) (contacts m),
                             messages := bt_modify sender (map (mark_delivered (pa_ids pending))) (messages m)\<rparr>,
                i_contacts_dirty := i_contacts_dirty s \<or> known,
                i_touched := (if changed then insert sender (i_touched s) else i_touched s)\<rparr>)"

definition apply_acks :: "env \<Rightarrow> int \<Rightarrow> ingest \<Rightarrow> ingest" where
  "apply_acks E now s =
     fold (\<lambda>sender s'. case bt_get (i_pending s) sender of None \<Rightarrow> s' | Some p \<Rightarrow> apply_ack now sender p s')
       (hash_order E (set (bt_keys (i_pending s)))) s"

section \<open>Queueing our acknowledgements\<close>

definition ack_items :: "'z app_ext_scheme \<Rightarrow> int \<Rightarrow> ustr \<Rightarrow> ustr list \<Rightarrow> outbox_item list" where
  "ack_items X ack_ts sender ids =
     map (\<lambda>b. outbox_item_new sender (serialize_payload X (DeliveryAck b) ack_ts)) (chunks MAX_ACK_IDS ids)"

definition queue_acks :: "'z app_ext_scheme \<Rightarrow> int \<Rightarrow> ingest \<Rightarrow> ingest" where
  "queue_acks X ack_ts s =
     (let m = i_model s
      in s\<lparr>i_model := m\<lparr>outbox := outbox m @ concat (map (\<lambda>(sender, ids). ack_items X ack_ts sender ids) (i_ack_targets s))\<rparr>,
           i_outbox_dirty := i_outbox_dirty s \<or> i_ack_targets s \<noteq> []\<rparr>)"

section \<open>The page\<close>

fun persist_all_messages :: "'z app_ext_scheme \<Rightarrow> ustr list \<Rightarrow> model \<Rightarrow> model \<times> cmd list" where
  "persist_all_messages X [] m = (m, [])"
| "persist_all_messages X (peer # peers) m =
     (let (m1, c1) = persist_messages X peer m; (m2, c2) = persist_all_messages X peers m1 in (m2, c1 @ c2))"

definition persist_if :: "bool \<Rightarrow> (model \<Rightarrow> model \<times> cmd list) \<Rightarrow> model \<Rightarrow> model \<times> cmd list" where
  "persist_if b persist m = (if b then persist m else (m, []))"

definition persist_page :: "'z app_ext_scheme \<Rightarrow> env \<Rightarrow> ingest \<Rightarrow> model \<times> cmd list" where
  "persist_page X E s =
     (let (m1, c1) = persist_all_messages X (hash_order E (i_touched s)) (i_model s);
          (m2, c2) = persist_if (i_touched s \<noteq> {}) (persist_seen_ids X) m1;
          (m3, c3) = persist_if (i_contacts_dirty s) (persist_contacts X) m2;
          (m4, c4) = persist_if (i_outbox_dirty s) (persist_outbox X) m3
      in (m4, c1 @ c2 @ c3 @ c4 @ [Emit StartFlush]))"

definition adopt_cursor :: "env \<Rightarrow> poll_resp \<Rightarrow> model \<Rightarrow> model" where
  "adopt_cursor E pg m =
     (let clamped_cursor = min (pr_cursor pg) (sat_add (now_ms E 0) 60000)
      in if pr_events pg \<noteq> [] \<and> clamped_cursor > cursor m then m\<lparr>cursor := clamped_cursor\<rparr> else m)"

definition ingest_page :: "'z app_ext_scheme \<Rightarrow> env \<Rightarrow> identity \<Rightarrow> int \<Rightarrow> poll_resp \<Rightarrow> model \<Rightarrow> ingest" where
  "ingest_page X E ident prev_cursor pg m =
     (let now = now_ms E 1;
          s1 = ingest_events X E ident prev_cursor now (pr_events pg) (ingest_start m);
          s2 = apply_acks E now s1
      in queue_acks X (now_ms E 2) s2)"

definition ingest_poll :: "'z app_ext_scheme \<Rightarrow> env \<Rightarrow> poll_resp \<Rightarrow> model \<Rightarrow> model \<times> cmd list" where
  "ingest_poll X E pg m =
     (if kv_load_failed m then (m, [])
      else
        let prev_cursor = cursor m;
            m1 = adopt_cursor E pg m
        in case identity_of X m1 of
             None \<Rightarrow> (m1, [])
           | Some ident \<Rightarrow> persist_page X E (ingest_page X E ident prev_cursor pg m1))"

section \<open>Invariants of the loop\<close>

text \<open>The rule every invariant of the event loop goes through: it is kept by the counters, by giving
  up on the page, and by every payload of the page that decrypts and parses.\<close>

lemma ingest_events_invariant:
  assumes start: "P s"
    and counters: "\<And>s b p st. P s \<Longrightarrow> P (s\<lparr>i_budget := b, i_processed := p, i_stored := st\<rparr>)"
    and stop: "\<And>s err. P s \<Longrightarrow> P (stop_page prev err s)"
    and payload: "\<And>s ev blob dec parsed. \<lbrakk>P s; ev \<in> set evs; hex_decode X (pe_encrypted_blob ev) = Some blob;
        decrypt X ident blob = Ok dec; parse_payload X (plaintext dec) = Some parsed\<rbrakk>
      \<Longrightarrow> P (ingest_payload X E now (sender_hex dec) parsed s)"
  shows "P (ingest_events X E ident prev now evs s)"
  using start payload
proof (induction evs arbitrary: s)
  case (Cons ev evs)
  note ctr = counters [OF Cons.prems(1)]
  have eq1: "s\<lparr>i_processed := p\<rparr> = s\<lparr>i_budget := i_budget s, i_processed := p, i_stored := i_stored s\<rparr>"
    and eq2: "s\<lparr>i_processed := p, i_budget := b\<rparr> = s\<lparr>i_budget := b, i_processed := p, i_stored := i_stored s\<rparr>"
    and eq3: "s\<lparr>i_processed := p, i_budget := b, i_stored := st\<rparr> = s\<lparr>i_budget := b, i_processed := p, i_stored := st\<rparr>"
    for p b st by simp_all
  have c1: "P (s\<lparr>i_processed := p\<rparr>)" and c2: "P (s\<lparr>i_processed := p, i_budget := b\<rparr>)"
    and c3: "P (s\<lparr>i_processed := p, i_budget := b, i_stored := st\<rparr>)" for p b st
    by (subst eq1, rule ctr) (subst eq2, rule ctr, subst eq3, rule ctr)
  have IH: "P t \<Longrightarrow> P (ingest_events X E ident prev now evs t)" for t
    using Cons.IH Cons.prems(2) by (meson list.set_intros(2))
  have pay: "P (ingest_payload X E now (sender_hex dec) parsed (s\<lparr>i_processed := p, i_budget := b, i_stored := st\<rparr>))"
    if "hex_decode X (pe_encrypted_blob ev) = Some blob" "decrypt X ident blob = Ok dec"
      "parse_payload X (plaintext dec) = Some parsed" for p b st blob dec parsed
    using Cons.prems(2) [OF c3 _ that] by simp
  show ?case
    by (auto simp: Let_def split: option.split outcome.split intro!: IH pay c1 c2 stop Cons.prems(1))
qed simp

definition blocked :: "model \<Rightarrow> ustr \<Rightarrow> bool" where
  "blocked m p \<longleftrightarrow> is_some_and (bt_get (contacts m) p) c_blocked"

lemma ingest_payload_invariant:
  assumes "P s"
    and "\<And>ts i body. \<lbrakk>sender \<noteq> my_pubkey (i_model s); \<not> blocked (i_model s) sender; pp_payload parsed = Text i body;
        ts = min (max (pp_ts parsed) 0) (sat_add now MAX_FUTURE_SKEW_MS)\<rbrakk>
      \<Longrightarrow> P (ingest_text X E sender ts i body s)"
    and "\<And>ts ids. \<lbrakk>sender \<noteq> my_pubkey (i_model s); \<not> blocked (i_model s) sender; pp_payload parsed = DeliveryAck ids\<rbrakk>
      \<Longrightarrow> P (ingest_ack sender ts ids s)"
    and "\<And>ts n b ph. \<lbrakk>sender \<noteq> my_pubkey (i_model s); \<not> blocked (i_model s) sender; pp_payload parsed = Profile n b ph\<rbrakk>
      \<Longrightarrow> P (ingest_profile sender ts now n b ph s)"
  shows "P (ingest_payload X E now sender parsed s)"
  using assms by (auto simp: ingest_payload_def blocked_def Let_def split: payload.splits)

lemma ingest_text_invariant:
  assumes "P s"
    and "\<And>s. P s \<Longrightarrow> bt_get (contacts (i_model s)) sender = None \<Longrightarrow>
      length (contacts (i_model s)) < MAX_CONTACTS \<Longrightarrow> P (greet_stranger X sender ts s)"
    and "\<And>s. P s \<Longrightarrow> P (store_text E sender ts i body s)"
  shows "P (ingest_text X E sender ts i body s)"
  using assms by (auto simp: ingest_text_def Let_def not_le)

lemma apply_acks_invariant:
  assumes "P s"
    and "\<And>s' sender p. P s' \<Longrightarrow> bt_get (i_pending s) sender = Some p \<Longrightarrow> P (apply_ack now sender p s')"
  shows "P (apply_acks E now s)"
proof -
  have "P (fold (\<lambda>sender s'. case bt_get (i_pending s) sender of None \<Rightarrow> s' | Some p \<Rightarrow> apply_ack now sender p s') xs t)"
    if "P t" for xs t
    using that by (induction xs arbitrary: t) (auto split: option.splits intro: assms(2))
  then show ?thesis using assms(1) by (simp add: apply_acks_def)
qed

lemmas ingest_defs = store_text_def greet_stranger_def ingest_ack_def ingest_profile_def apply_ack_def
  stop_page_def queue_acks_def ingest_start_def

text \<open>A page changes contacts, messages, dedup sets, outbox, cursor and error, nothing else.\<close>

definition ingest_frame :: "model \<Rightarrow> model \<Rightarrow> bool" where
  "ingest_frame m0 m \<longleftrightarrow>
     m = m0\<lparr>contacts := contacts m, messages := messages m, seen_ids := seen_ids m, outbox := outbox m,
            cursor := cursor m, error := error m\<rparr>"

lemma ingest_frame_refl [simp]: "ingest_frame m m"
  by (simp add: ingest_frame_def)

lemma ingest_frame_update:
  "ingest_frame m0 m \<Longrightarrow> ingest_frame m0 (m\<lparr>contacts := a, messages := b, seen_ids := c, outbox := d, cursor := e, error := f\<rparr>)"
  by (cases m0; cases m) (simp add: ingest_frame_def)

lemma ingest_frame_trans:
  assumes "ingest_frame a b" "ingest_frame b c"
  shows "ingest_frame a c"
proof -
  have "c = b\<lparr>contacts := contacts c, messages := messages c, seen_ids := seen_ids c, outbox := outbox c,
      cursor := cursor c, error := error c\<rparr>"
    using assms(2) by (simp only: ingest_frame_def)
  then show ?thesis using ingest_frame_update [OF assms(1)] by (metis (no_types))
qed

lemma ingest_frame_updates:
  assumes "ingest_frame m0 m"
  shows "ingest_frame m0 (m\<lparr>contacts := a\<rparr>)" "ingest_frame m0 (m\<lparr>contacts := a, outbox := d\<rparr>)"
    "ingest_frame m0 (m\<lparr>messages := b, seen_ids := c\<rparr>)" "ingest_frame m0 (m\<lparr>contacts := a, messages := b\<rparr>)"
    "ingest_frame m0 (m\<lparr>outbox := d\<rparr>)" "ingest_frame m0 (m\<lparr>cursor := e\<rparr>)" "ingest_frame m0 (m\<lparr>error := f\<rparr>)"
    "ingest_frame m0 (m\<lparr>cursor := e, error := f\<rparr>)"
  using assms by (cases m0; cases m; simp add: ingest_frame_def)+

lemma ingest_frame_fields:
  assumes "ingest_frame m0 m"
  shows "kv_load_failed m = kv_load_failed m0" "my_pubkey m = my_pubkey m0" "secret_key m = secret_key m0"
    "settings m = settings m0" "token m = token m0" "polling m = polling m0" "poll_gen m = poll_gen m0"
    "authenticating m = authenticating m0" "auth_gen m = auth_gen m0" "flushing m = flushing m0"
    "flush_gen m = flush_gen m0" "in_flight m = in_flight m0" "loads_pending m = loads_pending m0"
    "profile m = profile m0" "conn m = conn m0" "poll_retries m = poll_retries m0"
    "flush_paused_until m = flush_paused_until m0"
  using assms by (cases m0; cases m; simp add: ingest_frame_def)+

lemma frame_payload:
  assumes "ingest_frame m0 (i_model s)"
  shows "ingest_frame m0 (i_model (ingest_payload X E now sender parsed s))"
  using assms
  by (intro ingest_payload_invariant [where P = "\<lambda>s. ingest_frame m0 (i_model s)"]
      ingest_text_invariant [where P = "\<lambda>s. ingest_frame m0 (i_model s)"])
    (auto simp: ingest_defs Let_def ingest_frame_updates split: option.splits)

lemma frame_events:
  assumes "ingest_frame m0 (i_model s)"
  shows "ingest_frame m0 (i_model (ingest_events X E ident prev now evs s))"
  using assms
  by (intro ingest_events_invariant [where P = "\<lambda>s. ingest_frame m0 (i_model s)"] frame_payload)
    (auto simp: ingest_defs Let_def ingest_frame_updates)

lemma frame_page: "ingest_frame m (i_model (ingest_page X E ident prev pg m))"
proof -
  have "ingest_frame m (i_model (ingest_events X E ident prev (now_ms E 1) (pr_events pg) (ingest_start m)))"
    by (intro frame_events) (simp add: ingest_start_def)
  then have "ingest_frame m (i_model (apply_acks E (now_ms E 1)
      (ingest_events X E ident prev (now_ms E 1) (pr_events pg) (ingest_start m))))"
    by (intro apply_acks_invariant [where P = "\<lambda>s. ingest_frame m (i_model s)"])
      (auto simp: ingest_defs Let_def ingest_frame_updates)
  then show ?thesis
    by (simp add: ingest_page_def Let_def queue_acks_def ingest_frame_updates)
qed

end
