(* ===== verification/Ingest_Invariants.thy ===== *)
theory Ingest_Invariants
  imports Ingest
begin

text \<open>
  What the receiving loop keeps: who can change what, well-formed tables, duplicates, the origin of
  messages and delivery marks, and the coverage of the dirty flags. Each invariant is shown for every
  payload and lifted to a page by the rules of \<open>Ingest\<close>.
\<close>

section \<open>Who can change what\<close>

text \<open>Peers the client does not listen to: blocked contacts and its own key.\<close>

definition shut_out :: "model \<Rightarrow> ustr \<Rightarrow> bool" where
  "shut_out m p \<longleftrightarrow> blocked m p \<or> p = my_pubkey m"

definition gated :: "model \<Rightarrow> ingest \<Rightarrow> bool" where
  "gated m0 s \<longleftrightarrow>
     my_pubkey (i_model s) = my_pubkey m0 \<and> (\<forall>p. blocked (i_model s) p = blocked m0 p) \<and>
     (\<forall>p. shut_out m0 p \<longrightarrow>
        bt_get (contacts (i_model s)) p = bt_get (contacts m0) p \<and>
        bt_get (messages (i_model s)) p = bt_get (messages m0) p \<and>
        bt_get (seen_ids (i_model s)) p = bt_get (seen_ids m0) p \<and>
        p \<notin> i_touched s \<and> p \<notin> set (bt_keys (i_ack_targets s)) \<and> bt_get (i_pending s) p = None) \<and>
     (\<exists>new. outbox (i_model s) = outbox m0 @ new \<and> (\<forall>i\<in>set new. \<not> shut_out m0 (o_recipient i)))"

lemma gated_start: "my_pubkey m = my_pubkey m0 \<Longrightarrow> contacts m = contacts m0 \<Longrightarrow> messages m = messages m0 \<Longrightarrow>
    seen_ids m = seen_ids m0 \<Longrightarrow> outbox m = outbox m0 \<Longrightarrow> gated m0 (ingest_start m)"
  by (simp add: gated_def ingest_start_def blocked_def bt_keys_def)

lemma gated_open: "gated m0 s \<Longrightarrow> sender \<noteq> my_pubkey (i_model s) \<Longrightarrow> \<not> blocked (i_model s) sender \<Longrightarrow> \<not> shut_out m0 sender"
  by (auto simp: gated_def shut_out_def)

lemma blocked_modify:
  "(\<And>c. c_blocked (f c) = c_blocked c) \<Longrightarrow> blocked (m\<lparr>contacts := bt_modify p f (contacts m)\<rparr>) q = blocked m q"
  by (auto simp: blocked_def is_some_and_def bt_get_simps split: option.splits)

lemma gated_greet:
  assumes "gated m0 s" "\<not> shut_out m0 sender" "bt_get (contacts (i_model s)) sender = None"
  shows "gated m0 (greet_stranger X sender ts s)"
proof -
  have "blocked (i_model (greet_stranger X sender ts s)) p = blocked (i_model s) p" for p
    using assms(3) by (simp add: greet_stranger_def blocked_def Let_def bt_get_simps is_some_and_def)
  then show ?thesis
    using assms by (auto simp: gated_def greet_stranger_def Let_def bt_get_simps)
qed

lemma gated_store:
  assumes "gated m0 s" "\<not> shut_out m0 sender"
  shows "gated m0 (store_text E sender ts i body s)"
proof -
  have "contacts (i_model (store_text E sender ts i body s)) = contacts (i_model s)"
    "outbox (i_model (store_text E sender ts i body s)) = outbox (i_model s)"
    "my_pubkey (i_model (store_text E sender ts i body s)) = my_pubkey (i_model s)"
    "i_pending (store_text E sender ts i body s) = i_pending s"
    by (simp_all add: store_text_def Let_def)
  moreover have "p \<noteq> sender \<Longrightarrow>
      bt_get (messages (i_model (store_text E sender ts i body s))) p = bt_get (messages (i_model s)) p \<and>
      bt_get (seen_ids (i_model (store_text E sender ts i body s))) p = bt_get (seen_ids (i_model s)) p \<and>
      (p \<in> i_touched (store_text E sender ts i body s) \<longleftrightarrow> p \<in> i_touched s) \<and>
      (p \<in> set (bt_keys (i_ack_targets (store_text E sender ts i body s))) \<longleftrightarrow> p \<in> set (bt_keys (i_ack_targets s)))" for p
    by (simp add: store_text_def Let_def bt_get_simps set_keys_insert)
  ultimately show ?thesis
    using assms unfolding gated_def blocked_def by metis
qed

lemma gated_ack: "gated m0 s \<Longrightarrow> \<not> shut_out m0 sender \<Longrightarrow> gated m0 (ingest_ack sender ts ids s)"
  by (auto simp: gated_def ingest_ack_def Let_def bt_get_simps)

lemma gated_profile:
  assumes "gated m0 s" "\<not> shut_out m0 sender"
  shows "gated m0 (ingest_profile sender ts now n b ph s)"
proof (cases "bt_get (contacts (i_model s)) sender")
  case (Some c)
  have "blocked ((i_model s)\<lparr>contacts := bt_modify sender (update_profile ts now n b ph) (contacts (i_model s))\<rparr>) p =
      blocked (i_model s) p" for p
    by (rule blocked_modify) (simp add: update_profile_def)
  with assms Some show ?thesis
    by (auto simp: gated_def ingest_profile_def Let_def bt_get_simps)
qed (use assms in \<open>simp add: ingest_profile_def Let_def\<close>)

lemma gated_payload:
  assumes "gated m0 s"
  shows "gated m0 (ingest_payload X E now sender parsed s)"
  using assms gated_open [OF assms]
  by (intro ingest_payload_invariant [where P = "gated m0"] ingest_text_invariant [where P = "gated m0"])
    (auto intro: gated_greet gated_store gated_ack gated_profile)

lemma gated_stop: "gated m0 s \<Longrightarrow> gated m0 (stop_page prev err s)"
  by (simp add: gated_def stop_page_def Let_def blocked_def)

lemma gated_counters: "gated m0 s \<Longrightarrow> gated m0 (s\<lparr>i_budget := b, i_processed := p, i_stored := st\<rparr>)"
  by (simp add: gated_def)

lemma gated_events: "gated m0 s \<Longrightarrow> gated m0 (ingest_events X E ident prev now evs s)"
  by (rule ingest_events_invariant [where P = "gated m0"])
    (simp_all add: gated_payload gated_stop gated_counters)

lemma gated_apply:
  assumes "gated m0 s" "\<not> shut_out m0 sender"
  shows "gated m0 (apply_ack now sender p s)"
proof -
  let ?f = "\<lambda>c. c\<lparr>c_last_ack_ts := min (pa_ts p) now\<rparr>"
  have "blocked ((i_model s)\<lparr>contacts := bt_modify sender ?f (contacts (i_model s)), messages := l\<rparr>) q =
      blocked (i_model s) q" for l q
    using blocked_modify [where f = ?f and m = "i_model s" and p = sender and q = q] by (simp add: blocked_def)
  with assms show ?thesis
    by (auto simp: gated_def apply_ack_def Let_def bt_get_simps)
qed

lemma gated_acks:
  assumes "gated m0 s"
  shows "gated m0 (apply_acks E now s)"
proof (rule apply_acks_invariant [where P = "gated m0", OF assms])
  fix s' sender p
  assume "gated m0 s'" "bt_get (i_pending s) sender = Some p"
  moreover from this assms have "\<not> shut_out m0 sender" by (auto simp: gated_def)
  ultimately show "gated m0 (apply_ack now sender p s')" by (intro gated_apply)
qed

lemma ack_items_recipient: "i \<in> set (ack_items X t p ids) \<Longrightarrow> o_recipient i = p"
  by (auto simp: ack_items_def)

lemma queued_ack_recipient:
  "i \<in> set (concat (map (\<lambda>(p, ids). ack_items X t p ids) targets)) \<Longrightarrow> o_recipient i \<in> set (bt_keys targets)"
  by (force simp: bt_keys_def dest: ack_items_recipient)

lemma gated_queue:
  assumes "gated m0 s"
  shows "gated m0 (queue_acks X t s)"
proof -
  let ?acks = "concat (map (\<lambda>(p, ids). ack_items X t p ids) (i_ack_targets s))"
  from assms obtain new where new: "outbox (i_model s) = outbox m0 @ new" "\<forall>i\<in>set new. \<not> shut_out m0 (o_recipient i)"
    by (auto simp: gated_def)
  have "\<forall>i\<in>set ?acks. \<not> shut_out m0 (o_recipient i)"
    using assms queued_ack_recipient unfolding gated_def by blast
  with new have "outbox (i_model (queue_acks X t s)) = outbox m0 @ (new @ ?acks) \<and>
      (\<forall>i\<in>set (new @ ?acks). \<not> shut_out m0 (o_recipient i))"
    by (simp add: queue_acks_def Let_def ball_Un)
  moreover have "blocked (i_model (queue_acks X t s)) p = blocked (i_model s) p" for p
    by (simp add: queue_acks_def Let_def blocked_def)
  ultimately show ?thesis
    using assms unfolding gated_def by (auto simp: queue_acks_def Let_def)
qed

lemma gated_page:
  assumes "my_pubkey m = my_pubkey m0" "contacts m = contacts m0" "messages m = messages m0"
    "seen_ids m = seen_ids m0" "outbox m = outbox m0"
  shows "gated m0 (ingest_page X E ident prev pg m)"
  unfolding ingest_page_def Let_def using assms by (intro gated_queue gated_acks gated_events gated_start)

section \<open>Well-formed contacts and conversations\<close>

definition contacts_ok :: "model \<Rightarrow> bool" where
  "contacts_ok m \<longleftrightarrow> bt_wf (contacts m) \<and> (\<forall>k c. bt_get (contacts m) k = Some c \<longrightarrow> c_pubkey c = k)"

definition history_ok :: "model \<Rightarrow> bool" where
  "history_ok m \<longleftrightarrow> bt_wf (messages m) \<and> (\<forall>p l. bt_get (messages m) p = Some l \<longrightarrow> convo_ok l)"

definition tables_ok :: "nat \<Rightarrow> ingest \<Rightarrow> bool" where
  "tables_ok n s \<longleftrightarrow> contacts_ok (i_model s) \<and> history_ok (i_model s) \<and>
     length (contacts (i_model s)) \<le> max n MAX_CONTACTS"

lemma contacts_ok_insert:
  "contacts_ok m \<Longrightarrow> c_pubkey c = k \<Longrightarrow> contacts_ok (m\<lparr>contacts := bt_insert k c (contacts m)\<rparr>)"
  by (simp add: contacts_ok_def bt.invar_insert bt_get_simps)

lemma contacts_ok_modify:
  "contacts_ok m \<Longrightarrow> (\<And>c. c_pubkey (f c) = c_pubkey c) \<Longrightarrow> contacts_ok (m\<lparr>contacts := bt_modify k f (contacts m)\<rparr>)"
  by (auto simp: contacts_ok_def bt.invar_modify bt_get_simps)

lemma history_ok_insert:
  "history_ok m \<Longrightarrow> convo_ok l \<Longrightarrow> history_ok (m\<lparr>messages := bt_insert k l (messages m)\<rparr>)"
  by (simp add: history_ok_def bt.invar_insert bt_get_simps)

lemma history_ok_get: "history_ok m \<Longrightarrow> convo_ok (or_default [] (bt_get (messages m) p))"
  by (auto simp: history_ok_def or_default_def split: option.split)

lemma convo_ok_mark: "convo_ok (map (mark_delivered ids) l) = convo_ok l"
proof -
  have "map m_ts (map (mark_delivered ids) l) = map m_ts l"
    by (simp add: mark_delivered_def)
  then show ?thesis by (simp add: convo_ok_def by_ts_def del: map_map)
qed

lemma contacts_ok_cong: "contacts m = contacts m' \<Longrightarrow> contacts_ok m = contacts_ok m'"
  by (simp add: contacts_ok_def)

lemma history_ok_cong: "messages m = messages m' \<Longrightarrow> history_ok m = history_ok m'"
  by (simp add: history_ok_def)

lemma tables_greet:
  "tables_ok n s \<Longrightarrow> length (contacts (i_model s)) < MAX_CONTACTS \<Longrightarrow> tables_ok n (greet_stranger X sender ts s)"
  by (auto simp: tables_ok_def greet_stranger_def Let_def contacts_ok_def history_ok_def bt.invar_insert bt_get_simps
      length_bt_insert)

lemma tables_store: "tables_ok n s \<Longrightarrow> tables_ok n (store_text E sender ts i body s)"
  using history_ok_get [of "i_model s" sender]
  by (auto simp: tables_ok_def store_text_def Let_def contacts_ok_def history_ok_def bt.invar_insert bt_get_simps
      convo_ok_store)

lemma tables_payload:
  assumes "tables_ok n s"
  shows "tables_ok n (ingest_payload X E now sender parsed s)"
  using assms
  by (intro ingest_payload_invariant [where P = "tables_ok n"] ingest_text_invariant [where P = "tables_ok n"])
    (auto simp: tables_greet tables_store, auto simp: tables_ok_def ingest_ack_def ingest_profile_def Let_def
      contacts_ok_def history_ok_def bt.invar_modify bt_get_simps update_profile_def split: option.splits)

lemma tables_apply: "tables_ok n s \<Longrightarrow> tables_ok n (apply_ack now sender p s)"
  by (auto simp: tables_ok_def apply_ack_def Let_def contacts_ok_def history_ok_def bt.invar_modify bt_get_simps
      convo_ok_mark)

lemma tables_page:
  assumes "contacts_ok m" "history_ok m"
  shows "tables_ok (length (contacts m)) (ingest_page X E ident prev pg m)"
proof -
  let ?T = "tables_ok (length (contacts m))"
  have "?T (ingest_events X E ident prev (now_ms E 1) (pr_events pg) (ingest_start m))"
    by (rule ingest_events_invariant [where P = ?T], simp_all add: tables_payload)
      (use assms in \<open>auto simp: tables_ok_def stop_page_def ingest_start_def Let_def contacts_ok_def history_ok_def\<close>)
  then have "?T (apply_acks E (now_ms E 1) (ingest_events X E ident prev (now_ms E 1) (pr_events pg) (ingest_start m)))"
    by (intro apply_acks_invariant [where P = ?T]) (simp_all add: tables_apply)
  then show ?thesis
    by (simp add: ingest_page_def Let_def queue_acks_def tables_ok_def contacts_ok_def history_ok_def)
qed

section \<open>Duplicates\<close>

definition env_ok :: "env \<Rightarrow> bool" where
  "env_ok E \<longleftrightarrow> (\<forall>S. finite S \<longrightarrow> set (hash_order E S) = S \<and> distinct (hash_order E S))"

definition incoming :: "stored_message list \<Rightarrow> ustr list" where
  "incoming l = map m_id (filter (\<lambda>x. \<not> m_outgoing x) l)"

text \<open>No conversation holds two incoming messages with one id, every incoming id is in the dedup set
  (an empty set is rebuilt from the conversation before use), and the sets are within their cap.\<close>

definition dedup_ok :: "model \<Rightarrow> bool" where
  "dedup_ok m \<longleftrightarrow>
     (\<forall>p l. bt_get (messages m) p = Some l \<longrightarrow> distinct (incoming l) \<and>
        (\<forall>ids. bt_get (seen_ids m) p = Some ids \<longrightarrow> ids \<noteq> {} \<longrightarrow> set (incoming l) \<subseteq> ids)) \<and>
     (\<forall>p ids. bt_get (seen_ids m) p = Some ids \<longrightarrow> finite ids \<and> card ids \<le> MAX_SEEN_IDS_PER_PEER)"

lemma set_incoming: "set (incoming l) \<subseteq> set (map m_id l)"
  by (auto simp: incoming_def)

lemma incoming_insert:
  "mset (incoming (insert_sorted l x)) = mset (incoming l) + (if m_outgoing x then {#} else {#m_id x#})"
  by (simp add: incoming_def mset_insert_sorted)

lemma incoming_drop: "distinct (incoming l) \<Longrightarrow> distinct (incoming (drop n l)) \<and> set (incoming (drop n l)) \<subseteq> set (incoming l)"
proof -
  assume "distinct (incoming l)"
  moreover have "incoming l = incoming (take n l) @ incoming (drop n l)"
    by (simp add: incoming_def flip: map_append filter_append)
  ultimately show ?thesis by simp
qed

lemma cap_seen_subset: "cap_seen_ids E convo ids \<subseteq> ids"
  by (auto simp: cap_seen_ids_def Let_def)

lemma cap_seen_keeps: "i \<in> ids \<Longrightarrow> i \<in> set (map m_id convo) \<Longrightarrow> i \<in> cap_seen_ids E convo ids"
  by (auto simp: cap_seen_ids_def Let_def dest: in_set_takeD)

lemma cap_seen_card:
  assumes E: "env_ok E" and fin: "finite ids" and convo: "length convo \<le> MAX_SEEN_IDS_PER_PEER"
  shows "card (cap_seen_ids E convo ids) \<le> MAX_SEEN_IDS_PER_PEER"
proof (cases "card ids > MAX_SEEN_IDS_PER_PEER")
  case True
  let ?c = "set (map m_id convo)" and ?k = "card ids - MAX_SEEN_IDS_PER_PEER"
  let ?f = "filter (\<lambda>i. i \<notin> ?c) (hash_order E ids)"
  have ho: "set (hash_order E ids) = ids" "distinct (hash_order E ids)"
    using E fin by (auto simp: env_ok_def)
  have "card ?c \<le> MAX_SEEN_IDS_PER_PEER"
    using convo card_length [of "map m_id convo"] by simp
  moreover have "card ids \<le> card (ids - ?c) + card ?c"
  proof -
    have "card ids \<le> card ((ids - ?c) \<union> ?c)" using fin by (intro card_mono) auto
    then show ?thesis using card_Un_le [of "ids - ?c" ?c] by linarith
  qed
  moreover have "length ?f = card (ids - ?c)"
    using ho distinct_card [of ?f] by (auto simp: set_diff_eq intro: arg_cong [where f = card])
  ultimately have "?k \<le> length ?f" by linarith
  then have "card (set (take ?k ?f)) = ?k"
    using ho by (simp add: distinct_card)
  moreover have "set (take ?k ?f) \<subseteq> ids"
    using ho set_take_subset [of ?k ?f] by auto
  ultimately have "card (ids - set (take ?k ?f)) = card ids - ?k"
    using fin by (simp add: card_Diff_subset finite_subset)
  then show ?thesis
    using True by (simp add: cap_seen_ids_def Let_def)
qed (simp add: cap_seen_ids_def)

lemma dedup_store:
  assumes E: "env_ok E" and d: "dedup_ok (i_model s)" and h: "history_ok (i_model s)"
  shows "dedup_ok (i_model (store_text E sender ts i body s))"
proof -
  define convo where "convo = or_default [] (bt_get (messages (i_model s)) sender)"
  define ids0 where "ids0 = or_default {} (bt_get (seen_ids (i_model s)) sender)"
  define ids where "ids = (if ids0 = {} then set (map m_id convo) else ids0)"
  define x where "x = \<lparr>m_id = i, m_body = body, m_ts = ts, m_outgoing = False, m_delivered = False\<rparr>"
  define convo1 where "convo1 = insert_sorted convo x"
  have ok: "convo_ok convo" using history_ok_get [OF h] by (simp add: convo_def)
  have dist: "distinct (incoming convo)"
    using d by (auto simp: dedup_ok_def convo_def or_default_def incoming_def split: option.splits)
  have sub: "set (incoming convo) \<subseteq> ids"
  proof (cases "ids0 = {}")
    case True
    then show ?thesis using set_incoming by (auto simp: ids_def)
  next
    case False
    then have "bt_get (seen_ids (i_model s)) sender = Some ids0"
      by (auto simp: ids0_def or_default_def split: option.splits)
    with d False show ?thesis
      by (cases "bt_get (messages (i_model s)) sender")
        (simp_all add: dedup_ok_def convo_def or_default_def ids_def incoming_def)
  qed
  have len: "length convo \<le> MAX_MESSAGES_PER_PEER" using ok by (simp add: convo_ok_def)
  have fin: "finite ids \<and> card ids \<le> MAX_SEEN_IDS_PER_PEER"
  proof (cases "ids0 = {}")
    case True
    then show ?thesis
      using len card_length [of "map m_id convo"] by (simp add: ids_def size_caps)
  next
    case False
    then show ?thesis using d by (auto simp: dedup_ok_def ids0_def ids_def or_default_def split: option.splits)
  qed
  have len1: "length convo1 \<le> MAX_SEEN_IDS_PER_PEER"
    using len mset_insert_sorted [of convo x, THEN arg_cong, of size] by (simp add: convo1_def size_caps)
  have m1: "mset (incoming convo1) = add_mset i (mset (incoming convo))"
    using incoming_insert [of convo x] by (simp add: convo1_def x_def)
  have new: "distinct (incoming (trim_history convo1)) \<and>
      set (incoming (trim_history convo1)) \<subseteq> cap_seen_ids E convo1 (insert i ids)" if "i \<notin> ids"
  proof -
    have "distinct (incoming convo1)"
      using m1 that sub dist by (metis distinct.simps(2) mset.simps(2) mset_eq_imp_distinct_iff subsetD)
    then have "distinct (incoming (trim_history convo1)) \<and> set (incoming (trim_history convo1)) \<subseteq> set (incoming convo1)"
      unfolding convo.trim_eq by (rule incoming_drop)
    moreover have "set (incoming convo1) \<subseteq> insert i ids"
      using arg_cong [OF m1, of set_mset] sub by auto
    ultimately show ?thesis using set_incoming [of convo1] cap_seen_keeps [of _ "insert i ids" convo1 E] by blast
  qed
  have eq: "i_model (store_text E sender ts i body s) =
    (if i \<in> ids then (i_model s)\<lparr>messages := bt_insert sender convo (messages (i_model s)),
                        seen_ids := bt_insert sender ids (seen_ids (i_model s))\<rparr>
     else (i_model s)\<lparr>messages := bt_insert sender (trim_history convo1) (messages (i_model s)),
                      seen_ids := bt_insert sender (cap_seen_ids E convo1 (insert i ids)) (seen_ids (i_model s))\<rparr>)"
    by (simp add: store_text_def Let_def convo_def ids0_def ids_def convo1_def x_def)
  have "finite (cap_seen_ids E convo1 (insert i ids))" "card (cap_seen_ids E convo1 (insert i ids)) \<le> MAX_SEEN_IDS_PER_PEER"
    using cap_seen_card [OF E _ len1, of "insert i ids"] cap_seen_subset [of E convo1 "insert i ids"] fin
    by (auto intro: finite_subset)
  then show ?thesis
    using d dist sub fin new unfolding eq by (auto simp: dedup_ok_def bt_get_simps)
qed

lemma incoming_mark: "incoming (map (mark_delivered ids) l) = incoming l"
  by (induction l) (simp_all add: incoming_def mark_delivered_def)

lemma dedup_payload:
  assumes "env_ok E" "tables_ok n s \<and> dedup_ok (i_model s)"
  shows "tables_ok n (ingest_payload X E now sender parsed s) \<and> dedup_ok (i_model (ingest_payload X E now sender parsed s))"
  using assms(2)
proof (intro ingest_payload_invariant [where P = "\<lambda>s. tables_ok n s \<and> dedup_ok (i_model s)"]
    ingest_text_invariant [where P = "\<lambda>s. tables_ok n s \<and> dedup_ok (i_model s)"], goal_cases)
  case (3 ts i body s')
  then show ?case by (simp add: tables_greet) (simp add: greet_stranger_def Let_def dedup_ok_def)
next
  case (4 ts i body s')
  then have "history_ok (i_model s')" by (simp add: tables_ok_def)
  with 4 show ?case using dedup_store [OF assms(1)] tables_store by blast
qed (auto simp: tables_ok_def ingest_ack_def ingest_profile_def Let_def dedup_ok_def
      contacts_ok_def history_ok_def bt.invar_modify bt_get_simps update_profile_def split: option.splits)

lemma dedup_apply:
  assumes "dedup_ok (i_model s)"
  shows "dedup_ok (i_model (apply_ack now sender p s))"
proof -
  have seen: "seen_ids (i_model (apply_ack now sender p s)) = seen_ids (i_model s)"
    by (simp add: apply_ack_def Let_def)
  have "distinct (incoming l) \<and>
      (\<forall>ids. bt_get (seen_ids (i_model s)) q = Some ids \<longrightarrow> ids \<noteq> {} \<longrightarrow> set (incoming l) \<subseteq> ids)"
    if l: "bt_get (messages (i_model (apply_ack now sender p s))) q = Some l" for q l
  proof -
    obtain l0 where "bt_get (messages (i_model s)) q = Some l0" "incoming l = incoming l0"
      using l by (auto simp: apply_ack_def Let_def bt_get_simps incoming_mark split: if_splits)
    with assms show ?thesis by (simp add: dedup_ok_def)
  qed
  with assms show ?thesis
    unfolding dedup_ok_def seen by blast
qed

lemma dedup_page:
  assumes "env_ok E" "contacts_ok m" "history_ok m" "dedup_ok m"
  shows "dedup_ok (i_model (ingest_page X E ident prev pg m))"
proof -
  let ?P = "\<lambda>s. tables_ok (length (contacts m)) s \<and> dedup_ok (i_model s)"
  have "?P (ingest_events X E ident prev (now_ms E 1) (pr_events pg) (ingest_start m))"
  proof (rule ingest_events_invariant [where P = ?P], goal_cases)
    case (4 s ev blob dec parsed)
    then show ?case by (intro dedup_payload [OF assms(1)])
  qed (use assms in \<open>auto simp: tables_ok_def stop_page_def ingest_start_def Let_def contacts_ok_def history_ok_def
         dedup_ok_def\<close>)
  then have "?P (apply_acks E (now_ms E 1) (ingest_events X E ident prev (now_ms E 1) (pr_events pg) (ingest_start m)))"
    by (intro apply_acks_invariant [where P = ?P]) (simp_all add: tables_apply dedup_apply)
  then show ?thesis
    by (simp add: ingest_page_def Let_def queue_acks_def dedup_ok_def)
qed

section \<open>Where the contents come from\<close>

definition event_payload :: "'z app_ext_scheme \<Rightarrow> identity \<Rightarrow> poll_event \<Rightarrow> ustr \<Rightarrow> payload \<Rightarrow> bool" where
  "event_payload X ident ev sender p \<longleftrightarrow>
     (\<exists>blob dec parsed. hex_decode X (pe_encrypted_blob ev) = Some blob \<and> decrypt X ident blob = Ok dec \<and>
        sender_hex dec = sender \<and> parse_payload X (plaintext dec) = Some parsed \<and> pp_payload parsed = p)"

text \<open>A message of a conversation was there before, or was there before and is now marked delivered
  because the peer acknowledged it, or is the contents of an event of the page signed by the peer.\<close>

definition accounted :: "'z app_ext_scheme \<Rightarrow> identity \<Rightarrow> poll_event list \<Rightarrow> model \<Rightarrow> ustr \<Rightarrow> stored_message \<Rightarrow> bool" where
  "accounted X ident evs m0 p x \<longleftrightarrow>
     (\<exists>x0\<in>set (or_default [] (bt_get (messages m0) p)).
        x = x0 \<or> (m_outgoing x0 \<and> x = x0\<lparr>m_delivered := True\<rparr> \<and>
          (\<exists>ev\<in>set evs. \<exists>ids. event_payload X ident ev p (DeliveryAck ids) \<and> m_id x0 \<in> set ids))) \<or>
     (\<not> m_outgoing x \<and> \<not> m_delivered x \<and> (\<exists>ev\<in>set evs. event_payload X ident ev p (Text (m_id x) (m_body x))))"

definition authentic :: "'z app_ext_scheme \<Rightarrow> identity \<Rightarrow> poll_event list \<Rightarrow> model \<Rightarrow> ingest \<Rightarrow> bool" where
  "authentic X ident evs m0 s \<longleftrightarrow>
     (\<forall>p. \<forall>x\<in>set (or_default [] (bt_get (messages (i_model s)) p)). accounted X ident evs m0 p x) \<and>
     (\<forall>p pa. bt_get (i_pending s) p = Some pa \<longrightarrow>
        (\<forall>i\<in>pa_ids pa. \<exists>ev\<in>set evs. \<exists>ids. event_payload X ident ev p (DeliveryAck ids) \<and> i \<in> set ids))"

lemma authentic_start: "messages m = messages m0 \<Longrightarrow> authentic X ident evs m0 (ingest_start m)"
  by (auto simp: authentic_def ingest_start_def accounted_def)

lemma authentic_store:
  assumes "authentic X ident evs m0 s" "ev \<in> set evs" "event_payload X ident ev sender (Text i body)"
  shows "authentic X ident evs m0 (store_text E sender ts i body s)"
proof -
  define convo where "convo = or_default [] (bt_get (messages (i_model s)) sender)"
  define x where "x = \<lparr>m_id = i, m_body = body, m_ts = ts, m_outgoing = False, m_delivered = False\<rparr>"
  have old: "\<forall>y\<in>set convo. accounted X ident evs m0 sender y"
    using assms(1) by (simp add: authentic_def convo_def)
  have "accounted X ident evs m0 sender x"
    using assms(2,3) by (auto simp: accounted_def x_def)
  then have "\<forall>y\<in>set (trim_history (insert_sorted convo x)). accounted X ident evs m0 sender y"
    using old convo.set_store [of convo x] by blast
  with old assms(1) show ?thesis
    by (auto simp: authentic_def store_text_def Let_def bt_get_simps or_default_def [of _ "Some _"]
        simp flip: convo_def x_def)
qed

lemma authentic_payload:
  assumes "authentic X ident evs m0 s" "ev \<in> set evs" "event_payload X ident ev sender (pp_payload parsed)"
  shows "authentic X ident evs m0 (ingest_payload X E now sender parsed s)"
  using assms(1)
proof (intro ingest_payload_invariant [where P = "authentic X ident evs m0"]
    ingest_text_invariant [where P = "authentic X ident evs m0"], goal_cases)
  case (3 ts i body s')
  then show ?case by (simp add: authentic_def greet_stranger_def Let_def)
next
  case (4 ts i body s')
  then show ?case using authentic_store assms(2,3) by metis
next
  case (5 ts ids)
  then show ?case
    using assms(2,3)
    by (auto simp: authentic_def ingest_ack_def Let_def bt_get_simps or_default_def pending_ack_default_def
        split: option.splits if_splits)
next
  case (6 ts n b ph)
  then show ?case by (auto simp: authentic_def ingest_profile_def Let_def split: option.split)
qed auto

lemma accounted_mark:
  assumes "accounted X ident evs m0 p x"
    and "\<forall>i\<in>ids. \<exists>ev\<in>set evs. \<exists>l. event_payload X ident ev p (DeliveryAck l) \<and> i \<in> set l"
  shows "accounted X ident evs m0 p (mark_delivered ids x)"
proof (cases "m_outgoing x \<and> m_id x \<in> ids \<and> \<not> m_delivered x")
  case True
  then obtain x0 where "x0 \<in> set (or_default [] (bt_get (messages m0) p))" "x = x0"
    using assms(1) by (auto simp: accounted_def)
  with True assms(2) show ?thesis by (auto simp: accounted_def mark_delivered_def)
qed (use assms(1) in \<open>auto simp: mark_delivered_def\<close>)

lemma authentic_apply:
  assumes "authentic X ident evs m0 s"
    and "\<forall>i\<in>pa_ids p. \<exists>ev\<in>set evs. \<exists>l. event_payload X ident ev sender (DeliveryAck l) \<and> i \<in> set l"
  shows "authentic X ident evs m0 (apply_ack now sender p s)"
proof -
  have "accounted X ident evs m0 q y"
    if "y \<in> set (or_default [] (bt_get (bt_modify sender (map (mark_delivered (pa_ids p))) (messages (i_model s))) q))" for q y
  proof -
    have old: "\<forall>y\<in>set (or_default [] (bt_get (messages (i_model s)) q)). accounted X ident evs m0 q y"
      using assms(1) by (simp add: authentic_def)
    show ?thesis
    proof (cases "q = sender")
      case True
      then show ?thesis
        using that old accounted_mark [OF _ assms(2)]
        by (cases "bt_get (messages (i_model s)) sender") (auto simp: bt_get_simps or_default_def)
    qed (use that old in \<open>simp add: bt_get_simps\<close>)
  qed
  with assms(1) show ?thesis by (auto simp: authentic_def apply_ack_def Let_def)
qed

lemma authentic_page:
  assumes "messages m = messages m0"
  shows "authentic X ident (pr_events pg) m0 (ingest_page X E ident prev pg m)"
proof -
  let ?A = "authentic X ident (pr_events pg) m0"
  define s1 where "s1 = ingest_events X E ident prev (now_ms E 1) (pr_events pg) (ingest_start m)"
  have s1: "?A s1"
    unfolding s1_def
  proof (rule ingest_events_invariant [where P = ?A, OF authentic_start [OF assms]])
    fix s ev blob dec parsed
    assume "?A s" "ev \<in> set (pr_events pg)" "hex_decode X (pe_encrypted_blob ev) = Some blob"
      "decrypt X ident blob = Ok dec" "parse_payload X (plaintext dec) = Some parsed"
    moreover from this have "event_payload X ident ev (sender_hex dec) (pp_payload parsed)"
      by (auto simp: event_payload_def)
    ultimately show "?A (ingest_payload X E (now_ms E 1) (sender_hex dec) parsed s)"
      by (blast intro: authentic_payload)
  qed (simp_all add: authentic_def stop_page_def Let_def)
  then have "?A (apply_acks E (now_ms E 1) s1)"
    by (intro apply_acks_invariant [where P = ?A] authentic_apply) (auto simp: authentic_def)
  then show ?thesis
    by (simp add: ingest_page_def Let_def queue_acks_def authentic_def flip: s1_def del: One_nat_def)
qed

section \<open>Everything ingested is written\<close>

text \<open>The dirty flags cover every change.\<close>

definition tracked :: "model \<Rightarrow> ingest \<Rightarrow> bool" where
  "tracked m0 s \<longleftrightarrow>
     (\<forall>p. p \<notin> i_touched s \<longrightarrow>
        or_default [] (bt_get (messages (i_model s)) p) = or_default [] (bt_get (messages m0) p)) \<and>
     (\<not> i_contacts_dirty s \<longrightarrow> contacts (i_model s) = contacts m0) \<and>
     (\<not> i_outbox_dirty s \<longrightarrow> outbox (i_model s) = outbox m0) \<and> finite (i_touched s)"

lemma tracked_payload:
  assumes "tracked m0 s"
  shows "tracked m0 (ingest_payload X E now sender parsed s)"
  using assms
  by (intro ingest_payload_invariant [where P = "tracked m0"] ingest_text_invariant [where P = "tracked m0"])
    (auto simp: tracked_def ingest_defs Let_def bt_get_simps or_default_def [of _ "Some _"] split: option.split)

lemma mark_none: "\<not> (\<exists>x\<in>set l. m_outgoing x \<and> m_id x \<in> ids \<and> \<not> m_delivered x) \<Longrightarrow> map (mark_delivered ids) l = l"
  by (rule map_idI) (auto simp: mark_delivered_def)

lemma bt_modify_absent: "bt_get m k = None \<Longrightarrow> bt_modify k f m = m"
  by (induction m) (auto simp: bt_get_def bt_modify_def split: if_splits)

lemma tracked_apply:
  assumes "tracked m0 s"
  shows "tracked m0 (apply_ack now sender p s)"
proof (cases "bt_get (messages (i_model s)) sender")
  case None
  with assms show ?thesis
    by (auto simp: tracked_def apply_ack_def Let_def bt_modify_absent)
next
  case (Some l)
  with assms show ?thesis
    using mark_none [of l "pa_ids p"]
    by (auto simp: tracked_def apply_ack_def Let_def bt_get_simps bt_modify_absent or_default_def [of _ "Some _"])
qed

lemma tracked_page:
  assumes "messages m = messages m0" "contacts m = contacts m0" "outbox m = outbox m0"
  shows "tracked m0 (ingest_page X E ident prev pg m)"
proof -
  define s1 where "s1 = ingest_events X E ident prev (now_ms E 1) (pr_events pg) (ingest_start m)"
  have "tracked m0 s1"
    unfolding s1_def
  proof (rule ingest_events_invariant [where P = "tracked m0"])
    show "tracked m0 (ingest_start m)" using assms by (simp add: tracked_def ingest_start_def)
  qed (simp_all add: tracked_payload, simp_all add: tracked_def stop_page_def Let_def)
  then have "tracked m0 (apply_acks E (now_ms E 1) s1)"
    by (intro apply_acks_invariant [where P = "tracked m0"] tracked_apply)
  then show ?thesis
    by (auto simp: ingest_page_def Let_def queue_acks_def tracked_def simp flip: s1_def simp del: One_nat_def)
qed

lemma persist_all_messages_eq:
  "\<not> kv_load_failed m \<Longrightarrow> persist_all_messages X ps m =
     (m, map (\<lambda>p. KvSet (k_messages p) (json_bytes X (VMessages (or_default [] (bt_get (messages m) p)))) ThenSaved) ps)"
  by (induction ps) (simp_all add: w_messages.written or_default_def option.case_eq_if)

lemma persist_page_eq:
  assumes "\<not> kv_load_failed (i_model s)"
  shows "persist_page X E s = (i_model s,
     map (\<lambda>p. KvSet (k_messages p) (json_bytes X (VMessages (or_default [] (bt_get (messages (i_model s)) p)))) ThenSaved)
       (hash_order E (i_touched s)) @
     (if i_touched s \<noteq> {} then [KvSet K_SEEN_IDS (json_bytes X (VSeenIds (seen_ids (i_model s)))) ThenSaved] else []) @
     (if i_contacts_dirty s then [KvSet K_CONTACTS (json_bytes X (VContacts (bt_values (contacts (i_model s))))) ThenSaved] else []) @
     (if i_outbox_dirty s then [KvSet K_OUTBOX (json_bytes X (VOutbox (outbox (i_model s)))) ThenSaved] else []) @
     [Emit StartFlush])"
  using assms
  by (simp add: persist_page_def persist_if_def persist_all_messages_eq w_seen_ids.written w_contacts.written
      w_outbox.written)

lemma page_kv_load_failed [simp]:
  "kv_load_failed (i_model (ingest_page X E ident prev pg m)) = kv_load_failed m"
  by (rule ingest_frame_fields [OF frame_page])

end
