(* ===== verification/Ingest_Correct.thy ===== *)
theory Ingest_Correct
  imports Ingest_Invariants
begin

text \<open>
  What a poll page does to the model and to storage: the cursor, the tables, blocked senders,
  authenticity, durability and acknowledgements.
\<close>

section \<open>The cursor\<close>

lemma adopt_cursor_frame [simp]:
  "contacts (adopt_cursor E pg m) = contacts m" "messages (adopt_cursor E pg m) = messages m"
  "seen_ids (adopt_cursor E pg m) = seen_ids m" "outbox (adopt_cursor E pg m) = outbox m"
  "my_pubkey (adopt_cursor E pg m) = my_pubkey m" "kv_load_failed (adopt_cursor E pg m) = kv_load_failed m"
  "identity_of X (adopt_cursor E pg m) = identity_of X m"
  by (simp_all add: adopt_cursor_def Let_def identity_of_def)

lemma adopt_cursor_only: "ingest_frame m (adopt_cursor E pg m)"
  by (simp add: adopt_cursor_def Let_def ingest_frame_updates)

lemma ingest_poll_cases:
  obtains (failed) "kv_load_failed m" "ingest_poll X E pg m = (m, [])"
  | (nobody) "\<not> kv_load_failed m" "identity_of X m = None" "ingest_poll X E pg m = (adopt_cursor E pg m, [])"
  | (page) ident s where "\<not> kv_load_failed m" "identity_of X m = Some ident"
      "s = ingest_page X E ident (cursor m) pg (adopt_cursor E pg m)"
      "ingest_poll X E pg m = persist_page X E s" "fst (ingest_poll X E pg m) = i_model s"
      "\<not> kv_load_failed (i_model s)"
proof -
  consider "kv_load_failed m" | "\<not> kv_load_failed m" "identity_of X m = None"
    | ident where "\<not> kv_load_failed m" "identity_of X m = Some ident" by fastforce
  then show thesis
  proof cases
    case 3
    show thesis
      by (rule page [OF 3 refl]) (use 3 in \<open>simp_all add: ingest_poll_def Let_def persist_page_eq\<close>)
  qed (simp_all add: ingest_poll_def failed nobody)
qed

lemma ingest_poll_frame: "ingest_frame m (fst (ingest_poll X E pg m))"
proof (cases X E pg m rule: ingest_poll_cases)
  case (page ident s)
  have "ingest_frame (adopt_cursor E pg m) (i_model s)"
    unfolding page(3) by (rule frame_page)
  with adopt_cursor_only show ?thesis
    unfolding page(5) by (rule ingest_frame_trans)
qed (simp_all add: adopt_cursor_only)

lemma cursor_payload: "cursor (i_model (ingest_payload X E now sender parsed s)) = cursor (i_model s)"
  by (intro ingest_payload_invariant [where P = "\<lambda>t. cursor (i_model t) = cursor (i_model s)"]
      ingest_text_invariant [where P = "\<lambda>t. cursor (i_model t) = cursor (i_model s)"])
    (auto simp: ingest_defs Let_def split: option.split)

lemma cursor_events:
  "cursor (i_model (ingest_events X E ident prev now evs s)) \<in> {cursor (i_model s), prev}"
  by (rule ingest_events_invariant [where P = "\<lambda>t. cursor (i_model t) \<in> {cursor (i_model s), prev}"])
    (simp_all add: stop_page_def Let_def cursor_payload)

lemma cursor_acks: "cursor (i_model (apply_acks E now s)) = cursor (i_model s)"
  by (rule apply_acks_invariant [where P = "\<lambda>t. cursor (i_model t) = cursor (i_model s)"])
    (simp_all add: apply_ack_def Let_def)

lemma cursor_page: "cursor (i_model (ingest_page X E ident prev pg m)) =
    cursor (i_model (ingest_events X E ident prev (now_ms E 1) (pr_events pg) (ingest_start m)))"
  by (simp add: ingest_page_def Let_def queue_acks_def cursor_acks)

definition small_event :: "poll_event \<Rightarrow> bool" where
  "small_event ev \<longleftrightarrow> ulen (pe_encrypted_blob ev) \<le> MAX_BLOB_LEN * 2"

text \<open>What a page may cost: the events that are not skipped for their size, and the bytes of their blobs.
  An event counts as read when it decrypts under our key to a payload that parses.\<close>

definition event_bytes :: "poll_event list \<Rightarrow> nat" where
  "event_bytes evs = sum_list (map (\<lambda>ev. ulen (pe_encrypted_blob ev) div 2) (filter small_event evs))"

definition within_limits :: "poll_event list \<Rightarrow> bool" where
  "within_limits evs \<longleftrightarrow> length (filter small_event evs) \<le> MAX_POLL_EVENTS \<and> event_bytes evs \<le> MAX_POLL_TOTAL_BYTES"

definition readable :: "'z app_ext_scheme \<Rightarrow> identity \<Rightarrow> poll_event \<Rightarrow> bool" where
  "readable X ident ev \<longleftrightarrow> small_event ev \<and> (\<exists>sender p. event_payload X ident ev sender p)"

definition reads_some :: "'z app_ext_scheme \<Rightarrow> identity \<Rightarrow> poll_event list \<Rightarrow> bool" where
  "reads_some X ident evs \<longleftrightarrow> (\<exists>n. within_limits (take n evs) \<and> (\<exists>ev\<in>set (take n evs). readable X ident ev))"

text \<open>The same relative to a state of the loop.\<close>

definition fits :: "ingest \<Rightarrow> poll_event list \<Rightarrow> bool" where
  "fits s evs \<longleftrightarrow> i_processed s + length (filter small_event evs) \<le> MAX_POLL_EVENTS \<and> event_bytes evs \<le> i_budget s"

lemma ex_nat_split: "(\<exists>n. P n) \<longleftrightarrow> P 0 \<or> (\<exists>n. P (Suc n))"
  by (metis not0_implies_Suc)

lemma fits_Cons:
  "\<not> small_event ev \<Longrightarrow> fits s (ev # evs) = fits s evs"
  "small_event ev \<Longrightarrow> i_processed s < MAX_POLL_EVENTS \<Longrightarrow> ulen (pe_encrypted_blob ev) div 2 \<le> i_budget s \<Longrightarrow>
    fits s (ev # evs) = fits (s\<lparr>i_processed := i_processed s + 1, i_budget := i_budget s - ulen (pe_encrypted_blob ev) div 2, i_stored := k\<rparr>) evs"
  "small_event ev \<Longrightarrow> \<not> (i_processed s < MAX_POLL_EVENTS \<and> ulen (pe_encrypted_blob ev) div 2 \<le> i_budget s) \<Longrightarrow> \<not> fits s (ev # evs)"
  by (auto simp: fits_def event_bytes_def)

lemma fits_cong: "i_processed s' = i_processed s \<Longrightarrow> i_budget s' = i_budget s \<Longrightarrow> fits s' evs = fits s evs"
  by (simp add: fits_def)

lemma counters_payload [simp]:
  "i_processed (ingest_payload X E now sender parsed s) = i_processed s"
  "i_budget (ingest_payload X E now sender parsed s) = i_budget s"
  "i_stored (ingest_payload X E now sender parsed s) = i_stored s"
  by (intro ingest_payload_invariant [where P = "\<lambda>t. i_processed t = i_processed s"]
      ingest_text_invariant [where P = "\<lambda>t. i_processed t = i_processed s"],
      auto simp: ingest_defs Let_def split: option.split)
    (intro ingest_payload_invariant [where P = "\<lambda>t. i_budget t = i_budget s"]
      ingest_text_invariant [where P = "\<lambda>t. i_budget t = i_budget s"],
      auto simp: ingest_defs Let_def split: option.split,
     intro ingest_payload_invariant [where P = "\<lambda>t. i_stored t = i_stored s"]
      ingest_text_invariant [where P = "\<lambda>t. i_stored t = i_stored s"],
      auto simp: ingest_defs Let_def split: option.split)

lemma cursor_after_events:
  assumes "i_processed s \<le> MAX_POLL_EVENTS"
  shows "cursor (i_model (ingest_events X E ident prev now evs s)) =
    (if fits s evs \<or> 0 < i_stored s \<or> (\<exists>n. fits s (take n evs) \<and> (\<exists>ev\<in>set (take n evs). readable X ident ev))
     then cursor (i_model s) else prev)"
  using assms
proof (induction evs arbitrary: s)
  case Nil
  then show ?case by (simp add: fits_def event_bytes_def)
next
  case (Cons ev evs)
  let ?reads = "\<lambda>s evs. \<exists>n. fits s (take n evs) \<and> (\<exists>ev\<in>set (take n evs). readable X ident ev)"
  let ?w = "ulen (pe_encrypted_blob ev) div 2"
  have split: "?reads s (ev # evs) \<longleftrightarrow> (\<exists>n. fits s (ev # take n evs) \<and> (\<exists>e\<in>set (ev # take n evs). readable X ident e))"
    by (subst ex_nat_split) simp
  show ?case
  proof (cases "small_event ev")
    case False
    then have big: "MAX_BLOB_LEN * 2 < ulen (pe_encrypted_blob ev)" "\<not> readable X ident ev"
      by (simp_all add: small_event_def readable_def)
    show ?thesis
      using Cons.IH [OF Cons.prems] big fits_Cons(1) [OF False] by (simp add: split)
  next
    case small: True
    then have len: "\<not> MAX_BLOB_LEN * 2 < ulen (pe_encrypted_blob ev)" by (simp add: small_event_def)
    show ?thesis
    proof (cases "i_processed s < MAX_POLL_EVENTS \<and> ?w \<le> i_budget s")
      case False
      with small len fits_Cons(3) [OF small] show ?thesis
        by (auto simp: split Let_def stop_page_def not_less not_le)
    next
      case True
      define s2 where "s2 k = s\<lparr>i_processed := i_processed s + 1, i_budget := i_budget s - ?w, i_stored := k\<rparr>" for k
      have s2: "i_processed (s2 k) \<le> MAX_POLL_EVENTS" "cursor (i_model (s2 k)) = cursor (i_model s)" "i_stored (s2 k) = k" for k
        using True by (simp_all add: s2_def)
      have f: "fits s (ev # evs) = fits (s2 k) evs" for k evs using fits_Cons(2) [OF small] True by (simp add: s2_def)
      show ?thesis
      proof (cases "\<exists>blob dec parsed. hex_decode X (pe_encrypted_blob ev) = Some blob \<and> decrypt X ident blob = Ok dec \<and>
          parse_payload X (plaintext dec) = Some parsed")
        case True
        then obtain blob dec parsed where r: "hex_decode X (pe_encrypted_blob ev) = Some blob" "decrypt X ident blob = Ok dec"
          "parse_payload X (plaintext dec) = Some parsed" by blast
        then have "readable X ident ev" using small by (auto simp: readable_def event_payload_def)
        moreover have "fits s (ev # take 0 evs)"
          using f [of "[]"] s2(1) by (simp add: fits_def event_bytes_def)
        ultimately have "?reads s (ev # evs)" unfolding split by (intro exI [of _ 0]) simp
        moreover have step: "ingest_events X E ident prev now (ev # evs) s = ingest_events X E ident prev now evs
            (ingest_payload X E now (sender_hex dec) parsed (s2 (i_stored s + 1)))"
          using \<open>i_processed s < MAX_POLL_EVENTS \<and> ?w \<le> i_budget s\<close> r len by (simp add: s2_def Let_def)
        ultimately show ?thesis
          unfolding step using Cons.IH [of "ingest_payload X E now (sender_hex dec) parsed (s2 (i_stored s + 1))"] s2
          by (simp add: cursor_payload)
      next
        case False
        then have no: "\<not> readable X ident ev" by (auto simp: readable_def event_payload_def)
        define t where "t = s2 (i_stored s)"
        have ft: "fits s (ev # evs) = fits t evs" for evs by (simp add: t_def f)
        have "?reads s (ev # evs) = ?reads t evs" unfolding split ft using no by simp
        moreover have "ingest_events X E ident prev now (ev # evs) s = ingest_events X E ident prev now evs t"
          using True False len by (auto simp: t_def s2_def Let_def split: option.split outcome.split)
        moreover have "i_processed t \<le> MAX_POLL_EVENTS" "cursor (i_model t) = cursor (i_model s)" "i_stored t = i_stored s"
          using s2 by (simp_all add: t_def)
        ultimately show ?thesis using Cons.IH [of t] ft by (auto simp del: ingest_events.simps)
      qed
    qed
  qed
qed

lemma cursor_after_page:
  "cursor (i_model (ingest_page X E ident prev pg m)) =
    (if within_limits (pr_events pg) \<or> reads_some X ident (pr_events pg) then cursor m else prev)"
proof -
  have f: "fits (ingest_start m) evs = within_limits evs" for evs
    by (simp add: fits_def within_limits_def ingest_start_def)
  have "i_processed (ingest_start m) = 0" "i_stored (ingest_start m) = 0" "i_model (ingest_start m) = m"
    by (simp_all add: ingest_start_def)
  then show ?thesis
    unfolding cursor_page by (subst cursor_after_events) (auto simp: f reads_some_def)
qed

text \<open>C27. The acknowledgement cursor: a page moves it only forward, only when it carried events, and
  never more than a minute past our clock. A page over the limits on the number of its events or the
  bytes of their blobs, of which nothing could be read before the limit was reached, leaves the cursor
  where it was, so that nothing unseen is acknowledged; a page within the limits, or of which something
  was read, moves it to the position it carried, as far as that is forward and not ahead of our clock.\<close>

theorem ingest_cursor:
  assumes "m' = fst (ingest_poll X E pg m)"
  shows "cursor m \<le> cursor m' \<and>
    (cursor m' \<noteq> cursor m \<longrightarrow> pr_events pg \<noteq> [] \<and>
       cursor m' = min (pr_cursor pg) (sat_add (now_ms E 0) 60000)) \<and>
    (\<forall>ident. identity_of X m = Some ident \<longrightarrow>
       \<not> within_limits (pr_events pg) \<longrightarrow> \<not> reads_some X ident (pr_events pg) \<longrightarrow> cursor m' = cursor m) \<and>
    (\<forall>ident. identity_of X m = Some ident \<longrightarrow> \<not> kv_load_failed m \<longrightarrow> pr_events pg \<noteq> [] \<longrightarrow>
       within_limits (pr_events pg) \<or> reads_some X ident (pr_events pg) \<longrightarrow>
       cursor m' = max (cursor m) (min (pr_cursor pg) (sat_add (now_ms E 0) 60000)))"
proof (cases X E pg m rule: ingest_poll_cases)
  case (page ident s)
  have "cursor m' = (if within_limits (pr_events pg) \<or> reads_some X ident (pr_events pg)
      then cursor (adopt_cursor E pg m) else cursor m)"
    unfolding assms page(5) page(3) by (rule cursor_after_page)
  with page(1,2) show ?thesis by (auto simp: adopt_cursor_def Let_def max_def)
qed (use assms in \<open>auto simp: adopt_cursor_def Let_def\<close>)

section \<open>What a page does to the model\<close>

text \<open>Receiving keeps the tables well formed: contacts stay keyed by their own key and within the
  cap of five hundred, every conversation stays ordered by time and within its cap, no conversation
  gets two incoming messages with one id, and the dedup sets stay within their cap.\<close>

lemma ingest_keeps_tables:
  assumes "env_ok E" "contacts_ok m" "history_ok m" "dedup_ok m" "m' = fst (ingest_poll X E pg m)"
  shows "contacts_ok m' \<and> history_ok m' \<and> dedup_ok m' \<and>
    length (contacts m') \<le> max (length (contacts m)) MAX_CONTACTS"
proof -
  let ?m = "adopt_cursor E pg m"
  have ok: "contacts_ok ?m" "history_ok ?m" "dedup_ok ?m"
    using assms by (simp_all add: contacts_ok_def history_ok_def dedup_ok_def)
  show ?thesis
  proof (cases X E pg m rule: ingest_poll_cases)
    case (page ident s)
    show ?thesis
      using tables_page [OF ok(1,2), of X E ident "cursor m" pg] dedup_page [OF assms(1) ok, of X ident "cursor m" pg]
      unfolding assms(5) page(5) page(3) by (simp add: tables_ok_def)
  qed (use assms ok in auto)
qed

lemma ingest_gated:
  assumes "m' = fst (ingest_poll X E pg m)"
  shows "(\<forall>p. blocked m' p = blocked m p) \<and>
    (\<forall>p. shut_out m p \<longrightarrow> bt_get (contacts m') p = bt_get (contacts m) p \<and>
       bt_get (messages m') p = bt_get (messages m) p \<and> bt_get (seen_ids m') p = bt_get (seen_ids m) p) \<and>
    (\<exists>new. outbox m' = outbox m @ new \<and> (\<forall>i\<in>set new. \<not> shut_out m (o_recipient i)))"
proof (cases X E pg m rule: ingest_poll_cases)
  case (page ident s)
  have "gated m s"
    unfolding page(3) by (rule gated_page) simp_all
  then show ?thesis unfolding assms page(5) gated_def by blast
qed (simp_all add: assms blocked_def)

text \<open>C26. A blocked contact, and mail echoed back under our own key, cannot change anything: no
  contact entry, conversation or dedup set of theirs changes, nobody's block is lifted, and the
  replies that receiving queues are appended to the outbox and addressed to none of them.\<close>

theorem ingest_ignores_shut_out:
  assumes "m' = fst (ingest_poll X E pg m)"
  shows "(\<forall>p. blocked m' p = blocked m p) \<and>
    (\<forall>p. blocked m p \<or> p = my_pubkey m \<longrightarrow> bt_get (contacts m') p = bt_get (contacts m) p \<and>
       bt_get (messages m') p = bt_get (messages m) p \<and> bt_get (seen_ids m') p = bt_get (seen_ids m) p) \<and>
    (\<exists>new. outbox m' = outbox m @ new \<and>
       (\<forall>i\<in>set new. \<not> blocked m (o_recipient i) \<and> o_recipient i \<noteq> my_pubkey m))"
  using ingest_gated [OF assms] by (simp add: shut_out_def)

lemma ingest_authentic_page:
  assumes "identity_of X m = Some ident" "m' = fst (ingest_poll X E pg m)"
    and "bt_get (messages m') p = Some l" "x \<in> set l"
  shows "(\<exists>x0\<in>set (or_default [] (bt_get (messages m) p)).
        x = x0 \<or> (m_outgoing x0 \<and> x = x0\<lparr>m_delivered := True\<rparr> \<and>
          (\<exists>ev\<in>set (pr_events pg). \<exists>ids. event_payload X ident ev p (DeliveryAck ids) \<and> m_id x0 \<in> set ids))) \<or>
     (\<not> m_outgoing x \<and> \<not> m_delivered x \<and>
        (\<exists>ev\<in>set (pr_events pg). event_payload X ident ev p (Text (m_id x) (m_body x))))"
proof (cases X E pg m rule: ingest_poll_cases)
  case (page ident' s)
  have "authentic X ident (pr_events pg) m s"
    using page(2) assms(1) unfolding page(3) by (auto intro!: authentic_page)
  then have "accounted X ident (pr_events pg) m p x"
    using assms(3,4) unfolding assms(2) page(5) authentic_def by (force simp: or_default_def)
  then show ?thesis by (simp add: accounted_def)
qed (use assms in \<open>auto simp: or_default_def\<close>)

text \<open>C10. Every message a page puts into a conversation is the text of an event of that page which
  decrypts under our key to a payload signed by that peer; the only other change is that an outgoing
  message is marked delivered, when the peer it was sent to signed an acknowledgement of it.\<close>

theorem ingest_authentic:
  assumes "identity_of X m = Some ident" "m' = fst (ingest_poll X E pg m)"
    and "bt_get (messages m') p = Some l" "x \<in> set l"
  shows "(\<exists>x0\<in>set (or_default [] (bt_get (messages m) p)).
        x = x0 \<or> (m_outgoing x0 \<and> x = x0\<lparr>m_delivered := True\<rparr> \<and>
          (\<exists>ev\<in>set (pr_events pg). \<exists>ids. event_payload X ident ev p (DeliveryAck ids) \<and> m_id x0 \<in> set ids))) \<or>
     (\<not> m_outgoing x \<and> \<not> m_delivered x \<and>
        (\<exists>ev\<in>set (pr_events pg). event_payload X ident ev p (Text (m_id x) (m_body x))))"
  using assms by (rule ingest_authentic_page)

section \<open>Acknowledging what was stored\<close>

definition ack_ids_ok :: "ustr list \<Rightarrow> bool" where
  "ack_ids_ok ids \<longleftrightarrow> (\<forall>i\<in>set ids. ulen i \<le> MAX_ID_LEN \<and> list_all is_scalar i)"

definition owes_acks :: "model \<Rightarrow> ingest \<Rightarrow> bool" where
  "owes_acks m0 s \<longleftrightarrow>
     (\<forall>p. \<forall>x\<in>set (or_default [] (bt_get (messages (i_model s)) p)). \<not> m_outgoing x \<longrightarrow>
        x \<notin> set (or_default [] (bt_get (messages m0) p)) \<longrightarrow>
        m_id x \<in> set (or_default [] (bt_get (i_ack_targets s) p))) \<and>
     (\<forall>p ids. bt_get (i_ack_targets s) p = Some ids \<longrightarrow> ack_ids_ok ids)"

lemma owes_store:
  assumes "owes_acks m0 s" "ulen i \<le> MAX_ID_LEN" "list_all is_scalar i"
  shows "owes_acks m0 (store_text E sender ts i body s)"
proof -
  define convo where "convo = or_default [] (bt_get (messages (i_model s)) sender)"
  define x where "x = \<lparr>m_id = i, m_body = body, m_ts = ts, m_outgoing = False, m_delivered = False\<rparr>"
  define targets where "targets = or_default [] (bt_get (i_ack_targets s) sender)"
  have old: "\<forall>y\<in>set convo. \<not> m_outgoing y \<longrightarrow> y \<notin> set (or_default [] (bt_get (messages m0) sender)) \<longrightarrow> m_id y \<in> set targets"
    using assms(1) by (simp add: owes_acks_def convo_def targets_def)
  have "\<forall>y\<in>set (trim_history (insert_sorted convo x)). y = x \<or> y \<in> set convo"
    using convo.set_store [of convo x] by blast
  with old have new: "\<forall>y\<in>set (trim_history (insert_sorted convo x)). \<not> m_outgoing y \<longrightarrow>
      y \<notin> set (or_default [] (bt_get (messages m0) sender)) \<longrightarrow> m_id y \<in> set (targets @ [i])"
    by (auto simp: x_def)
  have "ack_ids_ok targets"
    using assms(1) by (cases "bt_get (i_ack_targets s) sender")
      (simp_all add: owes_acks_def targets_def or_default_def ack_ids_ok_def)
  with assms(2,3) have "ack_ids_ok (targets @ [i])" by (simp add: ack_ids_ok_def)
  with old new assms(1) show ?thesis
    by (auto simp: owes_acks_def store_text_def Let_def bt_get_simps or_default_def [of _ "Some _"]
        simp flip: convo_def x_def targets_def)
qed

lemma owes_payload:
  assumes "owes_acks m0 s" "within_caps X (pp_payload parsed)" "payload_wf (pp_payload parsed)"
  shows "owes_acks m0 (ingest_payload X E now sender parsed s)"
  using assms(1)
proof (intro ingest_payload_invariant [where P = "owes_acks m0"] ingest_text_invariant [where P = "owes_acks m0"], goal_cases)
  case (3 ts i body s')
  then show ?case by (simp add: owes_acks_def greet_stranger_def Let_def)
next
  case (4 ts i body s')
  with assms(2,3) show ?case by (intro owes_store) (simp_all add: payload_wf_def)
next
  case (5 ts ids)
  then show ?case by (simp add: owes_acks_def ingest_ack_def Let_def)
next
  case (6 ts n b ph)
  then show ?case by (auto simp: owes_acks_def ingest_profile_def Let_def split: option.split)
qed auto

lemma mark_incoming: "y \<in> set (map (mark_delivered ids) l) \<Longrightarrow> \<not> m_outgoing y \<Longrightarrow> y \<in> set l"
  by (auto simp: mark_delivered_def split: if_splits)

lemma owes_apply:
  assumes "owes_acks m0 s"
  shows "owes_acks m0 (apply_ack now sender p s)"
proof -
  have "y \<in> set (or_default [] (bt_get (messages (i_model s)) q))"
    if "y \<in> set (or_default [] (bt_get (bt_modify sender (map (mark_delivered (pa_ids p))) (messages (i_model s))) q))"
      "\<not> m_outgoing y" for q y
  proof (cases "bt_get (messages (i_model s)) q")
    case (Some l)
    with that show ?thesis
      using mark_incoming [of y "pa_ids p" l]
      by (cases "q = sender") (simp_all add: bt_get_simps or_default_def)
  qed (use that in \<open>simp add: bt_get_simps or_default_def split: if_splits\<close>)
  with assms show ?thesis by (auto simp: owes_acks_def apply_ack_def Let_def)
qed

lemma ack_items_parse:
  assumes "protocol_ext_ok X" "ack_ids_ok ids" "in_i64 t" "i \<in> set ids"
  shows "\<exists>a\<in>set (ack_items X t p ids). o_recipient a = p \<and>
    (\<exists>b. parse_payload X (utf8_encode (o_envelope_json a)) = Some \<lparr>pp_ts = t, pp_payload = DeliveryAck b\<rparr> \<and> i \<in> set b)"
proof -
  have all: "set (concat (chunks MAX_ACK_IDS ids)) = set ids"
    by (subst concat_chunks) (simp_all add: size_caps)
  with assms(4) obtain b where b: "b \<in> set (chunks MAX_ACK_IDS ids)" "i \<in> set b" by auto
  have sub: "set b \<subseteq> set ids"
    using b(1) unfolding all [symmetric] by auto
  have "ack_ids_ok b" using assms(2) sub by (auto simp: ack_ids_ok_def)
  then have "payload_wf (DeliveryAck b)" "within_caps X (sanitize_payload (DeliveryAck b))"
    using chunk_length [OF b(1)] by (simp_all add: payload_wf_def list_all_iff ack_ids_ok_def)
  then have "parse_payload X (utf8_encode (serialize_payload X (DeliveryAck b) t)) = Some \<lparr>pp_ts = t, pp_payload = DeliveryAck b\<rparr>"
    using parse_serialized [OF assms(1) _ assms(3)] by simp
  with b show ?thesis by (auto simp: ack_items_def)
qed

lemma in_i64_now [simp]: "in_i64 (now_ms E i)"
proof -
  have "in_i64 1" by (simp add: in_i64_def i64_min_def i64_max_def)
  then show ?thesis by (simp add: now_ms_def split: option.split)
qed

lemma owes_page_before:
  assumes ok: "protocol_ext_ok X" and "messages m = messages m0"
  shows "owes_acks m0 (apply_acks E (now_ms E 1)
    (ingest_events X E ident prev (now_ms E 1) (pr_events pg) (ingest_start m)))"
proof (rule apply_acks_invariant [where P = "owes_acks m0", OF _ owes_apply])
  show "owes_acks m0 (ingest_events X E ident prev (now_ms E 1) (pr_events pg) (ingest_start m))"
  proof (rule ingest_events_invariant [where P = "owes_acks m0"])
    show "owes_acks m0 (ingest_start m)" using assms(2) by (simp add: owes_acks_def ingest_start_def)
  next
    fix s ev blob dec parsed
    assume "owes_acks m0 s" "parse_payload X (plaintext dec) = Some parsed"
    then show "owes_acks m0 (ingest_payload X E (now_ms E 1) (sender_hex dec) parsed s)"
      using parse_payload_bounds parse_payload_wf [OF ok] by (intro owes_payload [where X = X]) blast+
  qed (simp_all add: owes_acks_def stop_page_def Let_def)
qed

text \<open>C25. Every message a page stores is acknowledged to its sender: the outbox afterwards holds an
  item for that peer which, parsed by a peer running this code, is a delivery acknowledgement of the
  message's id, however many messages the page carried.\<close>

theorem ingest_acks_stored:
  assumes "protocol_ext_ok X" "m' = fst (ingest_poll X E pg m)"
    and "bt_get (messages m') p = Some l" "x \<in> set l" "\<not> m_outgoing x"
    and "x \<notin> set (or_default [] (bt_get (messages m) p))"
  shows "\<exists>a\<in>set (outbox m'). o_recipient a = p \<and>
    (\<exists>b. parse_payload X (utf8_encode (o_envelope_json a)) = Some \<lparr>pp_ts = now_ms E 2, pp_payload = DeliveryAck b\<rparr> \<and>
      m_id x \<in> set b)"
proof (cases X E pg m rule: ingest_poll_cases)
  case (page ident s)
  define s0 where "s0 = apply_acks E (now_ms E 1)
    (ingest_events X E ident (cursor m) (now_ms E 1) (pr_events pg) (ingest_start (adopt_cursor E pg m)))"
  have s: "s = queue_acks X (now_ms E 2) s0"
    unfolding page(3) ingest_page_def Let_def s0_def ..
  have owes: "owes_acks m s0"
    unfolding s0_def by (rule owes_page_before [OF assms(1)]) simp
  have "m_id x \<in> set (or_default [] (bt_get (i_ack_targets s0) p))"
    using owes assms(3-6) unfolding assms(2) page(5) s owes_acks_def
    by (auto simp: queue_acks_def Let_def or_default_def)
  then obtain ids where ids: "bt_get (i_ack_targets s0) p = Some ids" "m_id x \<in> set ids"
    by (cases "bt_get (i_ack_targets s0) p") (auto simp: or_default_def)
  then have "set (ack_items X (now_ms E 2) p ids) \<subseteq> set (outbox m')"
    unfolding assms(2) page(5) s by (force simp: queue_acks_def Let_def dest: bt_get_in_set)
  moreover have "ack_ids_ok ids" using owes ids(1) by (simp add: owes_acks_def)
  ultimately show ?thesis
    using ack_items_parse [OF assms(1) _ in_i64_now ids(2), of E 2 p] by blast
qed (use assms in \<open>auto simp: or_default_def\<close>)

section \<open>A page of one text\<close>

lemma apply_acks_none: "i_pending s = [] \<Longrightarrow> apply_acks E now s = s"
  by (simp add: apply_acks_def fold_invariant [where Q = "\<lambda>_. True" and P = "\<lambda>x. x = s"])

text \<open>The loop before its first payload.\<close>

definition fresh_page :: "model \<Rightarrow> ingest \<Rightarrow> bool" where
  "fresh_page m s \<longleftrightarrow>
     contacts (i_model s) = contacts m \<and> messages (i_model s) = messages m \<and> seen_ids (i_model s) = seen_ids m \<and>
     outbox (i_model s) = outbox m \<and> my_pubkey (i_model s) = my_pubkey m \<and> i_pending s = [] \<and> i_ack_targets s = []"

lemma ingest_one_event:
  assumes pg: "pr_events pg = [ev]" and ev: "hex_decode X (pe_encrypted_blob ev) = Some blob"
      "decrypt X ident blob = Ok dec" "parse_payload X (plaintext dec) = Some parsed" "small_event ev"
    and m: "\<not> kv_load_failed m" "identity_of X m = Some ident"
  shows "\<exists>s. fresh_page m s \<and> fst (ingest_poll X E pg m) =
    i_model (queue_acks X (now_ms E 2) (apply_acks E (now_ms E 1) (ingest_payload X E (now_ms E 1) (sender_hex dec) parsed s)))"
proof (cases X E pg m rule: ingest_poll_cases)
  case (page ident' s)
  let ?m = "adopt_cursor E pg m"
  let ?s0 = "(ingest_start ?m)\<lparr>i_processed := 1, i_budget := MAX_POLL_TOTAL_BYTES - ulen (pe_encrypted_blob ev) div 2, i_stored := 1\<rparr>"
  have "\<not> MAX_POLL_TOTAL_BYTES < ulen (pe_encrypted_blob ev) div 2"
    using ev(4) by (simp add: small_event_def size_caps)
  moreover have "\<not> MAX_BLOB_LEN * 2 < ulen (pe_encrypted_blob ev)" "\<not> MAX_POLL_EVENTS \<le> 0"
    using ev(4) by (simp_all add: small_event_def size_caps)
  ultimately have evs: "ingest_events X E ident (cursor m) (now_ms E 1) [ev] (ingest_start ?m) =
      ingest_payload X E (now_ms E 1) (sender_hex dec) parsed ?s0"
    using ev(1-3) by (simp add: Let_def ingest_start_def)
  have id: "ident' = ident" using page(2) m(2) by simp
  have "fresh_page m ?s0" by (simp add: fresh_page_def ingest_start_def)
  then show ?thesis
    unfolding page(5) page(3) ingest_page_def Let_def pg evs id by blast
qed (use m in simp_all)

lemma ingest_one_text:
  assumes pg: "pr_events pg = [ev]" and ev: "hex_decode X (pe_encrypted_blob ev) = Some blob"
      "decrypt X ident blob = Ok dec" "parse_payload X (plaintext dec) = Some \<lparr>pp_ts = t, pp_payload = Text i body\<rparr>"
      "small_event ev"
    and m: "\<not> kv_load_failed m" "identity_of X m = Some ident" "\<not> shut_out m (sender_hex dec)"
      "bt_get (contacts m) (sender_hex dec) \<noteq> None \<or> length (contacts m) < MAX_CONTACTS"
      "i \<notin> or_default {} (bt_get (seen_ids m) (sender_hex dec))"
      "i \<notin> m_id ` set (or_default [] (bt_get (messages m) (sender_hex dec)))"
    and m': "m' = fst (ingest_poll X E pg m)"
  shows "bt_get (messages m') (sender_hex dec) =
    Some (trim_history (insert_sorted (or_default [] (bt_get (messages m) (sender_hex dec)))
      \<lparr>m_id = i, m_body = body, m_ts = min (max t 0) (sat_add (now_ms E 1) MAX_FUTURE_SKEW_MS),
       m_outgoing = False, m_delivered = False\<rparr>))"
    and "\<exists>ids. bt_get (seen_ids m') (sender_hex dec) = Some ids \<and> i \<in> ids"
    and "bt_get (contacts m) (sender_hex dec) \<noteq> None \<Longrightarrow> contacts m' = contacts m \<and>
      outbox m' = outbox m @ [outbox_item_new (sender_hex dec) (serialize_payload X (DeliveryAck [i]) (now_ms E 2))]"
    and "bt_get (contacts m') (sender_hex dec) \<noteq> None" and "my_pubkey m' = my_pubkey m"
    and "\<not> shut_out m' (sender_hex dec)"
    and "outbox_item_new (sender_hex dec) (serialize_payload X (DeliveryAck [i]) (now_ms E 2)) \<in> set (outbox m')"
proof -
  let ?p = "sender_hex dec" and ?ts = "min (max t 0) (sat_add (now_ms E 1) MAX_FUTURE_SKEW_MS)"
  let ?x = "\<lparr>m_id = i, m_body = body, m_ts = ?ts, m_outgoing = False, m_delivered = False\<rparr>"
  obtain s where s: "fresh_page m s" "fst (ingest_poll X E pg m) = i_model (queue_acks X (now_ms E 2)
      (apply_acks E (now_ms E 1) (ingest_payload X E (now_ms E 1) ?p \<lparr>pp_ts = t, pp_payload = Text i body\<rparr> s)))"
    using ingest_one_event [OF pg ev m(1,2)] by blast
  define s1 where "s1 = (if bt_get (contacts m) ?p \<noteq> None then s else greet_stranger X ?p ?ts s)"
  have pay: "ingest_payload X E (now_ms E 1) ?p \<lparr>pp_ts = t, pp_payload = Text i body\<rparr> s = store_text E ?p ?ts i body s1"
    using m(3,4) s(1) by (auto simp: ingest_payload_def ingest_text_def shut_out_def blocked_def fresh_page_def s1_def Let_def)
  have s1: "messages (i_model s1) = messages m" "seen_ids (i_model s1) = seen_ids m" "i_pending s1 = []" "i_ack_targets s1 = []"
    "my_pubkey (i_model s1) = my_pubkey m" "bt_get (contacts (i_model s1)) ?p \<noteq> None"
    "is_some_and (bt_get (contacts (i_model s1)) ?p) c_blocked = is_some_and (bt_get (contacts m) ?p) c_blocked"
    using s(1) by (simp_all add: s1_def fresh_page_def greet_stranger_def Let_def bt_get_simps contact_new_def is_some_and_def)
  have kept: "i \<in> cap_seen_ids E (insert_sorted l ?x) (insert i ids)" for l ids
  proof (rule cap_seen_keeps)
    have "?x \<in> set (insert_sorted l ?x)" by (simp add: mset_insert_sorted flip: set_mset_mset)
    then show "i \<in> set (map m_id (insert_sorted l ?x))" by force
  qed simp
  have st: "fst (ingest_poll X E pg m) = i_model (queue_acks X (now_ms E 2) (store_text E ?p ?ts i body s1))"
  proof -
    have "i_pending (store_text E ?p ?ts i body s1) = []" using s1(3) by (simp add: store_text_def Let_def)
    then show ?thesis unfolding s(2) pay by (simp only: apply_acks_none)
  qed
  show "bt_get (messages m') ?p = Some (trim_history (insert_sorted (or_default [] (bt_get (messages m) ?p)) ?x))"
    "\<exists>ids. bt_get (seen_ids m') ?p = Some ids \<and> i \<in> ids"
    "bt_get (contacts m') ?p \<noteq> None" "my_pubkey m' = my_pubkey m" "\<not> shut_out m' ?p"
    unfolding m' st using s1 kept m(3,5,6)
    by (simp_all add: store_text_def queue_acks_def Let_def bt_get_simps shut_out_def blocked_def del: One_nat_def)
  show "outbox_item_new ?p (serialize_payload X (DeliveryAck [i]) (now_ms E 2)) \<in> set (outbox m')"
    unfolding m' st using s1 m(5,6)
    by (simp add: store_text_def queue_acks_def ack_items_def Let_def bt_get_simps or_default_def size_caps del: One_nat_def)
  show "contacts m' = contacts m \<and> outbox m' = outbox m @ [outbox_item_new ?p (serialize_payload X (DeliveryAck [i]) (now_ms E 2))]"
    if "bt_get (contacts m) ?p \<noteq> None"
    unfolding m' st using s1 s(1) m(5,6) that
    by (simp add: s1_def fresh_page_def store_text_def queue_acks_def ack_items_def Let_def bt_get_simps or_default_def size_caps
        del: One_nat_def)
qed

lemma ulen_hex:
  assumes "phonemic_ext_ok X"
  shows "ulen (hex_encode X b) = 2 * length b"
proof -
  have hex: "list_all is_hex_digit (hex_encode X b)" "length (hex_encode X b) = 2 * length b"
    using assms by (simp_all add: phonemic_ext_ok_def)
  from hex(1) have "is_ascii (hex_encode X b)"
    by (auto simp: is_ascii_def list_all_iff is_hex_digit_def)
  with hex(2) show ?thesis by (simp add: ulen_ascii)
qed

section \<open>A concrete page\<close>

definition ref_sender :: ustr where
  "ref_sender = public_key_hex ref_app_ext (ref_identity 1)"

definition ref_blob :: bytes where
  "ref_blob = (case encrypt ref_app_ext (\<lambda>_. 0) (ref_identity 1) (replicate 32 2) [66] of Ok b \<Rightarrow> b | _ \<Rightarrow> [])"

definition ref_event :: poll_event where
  "ref_event = \<lparr>pe_encrypted_blob = hex_encode ref_app_ext ref_blob\<rparr>"

definition ref_page :: poll_resp where
  "ref_page = \<lparr>pr_events = [ref_event], pr_cursor = 500\<rparr>"

definition ref_inbox :: model where
  "ref_inbox = model_default\<lparr>secret_key := Some (replicate 64 2), my_pubkey := ref_peer\<rparr>"

lemma ref_inbox_simps [simp]:
  "identity_of ref_app_ext ref_inbox = Some (ref_identity 2)" "\<not> kv_load_failed ref_inbox"
  "contacts ref_inbox = []" "messages ref_inbox = []" "seen_ids ref_inbox = []" "outbox ref_inbox = []"
  "cursor ref_inbox = 0" "my_pubkey ref_inbox = ref_peer"
  by (simp_all add: ref_inbox_def model_default_def identity_of_def ref_app_from_secret)

lemma ref_encrypted: "encrypt ref_app_ext (\<lambda>_. 0) (ref_identity 1) (public_key (ref_identity 2)) [66] = Ok ref_blob"
  using ref_app_encrypt [of "[66]" "\<lambda>_. 0" 1 2] by (auto simp: ref_blob_def ref_identity_key size_caps)

definition ref_dec :: decrypted where
  "ref_dec = \<lparr>plaintext = [66], sender_hex = ref_sender\<rparr>"

lemma ref_event_reads:
  "hex_decode ref_app_ext (pe_encrypted_blob ref_event) = Some ref_blob"
  "decrypt ref_app_ext (ref_identity 2) ref_blob = Ok ref_dec"
  "parse_payload ref_app_ext (plaintext ref_dec) = Some \<lparr>pp_ts = 1000, pp_payload = Text (lit ''u'') (lit ''hi'')\<rparr>"
  "small_event ref_event"
proof -
  show "hex_decode ref_app_ext (pe_encrypted_blob ref_event) = Some ref_blob"
    by (simp add: ref_event_def ref_crypto_ext_def ref_hex_roundtrip)
  show "decrypt ref_app_ext (ref_identity 2) ref_blob = Ok ref_dec"
    using decrypt_sealed [OF ref_app_crypto_ok ref_app_identity_ok ref_app_identity_ok ref_encrypted]
    by (simp add: ref_dec_def ref_sender_def)
  have "serialize_payload ref_app_ext (Text (lit ''u'') (lit ''hi'')) 1000 = [66]"
    by (simp add: serialize_payload_def ref_json_print_def ref_json_value_def del: payload_value.simps)
  then have "plaintext ref_dec = utf8_encode (serialize_payload ref_app_ext (Text (lit ''u'') (lit ''hi'')) 1000)"
    by (simp add: ref_dec_def utf8_char_def)
  then show "parse_payload ref_app_ext (plaintext ref_dec) = Some \<lparr>pp_ts = 1000, pp_payload = Text (lit ''u'') (lit ''hi'')\<rparr>"
    using parse_serialized [OF ref_app_ext_ok, of "Text (lit ''u'') (lit ''hi'')" 1000]
    by (simp add: payload_wf_def lit_def is_scalar_def in_i64_def i64_min_def i64_max_def
        sanitize_text_def keeps_char_def size_caps utf8_char_def)
  have "length ref_blob \<le> MAX_BLOB_LEN"
    using encrypt_blob_length [OF ref_app_crypto_ok ref_app_identity_ok ref_encrypted] by blast
  then show "small_event ref_event"
    using ulen_hex [OF ok_phonemic [OF ref_app_crypto_ok], of ref_blob] by (simp add: small_event_def ref_event_def)
qed

lemma ref_sender_open: "\<not> shut_out ref_inbox ref_sender"
proof -
  have "ref_hex_decode ref_sender = Some (replicate 32 1)" "ref_hex_decode ref_peer = Some (replicate 32 2)"
    by (simp_all add: ref_sender_def public_key_hex_def ref_peer_def ref_identity_key ref_crypto_ext_def ref_hex_roundtrip)
  then have "ref_sender \<noteq> ref_peer" by auto
  then show ?thesis by (simp add: shut_out_def blocked_def is_some_and_def)
qed

definition ref_msg_in :: stored_message where
  "ref_msg_in = \<lparr>m_id = lit ''u'', m_body = lit ''hi'', m_ts = 1000, m_outgoing = False, m_delivered = False\<rparr>"

lemma ref_page_stores:
  "bt_get (messages (fst (ingest_poll ref_app_ext ref_env ref_page ref_inbox))) ref_sender = Some [ref_msg_in]"
proof -
  have s: "sender_hex ref_dec = ref_sender" by (simp add: ref_dec_def)
  have "bt_get (messages (fst (ingest_poll ref_app_ext ref_env ref_page ref_inbox))) (sender_hex ref_dec) =
    Some (trim_history (insert_sorted (or_default [] (bt_get (messages ref_inbox) (sender_hex ref_dec)))
      \<lparr>m_id = lit ''u'', m_body = lit ''hi'', m_ts = min (max 1000 0) (sat_add (now_ms ref_env 1) MAX_FUTURE_SKEW_MS),
       m_outgoing = False, m_delivered = False\<rparr>))"
    by (rule ingest_one_text(1) [OF _ ref_event_reads _ _ _ _ _ _ refl])
      (simp_all add: ref_page_def s ref_sender_open or_default_def size_caps)
  then show ?thesis
    by (simp add: s or_default_def insert_sorted_def partition_point_def trim_history_def size_caps sat_add_def
        sat_i64_def i64_min_def i64_max_def ref_msg_in_def)
qed

lemma ref_env_ok: "env_ok ref_env"
  by (simp add: env_ok_def)

text \<open>Two blobs of the largest size that is looked at: together they exceed the bytes of a page.\<close>

definition ref_junk :: poll_event where
  "ref_junk = \<lparr>pe_encrypted_blob = replicate (MAX_BLOB_LEN * 2) 0\<rparr>"

lemma ref_junk_simps:
  "ulen (pe_encrypted_blob ref_junk) = MAX_BLOB_LEN * 2" "\<not> readable ref_app_ext ident ref_junk" "small_event ref_junk"
proof -
  have "MAX_BLOB_LEN * 2 = Suc (Suc (MAX_BLOB_LEN * 2 - 2))" by (simp add: size_caps)
  then have "pe_encrypted_blob ref_junk = 0 # 0 # replicate (MAX_BLOB_LEN * 2 - 2) 0"
    unfolding ref_junk_def poll_event.simps by (metis replicate_Suc)
  then have "hex_decode ref_app_ext (pe_encrypted_blob ref_junk) = None"
    by (simp add: ref_crypto_ext_def ref_undigit_def)
  then show "\<not> readable ref_app_ext ident ref_junk" by (simp add: readable_def event_payload_def)
  show len: "ulen (pe_encrypted_blob ref_junk) = MAX_BLOB_LEN * 2" by (simp add: ref_junk_def ulen_ascii is_ascii_def list_all_iff)
  then show "small_event ref_junk" by (simp add: small_event_def)
qed

theorem ingest_cursor_witness:
  "cursor (fst (ingest_poll ref_app_ext ref_env \<lparr>pr_events = [ref_junk, ref_junk], pr_cursor = 500\<rparr> ref_inbox)) = 0 \<and>
   cursor (fst (ingest_poll ref_app_ext ref_env ref_page ref_inbox)) = 500"
proof -
  let ?pg = "\<lparr>pr_events = [ref_junk, ref_junk], pr_cursor = 500\<rparr>"
  have over: "\<not> within_limits (pr_events ?pg)"
    by (simp add: within_limits_def event_bytes_def ref_junk_simps size_caps)
  have none: "\<not> reads_some ref_app_ext ident (pr_events ?pg)" for ident
    by (auto simp: reads_some_def ref_junk_simps take_Cons' split: if_splits)
  have "within_limits (pr_events ref_page)"
    using ref_event_reads(4) by (simp add: within_limits_def event_bytes_def ref_page_def small_event_def size_caps)
  then show ?thesis
    using ingest_cursor [of _ ref_app_ext ref_env ?pg ref_inbox, OF refl] ingest_cursor [of _ ref_app_ext ref_env ref_page ref_inbox, OF refl]
      over none
    by (simp add: ref_page_def sat_add_def sat_i64_def i64_min_def i64_max_def)
qed

theorem ingest_ignores_shut_out_witness:
  "bt_get (messages (fst (ingest_poll ref_app_ext ref_env ref_page ref_inbox))) ref_peer = None"
  using ingest_ignores_shut_out [of _ ref_app_ext ref_env ref_page ref_inbox, OF refl] by simp

theorem ingest_authentic_witness:
  "\<exists>ev\<in>set (pr_events ref_page). event_payload ref_app_ext (ref_identity 2) ev ref_sender (Text (lit ''u'') (lit ''hi''))"
  using ingest_authentic [OF _ refl ref_page_stores, of "ref_identity 2" ref_msg_in]
  by (simp add: or_default_def ref_msg_in_def)

theorem ingest_acks_stored_witness:
  "\<exists>a\<in>set (outbox (fst (ingest_poll ref_app_ext ref_env ref_page ref_inbox))). o_recipient a = ref_sender"
  using ingest_acks_stored [OF ref_app_ext_ok refl ref_page_stores, of ref_msg_in]
  by (auto simp: or_default_def ref_msg_in_def)

end
