(* ===== verification/Lifecycle.thy ===== *)
theory Lifecycle
  imports Ingest_Correct
begin

text \<open>
  The handlers of \<open>update\<close> in \<open>core/src/app.rs\<close> that run the session: loading the identity and the
  stored state, the results of writes, navigation, the relay address, connecting, authenticating and
  polling. Each handler takes the model and gives the new model and the commands it requests.
\<close>

section \<open>Startup\<close>

definition err :: "string \<Rightarrow> model \<Rightarrow> model" where
  "err s m = m\<lparr>error := Some (lit s)\<rparr>"

definition on_identity_loaded :: "'z app_ext_scheme \<Rightarrow> bytes \<Rightarrow> model \<Rightarrow> model \<times> cmd list" where
  "on_identity_loaded X sk m =
     (case from_secret_bytes X sk of
        Ok ident \<Rightarrow>
          (m\<lparr>secret_key := Some sk, my_pubkey := public_key_hex X ident, page := Conversations,
             loads_pending := STARTUP_LOADS, kv_load_failed := False\<rparr>,
           [KvGet K_SETTINGS ThenLoadedSettings, KvGet K_PROFILE ThenLoadedProfile,
            KvGet K_CONTACTS ThenLoadedContacts, KvGet K_CURSOR ThenLoadedCursor,
            KvGet K_OUTBOX ThenLoadedOutbox, KvGet K_SEEN_IDS ThenLoadedSeenIds, Render])
      | _ \<Rightarrow> (err ''invalid identity key'' m, [Render]))"

definition RESTART_APP :: ustr where
  "RESTART_APP = lit ''storage read failed '' @ [0x2014] @ lit '' restart the app; changes will not be saved until you do''"

definition startup_done :: "model \<Rightarrow> model \<times> cmd list" where
  "startup_done m =
     (let (last_one, m1) = startup_load_done m
      in if \<not> last_one then (m1, [])
         else if kv_load_failed m1 then (m1\<lparr>error := Some RESTART_APP\<rparr>, [Render])
         else (m1, [Emit Connect]))"

definition load_failed :: "string \<Rightarrow> model \<Rightarrow> model" where
  "load_failed what m = err (''could not read '' @ what @ '' from storage'') (m\<lparr>kv_load_failed := True\<rparr>)"

definition then_startup_done :: "model \<Rightarrow> model \<times> cmd list" where
  "then_startup_done m = (let (m1, c) = startup_done m in (m1, c @ [Render]))"

definition on_loaded_settings :: "'z app_ext_scheme \<Rightarrow> kv_data \<Rightarrow> model \<Rightarrow> model \<times> cmd list" where
  "on_loaded_settings X res m =
     then_startup_done
       (case parse_kv (de_settings X) res of
          Inr (Some s) \<Rightarrow>
            m\<lparr>settings := (settings m)\<lparr>server_url :=
                (case normalize_server_url X (server_url s) of Some u \<Rightarrow> u | None \<Rightarrow> DEFAULT_SERVER_URL)\<rparr>\<rparr>
        | Inr None \<Rightarrow> m
        | Inl u \<Rightarrow> load_failed ''settings'' m)"

definition on_loaded_profile :: "'z app_ext_scheme \<Rightarrow> kv_data \<Rightarrow> model \<Rightarrow> model \<times> cmd list" where
  "on_loaded_profile X res m =
     then_startup_done
       (case parse_kv (de_profile X) res of
          Inr (Some p) \<Rightarrow> m\<lparr>profile := p\<rparr>
        | Inr None \<Rightarrow> m
        | Inl u \<Rightarrow> load_failed ''profile'' m)"

definition on_loaded_contacts :: "'z app_ext_scheme \<Rightarrow> kv_data \<Rightarrow> model \<Rightarrow> model \<times> cmd list" where
  "on_loaded_contacts X res m =
     (let (m1, c1) = startup_done m;
          (m2, c2) =
            (case parse_kv (de_contacts X) res of
               Inr (Some l) \<Rightarrow>
                 let m' = m1\<lparr>contacts := bt_collect (map (\<lambda>c. (c_pubkey c, c)) l)\<rparr>
                 in (m', map (\<lambda>peer. KvGet (k_messages peer) (ThenLoadedMessages peer)) (bt_keys (contacts m')))
             | Inr None \<Rightarrow> (m1, [])
             | Inl u \<Rightarrow> (load_failed ''contacts'' m1, []))
      in (m2, c1 @ c2 @ [Render]))"

definition on_loaded_cursor :: "'z app_ext_scheme \<Rightarrow> kv_data \<Rightarrow> model \<Rightarrow> model \<times> cmd list" where
  "on_loaded_cursor X res m =
     then_startup_done
       (case parse_kv (de_cursor X) res of
          Inr (Some c) \<Rightarrow> m\<lparr>cursor := c\<rparr>
        | Inr None \<Rightarrow> m
        | Inl u \<Rightarrow> load_failed ''cursor'' m)"

definition on_loaded_outbox :: "'z app_ext_scheme \<Rightarrow> kv_data \<Rightarrow> model \<Rightarrow> model \<times> cmd list" where
  "on_loaded_outbox X res m =
     then_startup_done
       (case parse_kv (de_outbox X) res of
          Inr (Some q) \<Rightarrow> m\<lparr>outbox := q\<rparr>
        | Inr None \<Rightarrow> m
        | Inl u \<Rightarrow> load_failed ''outbox'' m)"

definition on_loaded_seen_ids :: "'z app_ext_scheme \<Rightarrow> kv_data \<Rightarrow> model \<Rightarrow> model \<times> cmd list" where
  "on_loaded_seen_ids X res m =
     then_startup_done
       (case parse_kv (de_seen_ids X) res of
          Inr (Some ids) \<Rightarrow> m\<lparr>seen_ids := ids\<rparr>
        | Inr None \<Rightarrow> m
        | Inl u \<Rightarrow> m\<lparr>seen_ids := []\<rparr>)"

definition merge_history :: "stored_message list \<Rightarrow> stored_message list \<Rightarrow> stored_message list" where
  "merge_history existing l =
     trim_history (sort_key m_ts (existing @ filter (\<lambda>x. m_id x \<notin> set (map m_id existing)) l))"

definition on_loaded_messages :: "'z app_ext_scheme \<Rightarrow> ustr \<Rightarrow> kv_data \<Rightarrow> model \<Rightarrow> model \<times> cmd list" where
  "on_loaded_messages X peer res m =
     (case parse_kv (de_messages X) res of
        Inr (Some l) \<Rightarrow>
          (m\<lparr>seen_ids := bt_modify peer (\<lambda>ids. ids \<union> set (map m_id l)) (seen_ids m),
             messages := (case bt_get (messages m) peer of
                            Some existing \<Rightarrow> bt_modify peer (\<lambda>_. merge_history existing l) (messages m)
                          | None \<Rightarrow> bt_insert peer l (messages m))\<rparr>, [Render])
      | Inr None \<Rightarrow> (m, [Render])
      | Inl u \<Rightarrow> (load_failed ''messages'' m, [Render]))"

section \<open>Results of writes\<close>

definition save_failed :: "ustr \<Rightarrow> model \<Rightarrow> model" where
  "save_failed e m = m\<lparr>error := Some (lit ''could not save data: '' @ e)\<rparr>"

definition on_saved :: "kv_data \<Rightarrow> model \<Rightarrow> model \<times> cmd list" where
  "on_saved res m = (case res of Inl e \<Rightarrow> (save_failed e m, [Render]) | Inr _ \<Rightarrow> (m, []))"

definition on_saved_cursor :: "kv_data \<Rightarrow> model \<Rightarrow> model \<times> cmd list" where
  "on_saved_cursor res m = (case res of Inl e \<Rightarrow> backoff_poll (save_failed e m) | Inr _ \<Rightarrow> (m, [Emit Poll]))"

section \<open>Navigation\<close>

definition show_page :: "page \<Rightarrow> model \<Rightarrow> model \<times> cmd list" where
  "show_page p m = (m\<lparr>page := p, error := None\<rparr>, [Render])"

definition on_show_conversations :: "model \<Rightarrow> model \<times> cmd list" where
  "on_show_conversations m = show_page Conversations (m\<lparr>active_peer := None\<rparr>)"

definition on_back :: "model \<Rightarrow> model \<times> cmd list" where
  "on_back m = show_page Conversations (m\<lparr>active_peer := None\<rparr>)"

definition on_open_chat :: "ustr \<Rightarrow> model \<Rightarrow> model \<times> cmd list" where
  "on_open_chat peer m = show_page Chat (m\<lparr>active_peer := Some peer\<rparr>)"

definition on_compose_changed :: "ustr \<Rightarrow> model \<Rightarrow> model \<times> cmd list" where
  "on_compose_changed s m = (m\<lparr>compose := s\<rparr>, [Render])"

section \<open>Relay and connection\<close>

definition on_set_server_url :: "'z app_ext_scheme \<Rightarrow> ustr \<Rightarrow> model \<Rightarrow> model \<times> cmd list" where
  "on_set_server_url X u m =
     (case normalize_server_url X u of
        None \<Rightarrow> (err ''server URL must be an http(s) address'' m, [Render])
      | Some u' \<Rightarrow>
          let m1 = m\<lparr>error := None, settings := (settings m)\<lparr>server_url := u'\<rparr>, token := None,
                     conn := Offline, send_batch_budget := None, cursor := 0\<rparr>;
              m2 = abandon_flush (abandon_poll m1);
              m3 = m2\<lparr>flush_paused_until := 0, send_retries := 0, poll_retries := 0\<rparr>;
              (refused, m4) = refuse_write m3;
              writes = (if refused then []
                        else [KvSet K_SETTINGS (json_bytes X (VSettings (settings m4))) ThenSaved,
                              KvSet K_CURSOR (json_bytes X (VCursor 0)) ThenSaved])
          in (m4, writes @ [Emit Connect, Render]))"

definition on_connect :: "model \<Rightarrow> model \<times> cmd list" where
  "on_connect m =
     (let m1 = abandon_auth m
      in if kv_load_failed m1 then (m1, [Render])
         else if secret_key m1 \<noteq> None \<and> conn m1 \<noteq> Online then (m1, [Emit Authenticate])
         else if secret_key m1 \<noteq> None \<and> conn m1 = Online \<and> \<not> polling m1 then (m1, [Emit Poll])
         else (m1, [Render]))"

section \<open>Authentication\<close>

definition on_authenticate :: "'z app_ext_scheme \<Rightarrow> model \<Rightarrow> model \<times> cmd list" where
  "on_authenticate X m =
     (if authenticating m then (m, [])
      else case identity_of X m of
        None \<Rightarrow> (m, [Render])
      | Some ident \<Rightarrow>
          let m1 = m\<lparr>conn := Connecting, error := None\<rparr>;
              u = server_url (settings m1) @ lit ''/auth/challenge'';
              body = ChallengeReq (public_key_hex X ident)
          in if body_json_ok X body
             then let (gen, m2) = next_auth_gen (m1\<lparr>authenticating := True\<rparr>)
                  in (m2, [HttpPost u None body (ThenChallengeResult gen),
                           NotifyAfter AUTH_WATCHDOG_MS (AuthWatchdog gen), Render])
             else schedule_reconnect (err ''could not build auth request'' (m1\<lparr>conn := Offline\<rparr>)))"

definition take_body :: "response \<Rightarrow> bytes" where
  "take_body r = (case r_body r of Some b \<Rightarrow> b | None \<Rightarrow> [])"

definition on_challenge_result :: "'z app_ext_scheme \<Rightarrow> gen \<Rightarrow> http_result \<Rightarrow> model \<Rightarrow> model \<times> cmd list" where
  "on_challenge_result X g res m =
     (if g \<noteq> auth_gen m then (m, [])
      else
        let m1 = m\<lparr>authenticating := False\<rparr>
        in case res of
             Inl u \<Rightarrow> schedule_reconnect (m1\<lparr>conn := Offline\<rparr>)
           | Inr resp \<Rightarrow>
               (case identity_of X m1 of
                  None \<Rightarrow> (m1, [Render])
                | Some ident \<Rightarrow>
                    (case de_challenge X (take_body resp) of
                       None \<Rightarrow> schedule_reconnect (m1\<lparr>conn := Offline\<rparr>)
                     | Some challenge \<Rightarrow>
                         let host = server_host X (server_url (settings m1))
                         in case sign_challenge X ident host challenge of
                              Ok signature \<Rightarrow>
                                let u = server_url (settings m1) @ lit ''/auth/verify'';
                                    body = VerifyReq (public_key_hex X ident) challenge signature False
                                in if body_json_ok X body
                                   then (m1\<lparr>authenticating := True\<rparr>, [HttpPost u None body (ThenVerifyResult g)])
                                   else schedule_reconnect
                                          (err ''could not build auth request'' (m1\<lparr>conn := Offline\<rparr>))
                            | _ \<Rightarrow> schedule_reconnect
                                     (err ''relay sent a malformed auth challenge'' (m1\<lparr>conn := Offline\<rparr>)))))"

definition on_verify_result :: "'z app_ext_scheme \<Rightarrow> gen \<Rightarrow> http_result \<Rightarrow> model \<Rightarrow> model \<times> cmd list" where
  "on_verify_result X g res m =
     (if g \<noteq> auth_gen m then (m, [])
      else
        let m1 = m\<lparr>authenticating := False\<rparr>
        in case res of
             Inl u \<Rightarrow> schedule_reconnect (m1\<lparr>conn := Offline\<rparr>)
           | Inr resp \<Rightarrow>
               (case de_verify X (take_body resp) of
                  Some tok \<Rightarrow>
                    if tok \<noteq> []
                    then (m1\<lparr>token := Some tok, conn := Online, poll_retries := 0, error := None\<rparr>,
                          [Emit Poll, Emit StartFlush, Render])
                    else schedule_reconnect (m1\<lparr>conn := Offline\<rparr>)
                | None \<Rightarrow> schedule_reconnect (m1\<lparr>conn := Offline\<rparr>)))"

definition on_auth_watchdog :: "gen \<Rightarrow> model \<Rightarrow> model \<times> cmd list" where
  "on_auth_watchdog g m =
     (if g \<noteq> auth_gen m \<or> \<not> authenticating m then (m, []) else (abandon_auth m, [Emit Authenticate]))"

section \<open>Polling\<close>

definition on_poll :: "'z app_ext_scheme \<Rightarrow> model \<Rightarrow> model \<times> cmd list" where
  "on_poll X m =
     (if polling m then (m, [])
      else case token m of
        None \<Rightarrow> (m, [Emit Authenticate])
      | Some tok \<Rightarrow>
          let u = server_url (settings m) @ lit ''/poll'';
              body = PollReq (cursor m)
          in if body_json_ok X body
             then let (gen, m1) = next_poll_gen (m\<lparr>polling := True\<rparr>)
                  in (m1, [HttpPost u (Some (bearer tok)) body (ThenPollResult gen),
                           NotifyAfter POLL_WATCHDOG_MS (PollWatchdog gen)])
             else backoff_poll (err ''could not build poll request'' m))"

definition on_poll_watchdog :: "gen \<Rightarrow> model \<Rightarrow> model \<times> cmd list" where
  "on_poll_watchdog g m =
     (if g \<noteq> poll_gen m \<or> \<not> polling m then (m, []) else (abandon_poll m, [Emit Poll]))"

definition NOT_SAVED :: ustr where
  "NOT_SAVED = lit ''storage read failed '' @ [0x2014] @ lit '' restart the app; messages are not being saved''"

definition on_poll_page :: "'z app_ext_scheme \<Rightarrow> env \<Rightarrow> poll_resp \<Rightarrow> model \<Rightarrow> model \<times> cmd list" where
  "on_poll_page X E pg m =
     (let cursor_before = cursor m;
          (m1, c) = ingest_poll X E pg m;
          cursor_advanced = (cursor m1 \<noteq> cursor_before)
      in (m1, c @
           [if cursor_advanced then KvSet K_CURSOR (json_bytes X (VCursor (cursor m1))) ThenSavedCursor
            else Emit Poll,
            NotifyAfter POLL_WATCHDOG_MS Poll, Render]))"

definition on_poll_result :: "'z app_ext_scheme \<Rightarrow> env \<Rightarrow> gen \<Rightarrow> http_result \<Rightarrow> model \<Rightarrow> model \<times> cmd list" where
  "on_poll_result X E g res m =
     (if g \<noteq> poll_gen m then (m, [])
      else
        let m1 = m\<lparr>polling := False\<rparr>
        in case res of
             Inl u \<Rightarrow> backoff_poll m1
           | Inr resp \<Rightarrow>
               if r_status resp = 401 then (m1\<lparr>token := None\<rparr>, [Emit Authenticate])
               else if \<not> (200 \<le> r_status resp \<and> r_status resp < 300) then backoff_poll m1
               else
                 let m2 = m1\<lparr>poll_retries := 0\<rparr>
                 in if kv_load_failed m2 then (m2\<lparr>error := Some NOT_SAVED\<rparr>, [Render])
                    else let bs = take_body resp
                         in if length bs > MAX_POLL_RESPONSE_BYTES
                            then backoff_poll (err ''relay sent an oversized poll response'' m2)
                            else (case de_poll X bs of
                                    None \<Rightarrow> backoff_poll (err ''relay sent a malformed poll response'' m2)
                                  | Some pg \<Rightarrow> on_poll_page X E pg m2))"

end
