(* ===== verification/Actions.thy ===== *)
theory Actions
  imports Lifecycle
begin

text \<open>
  The user's actions (\<open>update\<close> and \<open>send_text\<close> in \<open>core/src/app.rs\<close>): adding, blocking and
  deleting contacts, saving the profile and sending a text.
\<close>

section \<open>Contacts\<close>

definition on_add_contact :: "'z app_ext_scheme \<Rightarrow> env \<Rightarrow> ustr \<Rightarrow> ustr \<Rightarrow> model \<Rightarrow> model \<times> cmd list" where
  "on_add_contact X E input nickname m =
     (let m1 = m\<lparr>error := None\<rparr>
      in if ulen nickname > MAX_DISPLAY_NAME_LEN then (err ''nickname too long'' m1, [Render])
         else case try_parse_pubkey X input of
           Some hex \<Rightarrow>
             if hex \<noteq> my_pubkey m1
             then let c1 = (case bt_get (contacts m1) hex of
                              Some _ \<Rightarrow> contacts m1
                            | None \<Rightarrow> bt_insert hex (contact_new hex nickname (now_ms E 0)) (contacts m1));
                      c2 = (if nickname \<noteq> [] then bt_modify hex (\<lambda>c. c\<lparr>c_nickname := nickname\<rparr>) c1 else c1);
                      (m2, w) = persist_contacts X (m1\<lparr>contacts := c2, error := None, page := Conversations\<rparr>)
                  in (m2, w @ [Render])
             else (err ''that's your own key'' m1, [Render])
         | None \<Rightarrow> (err ''invalid public key'' m1, [Render]))"

definition forget_outgoing :: "ustr \<Rightarrow> model \<Rightarrow> model" where
  "forget_outgoing peer m =
     detach_in_flight peer (m\<lparr>outbox := filter (\<lambda>i. o_recipient i \<noteq> peer) (outbox m)\<rparr>)"

definition on_set_blocked :: "'z app_ext_scheme \<Rightarrow> ustr \<Rightarrow> bool \<Rightarrow> model \<Rightarrow> model \<times> cmd list" where
  "on_set_blocked X peer b m =
     (let m1 = m\<lparr>contacts := bt_modify peer (\<lambda>c. c\<lparr>c_blocked := b\<rparr>) (contacts m), error := None\<rparr>
      in if b
         then let (m2, w1) = persist_contacts X (forget_outgoing peer m1);
                  (m3, w2) = persist_outbox X m2
              in (m3, w1 @ w2 @ [Render])
         else let (m2, w1) = persist_contacts X m1 in (m2, w1 @ [Render]))"

definition on_delete_contact :: "'z app_ext_scheme \<Rightarrow> ustr \<Rightarrow> model \<Rightarrow> model \<times> cmd list" where
  "on_delete_contact X peer m =
     (let m1 = forget_outgoing peer
                 (m\<lparr>contacts := bt_remove peer (contacts m), messages := bt_remove peer (messages m),
                    seen_ids := bt_remove peer (seen_ids m)\<rparr>);
          m2 = (if active_peer m1 = Some peer then m1\<lparr>active_peer := None, page := Conversations\<rparr> else m1);
          (m3, w1) = persist_contacts X (m2\<lparr>error := None\<rparr>);
          (m4, w2) = persist_outbox X m3;
          (m5, w3) = persist_seen_ids X m4
      in (m5, w1 @ [KvDelete (k_messages peer) ThenSaved] @ w2 @ w3 @ [Render]))"

section \<open>Profile\<close>

fun update_first :: "('a \<Rightarrow> bool) \<Rightarrow> ('a \<Rightarrow> 'a) \<Rightarrow> 'a list \<Rightarrow> 'a list option" where
  "update_first P f [] = None"
| "update_first P f (x # xs) = (if P x then Some (f x # xs) else map_option ((#) x) (update_first P f xs))"

definition queue_profile :: "nat \<Rightarrow> ustr \<Rightarrow> ustr \<Rightarrow> outbox_item list \<Rightarrow> outbox_item list" where
  "queue_profile live payload_json peer q =
     (case update_first (\<lambda>i. is_profile i \<and> o_recipient i = peer)
             (\<lambda>i. i\<lparr>o_envelope_json := payload_json\<rparr>) (drop live q) of
        Some behind \<Rightarrow> take live q @ behind
      | None \<Rightarrow> q @ [outbox_item_profile peer payload_json])"

definition profile_recipients :: "model \<Rightarrow> ustr list" where
  "profile_recipients m = map c_pubkey (filter (\<lambda>c. \<not> c_blocked c) (bt_values (contacts m)))"

definition broadcast_profile :: "'z app_ext_scheme \<Rightarrow> int \<Rightarrow> model \<Rightarrow> model" where
  "broadcast_profile X ts m =
     (let payload_json = serialize_payload X (own_profile_payload m) ts;
          live = in_flight_count m
      in m\<lparr>outbox := fold (queue_profile live payload_json) (profile_recipients m) (outbox m)\<rparr>)"

definition on_save_profile ::
    "'z app_ext_scheme \<Rightarrow> env \<Rightarrow> ustr \<Rightarrow> ustr \<Rightarrow> ustr option \<Rightarrow> model \<Rightarrow> model \<times> cmd list" where
  "on_save_profile X E display_name bio photo m =
     (let m1 = m\<lparr>error := None\<rparr>
      in if length display_name > MAX_DISPLAY_NAME_LEN then (err ''display name too long'' m1, [Render])
         else if length bio > MAX_BIO_LEN then (err ''bio too long'' m1, [Render])
         else if is_some_and photo (\<lambda>p. ulen p > MAX_PHOTO_LEN) then (err ''photo too large'' m1, [Render])
         else if is_some_and photo (\<lambda>p. \<not> base64_ok X p) then (err ''photo is not valid base64'' m1, [Render])
         else
           let m2 = m1\<lparr>profile := \<lparr>op_display_name = display_name, op_bio = bio, op_photo = photo\<rparr>,
                       page := Conversations\<rparr>;
               m3 = broadcast_profile X (now_ms E 0) m2;
               (m4, w1) = persist_profile X m3;
               (m5, w2) = persist_outbox X m4
           in (m5, w1 @ w2 @ [Emit StartFlush, Render]))"

section \<open>Texts\<close>

definition compose_text :: "'z app_ext_scheme \<Rightarrow> env \<Rightarrow> ustr \<Rightarrow> ustr \<Rightarrow> model \<Rightarrow> model" where
  "compose_text X E peer body m =
     (let was_new = (bt_get (contacts m) peer = None);
          ts = now_ms E 0;
          msg_id = uuid E;
          convo = trim_history (insert_sorted (or_default [] (bt_get (messages m) peer))
            \<lparr>m_id = msg_id, m_body = body, m_ts = ts, m_outgoing = True, m_delivered = False\<rparr>);
          text_item = outbox_item_new peer (serialize_payload X (Text msg_id body) ts);
          profile_item = outbox_item_profile peer (serialize_payload X (own_profile_payload m) ts)
      in m\<lparr>compose := [], messages := bt_insert peer convo (messages m),
           contacts := (if was_new then bt_insert peer (contact_new peer [] ts) (contacts m) else contacts m),
           outbox := outbox m @ [text_item] @ (if was_new then [profile_item] else [])\<rparr>)"

definition send_text :: "'z app_ext_scheme \<Rightarrow> env \<Rightarrow> model \<Rightarrow> model \<times> cmd list" where
  "send_text X E m =
     (case active_peer m of
        None \<Rightarrow> (m, [Render])
      | Some peer \<Rightarrow>
          let m1 = m\<lparr>error := None\<rparr>
          in if is_some_and (bt_get (contacts m1) peer) c_blocked
             then (err ''cannot send to a blocked contact'' m1, [Render])
             else let body = trim (compose m1)
                  in if body = [] then (m1, [Render])
                     else if ulen body > MAX_BODY_LEN then (err ''message too long'' m1, [Render])
                     else if bt_get (contacts m1) peer = None \<and> length (contacts m1) \<ge> MAX_CONTACTS
                       then (err ''contact list is full'' m1, [Render])
                     else let m2 = compose_text X E peer body m1;
                              (m3, w1) = persist_messages X peer m2;
                              (m4, w2) = persist_contacts X m3;
                              (m5, w3) = persist_outbox X m4
                          in (m5, w1 @ w2 @ w3 @ [Emit StartFlush, Render]))"

end
