(* ===== verification/View.thy ===== *)
theory View
  imports Actions "HOL-Library.Product_Lexorder"
begin

text \<open>
  What the shell renders (\<open>view\<close> in \<open>core/src/app.rs\<close> and the view types of
  \<open>core/src/model.rs\<close>).
\<close>

record profile_vm =
  pv_display_name :: ustr
  pv_bio :: ustr
  pv_photo :: ustr

record contact_vm =
  cv_pubkey :: ustr
  cv_name :: ustr
  cv_ob :: ustr
  cv_photo :: ustr
  cv_blocked :: bool
  cv_last_message :: ustr
  cv_last_ts :: int

record message_vm =
  mv_id :: ustr
  mv_body :: ustr
  mv_ts :: int
  mv_outgoing :: bool
  mv_delivered :: bool

record view_model =
  vm_page :: ustr
  vm_has_identity :: bool
  vm_my_pubkey_hex :: ustr
  vm_my_pubkey_ob :: ustr
  vm_conn_status :: ustr
  vm_server_url :: ustr
  vm_profile :: profile_vm
  vm_contacts :: "contact_vm list"
  vm_active_peer :: ustr
  vm_active_peer_name :: ustr
  vm_active_peer_ob :: ustr
  vm_active_peer_blocked :: bool
  vm_messages :: "message_vm list"
  vm_error :: ustr

fun page_name :: "page \<Rightarrow> ustr" where
  "page_name Conversations = lit ''conversations''"
| "page_name Chat = lit ''chat''"
| "page_name AddContactPage = lit ''add_contact''"
| "page_name SettingsPage = lit ''settings''"
| "page_name EditProfilePage = lit ''edit_profile''"

fun conn_name :: "conn_status \<Rightarrow> ustr" where
  "conn_name Offline = lit ''offline''"
| "conn_name Connecting = lit ''connecting''"
| "conn_name Online = lit ''online''"

definition last_message :: "model \<Rightarrow> ustr \<Rightarrow> stored_message option" where
  "last_message m p =
     (case bt_get (messages m) p of None \<Rightarrow> None | Some l \<Rightarrow> (if l = [] then None else Some (last l)))"

definition contact_view :: "'z phonemic_ext_scheme \<Rightarrow> model \<Rightarrow> contact \<Rightarrow> contact_vm" where
  "contact_view X m c =
     (let peer = or_default [] (active_peer m);
          newest = last_message m (c_pubkey c)
      in \<lparr>cv_pubkey = c_pubkey c, cv_name = label X c, cv_ob = hex_to_ob X (c_pubkey c),
          cv_photo = (if page m = Chat \<and> c_pubkey c \<noteq> peer then [] else or_default [] (c_photo c)),
          cv_blocked = c_blocked c,
          cv_last_message = (case newest of Some x \<Rightarrow> m_body x | None \<Rightarrow> []),
          cv_last_ts = (case newest of Some x \<Rightarrow> m_ts x | None \<Rightarrow> 0)\<rparr>)"

definition message_view :: "stored_message \<Rightarrow> message_vm" where
  "message_view s =
     \<lparr>mv_id = m_id s, mv_body = m_body s, mv_ts = m_ts s, mv_outgoing = m_outgoing s, mv_delivered = m_delivered s\<rparr>"

definition view :: "'z phonemic_ext_scheme \<Rightarrow> model \<Rightarrow> view_model" where
  "view X m =
     (let peer = or_default [] (active_peer m);
          active_contact = bt_get (contacts m) peer
      in \<lparr>vm_page = page_name (page m), vm_has_identity = (secret_key m \<noteq> None),
          vm_my_pubkey_hex = my_pubkey m, vm_my_pubkey_ob = hex_to_ob X (my_pubkey m),
          vm_conn_status = conn_name (conn m), vm_server_url = server_url (settings m),
          vm_profile = \<lparr>pv_display_name = op_display_name (profile m), pv_bio = op_bio (profile m),
                        pv_photo = or_default [] (op_photo (profile m))\<rparr>,
          vm_contacts = sort_key (\<lambda>v. (- cv_last_ts v, cv_name v))
                          (map (contact_view X m) (bt_values (contacts m))),
          vm_active_peer = peer,
          vm_active_peer_name = (case active_contact of None \<Rightarrow> trunc_ob X peer | Some c \<Rightarrow> label X c),
          vm_active_peer_ob = hex_to_ob X peer,
          vm_active_peer_blocked = is_some_and active_contact c_blocked,
          vm_messages = map message_view (or_default [] (bt_get (messages m) peer)),
          vm_error = or_default [] (error m)\<rparr>)"

section \<open>The contact list\<close>

text \<open>When a contact was last heard of or written to.\<close>

definition recent :: "model \<Rightarrow> contact \<Rightarrow> int" where
  "recent m c =
     (let l = or_default [] (bt_get (messages m) (c_pubkey c)) in if l = [] then 0 else Max (m_ts ` set l))"

definition shows_contact :: "'z phonemic_ext_scheme \<Rightarrow> model \<Rightarrow> contact \<Rightarrow> contact_vm \<Rightarrow> bool" where
  "shows_contact X m c v \<longleftrightarrow>
     (let l = or_default [] (bt_get (messages m) (c_pubkey c)) in
        cv_pubkey v = c_pubkey c \<and> cv_name v = label X c \<and> cv_ob v = hex_to_ob X (c_pubkey c) \<and>
        cv_blocked v = c_blocked c \<and> cv_last_ts v = recent m c \<and>
        (l = [] \<longrightarrow> cv_last_message v = []) \<and>
        (l \<noteq> [] \<longrightarrow> cv_last_message v = m_body (last l) \<and> (\<forall>x\<in>set l. m_ts x \<le> m_ts (last l))) \<and>
        cv_photo v = (if page m = Chat \<and> c_pubkey c \<noteq> or_default [] (active_peer m) then [] else or_default [] (c_photo c)))"

definition shows_message :: "stored_message \<Rightarrow> message_vm \<Rightarrow> bool" where
  "shows_message x v \<longleftrightarrow>
     mv_id v = m_id x \<and> mv_body v = m_body x \<and> mv_ts v = m_ts x \<and> mv_outgoing v = m_outgoing x \<and> mv_delivered v = m_delivered x"

lemma last_newest:
  assumes "by_ts l" "l \<noteq> []"
  shows "\<forall>x\<in>set l. m_ts x \<le> m_ts (last l)" "Max (m_ts ` set l) = m_ts (last l)"
proof -
  show *: "\<forall>x\<in>set l. m_ts x \<le> m_ts (last l)"
    using assms by (cases l rule: rev_cases) (auto simp: by_ts_def sorted_append)
  show "Max (m_ts ` set l) = m_ts (last l)" using * assms(2) by (intro Max_eqI) auto
qed

lemma shows_contact_view:
  assumes "history_ok m"
  shows "shows_contact X m c (contact_view X m c)"
proof (cases "bt_get (messages m) (c_pubkey c)")
  case None
  then show ?thesis by (simp add: shows_contact_def contact_view_def last_message_def recent_def or_default_def Let_def)
next
  case (Some l)
  then have "by_ts l" using assms by (auto simp: history_ok_def convo_ok_def)
  with Some last_newest [of l] show ?thesis
    by (cases "l = []") (simp_all add: shows_contact_def contact_view_def last_message_def recent_def or_default_def [of _ "Some _"] Let_def)
qed

text \<open>C38. What the shell is shown. The contact list is the contacts, each exactly once, the most recently
  active first and equally recent ones by name; the entry of a contact carries its key, name, block and
  spelling, the time and text of the newest message of its conversation, and its picture unless a chat
  with somebody else is open. The messages shown are those of the open conversation, in its order, each
  with its own id, text, time, direction and delivery; the header names the open peer and its block.\<close>

theorem view_contacts:
  assumes "history_ok m" "peer = or_default [] (active_peer m)"
  shows "(\<exists>cs. mset cs = mset (bt_values (contacts m)) \<and>
       sorted_wrt (\<lambda>a b. recent m b < recent m a \<or> (recent m b = recent m a \<and> label X a \<le> label X b)) cs \<and>
       list_all2 (shows_contact X m) cs (vm_contacts (view X m))) \<and>
    list_all2 shows_message (or_default [] (bt_get (messages m) peer)) (vm_messages (view X m)) \<and>
    vm_active_peer (view X m) = peer \<and> vm_active_peer_blocked (view X m) = blocked m peer \<and>
    vm_active_peer_name (view X m) = (case bt_get (contacts m) peer of Some c \<Rightarrow> label X c | None \<Rightarrow> trunc_ob X peer)"
proof -
  let ?k = "\<lambda>v. (- cv_last_ts v, cv_name v)" and ?f = "contact_view X m"
  define cs where "cs = sort_key (?k \<circ> ?f) (bt_values (contacts m))"
  have move: "insort_key k (f x) (map f l) = map f (insort_key (k \<circ> f) x l)"
    for k :: "contact_vm \<Rightarrow> int \<times> ustr" and f :: "contact \<Rightarrow> contact_vm" and x l by (induction l) auto
  have "sort_key ?k (map ?f l) = map ?f (sort_key (?k \<circ> ?f) l)" for l by (induction l) (simp_all add: move comp_def)
  then have l: "vm_contacts (view X m) = map ?f cs" by (simp add: view_def Let_def cs_def)
  have entry: "shows_contact X m c (?f c)" for c by (rule shows_contact_view [OF assms(1)])
  then have key: "cv_last_ts (?f c) = recent m c" "cv_name (?f c) = label X c" for c
    by (simp_all add: shows_contact_def Let_def)
  have "sorted (map (?k \<circ> ?f) cs)" unfolding cs_def by (rule sorted_sort_key)
  then have "sorted_wrt (\<lambda>a b. recent m b < recent m a \<or> (recent m b = recent m a \<and> label X a \<le> label X b)) cs"
    unfolding sorted_map by (rule sorted_wrt_mono_rel [rotated]) (auto simp: less_eq_prod_def key)
  moreover have "mset cs = mset (bt_values (contacts m))" by (simp add: cs_def)
  moreover have "list_all2 (shows_contact X m) cs (vm_contacts (view X m))"
    unfolding l by (simp add: list_all2_map2 list.rel_refl entry)
  moreover have "list_all2 shows_message (or_default [] (bt_get (messages m) peer)) (vm_messages (view X m))"
    by (simp add: view_def Let_def assms(2) list_all2_map2 list.rel_refl shows_message_def message_view_def)
  ultimately show ?thesis by (auto simp: view_def Let_def assms(2) blocked_def split: option.split)
qed

definition ref_chat :: model where
  "ref_chat = model_default\<lparr>page := Chat, active_peer := Some (lit ''a''),
     contacts := [(lit ''a'', (contact_new (lit ''a'') [] 0)\<lparr>c_photo := Some (lit ''p'')\<rparr>),
                  (lit ''b'', (contact_new (lit ''b'') [] 0)\<lparr>c_photo := Some (lit ''q'')\<rparr>)],
     messages := [(lit ''b'', [ref_msg ''x'' 1, (ref_msg ''y'' 2)\<lparr>m_body := lit ''hi''\<rparr>])]\<rparr>"

text \<open>In the open chat with \<open>a\<close> the list is led by \<open>b\<close>, who wrote last, without its picture.\<close>

theorem view_contacts_witness:
  "\<exists>v w. vm_contacts (view ref_app_ext ref_chat) = [v, w] \<and> cv_pubkey v = lit ''b'' \<and> cv_last_ts v = 2 \<and>
     cv_last_message v = lit ''hi'' \<and> cv_photo v = [] \<and> cv_photo w = lit ''p''"
proof -
  let ?a = "(contact_new (lit ''a'') [] 0)\<lparr>c_photo := Some (lit ''p'')\<rparr>"
  let ?b = "(contact_new (lit ''b'') [] 0)\<lparr>c_photo := Some (lit ''q'')\<rparr>"
  have ab: "lit ''a'' \<noteq> lit ''b''" by simp
  have get: "bt_get (messages ref_chat) (lit ''b'') = Some [ref_msg ''x'' 1, (ref_msg ''y'' 2)\<lparr>m_body := lit ''hi''\<rparr>]"
    "bt_get (messages ref_chat) (lit ''a'') = None"
    by (simp_all add: ref_chat_def bt_get_def)
  have h: "history_ok ref_chat"
    by (auto simp: history_ok_def ref_chat_def bt_wf_def bt_keys_def bt_get_def convo_ok_def by_ts_def size_caps ref_msg_def
        split: if_splits)
  have vals: "bt_values (contacts ref_chat) = [?a, ?b]" by (simp add: ref_chat_def bt_values_def)
  have chat: "page ref_chat = Chat" "active_peer ref_chat = Some (lit ''a'')" by (simp_all add: ref_chat_def)
  have rec: "recent ref_chat ?a = 0" "recent ref_chat ?b = 2"
    by (simp_all add: recent_def get or_default_def contact_new_def ref_msg_def)
  obtain cs where cs: "mset cs = mset [?a, ?b]"
    "sorted_wrt (\<lambda>a b. recent ref_chat b < recent ref_chat a \<or>
       (recent ref_chat b = recent ref_chat a \<and> label ref_app_ext a \<le> label ref_app_ext b)) cs"
    "list_all2 (shows_contact ref_app_ext ref_chat) cs (vm_contacts (view ref_app_ext ref_chat))"
    using view_contacts [OF h refl, of ref_app_ext] unfolding vals by blast
  have "cs = [?b, ?a]"
  proof -
    have len: "length cs = 2" "set cs = {?a, ?b}" using mset_eq_length [OF cs(1)] mset_eq_setD [OF cs(1)] by simp_all
    then obtain c d where cd: "cs = [c, d]" by (auto simp: length_Suc_conv numeral_2_eq_2)
    have "?a \<noteq> ?b" by (simp add: contact_new_def)
    then have "{c, d} = {?a, ?b}" "c \<noteq> d" using len(2) cs(1) cd by (auto simp: add_eq_conv_ex)
    then show ?thesis using cs(2) rec by (auto simp: cd doubleton_eq_iff)
  qed
  with cs(3) obtain v w where vw: "vm_contacts (view ref_app_ext ref_chat) = [v, w]"
    "shows_contact ref_app_ext ref_chat ?b v" "shows_contact ref_app_ext ref_chat ?a w"
    by (auto simp: list_all2_Cons1)
  then show ?thesis
    using rec chat by (auto simp: shows_contact_def get or_default_def contact_new_def)
qed

end
