(* ===== verification/Update.thy ===== *)
theory Update
  imports View
begin

text \<open>
  The whole \<open>update\<close> function of \<open>core/src/app.rs\<close>: every event to its handler.
\<close>

fun update :: "'z app_ext_scheme \<Rightarrow> env \<Rightarrow> event \<Rightarrow> model \<Rightarrow> model \<times> cmd list" where
  "update X E (IdentityLoaded sk) m = on_identity_loaded X sk m"
| "update X E (LoadedSettings res) m = on_loaded_settings X res m"
| "update X E (LoadedProfile res) m = on_loaded_profile X res m"
| "update X E (LoadedContacts res) m = on_loaded_contacts X res m"
| "update X E (LoadedCursor res) m = on_loaded_cursor X res m"
| "update X E (LoadedOutbox res) m = on_loaded_outbox X res m"
| "update X E (LoadedSeenIds res) m = on_loaded_seen_ids X res m"
| "update X E (LoadedMessages peer res) m = on_loaded_messages X peer res m"
| "update X E (Saved res) m = on_saved res m"
| "update X E (SavedCursor res) m = on_saved_cursor res m"
| "update X E ShowConversations m = on_show_conversations m"
| "update X E ShowSettings m = show_page SettingsPage m"
| "update X E ShowAddContact m = show_page AddContactPage m"
| "update X E ShowEditProfile m = show_page EditProfilePage m"
| "update X E (OpenChat peer) m = on_open_chat peer m"
| "update X E Back m = on_back m"
| "update X E (ComposeChanged s) m = on_compose_changed s m"
| "update X E (SetServerUrl u) m = on_set_server_url X u m"
| "update X E Connect m = on_connect m"
| "update X E (AddContact input nickname) m = on_add_contact X E input nickname m"
| "update X E (SetBlocked peer b) m = on_set_blocked X peer b m"
| "update X E (DeleteContact peer) m = on_delete_contact X peer m"
| "update X E (SaveProfile display_name bio photo) m = on_save_profile X E display_name bio photo m"
| "update X E SendText m = send_text X E m"
| "update X E Authenticate m = on_authenticate X m"
| "update X E (ChallengeResult g res) m = on_challenge_result X g res m"
| "update X E (VerifyResult g res) m = on_verify_result X g res m"
| "update X E Poll m = on_poll X m"
| "update X E (PollWatchdog g) m = on_poll_watchdog g m"
| "update X E (PollResult g res) m = on_poll_result X E g res m"
| "update X E StartFlush m = flush_next X E m"
| "update X E (FlushWatchdog g) m = on_flush_watchdog X E g m"
| "update X E (AuthWatchdog g) m = on_auth_watchdog g m"
| "update X E (SendResult g res) m =
     (case res of Inr resp \<Rightarrow> on_send_response X E g resp m | Inl u \<Rightarrow> on_send_error X E g m)"

end
