(* ===== verification/Slots.thy ===== *)
theory Slots
  imports Update
begin

text \<open>
  The request guards as state machines. The client keeps three round trips to the relay: polling,
  authenticating and sending. Each has a guard and a generation; results carry the generation they
  were issued under and nothing cancels a request. The abstract machine is a slot that is idle or
  waiting in its current generation; every event of \<open>update\<close> is a run of the slot's moves, for each
  of the three round trips.
\<close>

section \<open>The abstract slot\<close>

datatype slot = Idle gen | Waiting gen

fun slot_gen :: "slot \<Rightarrow> gen" where
  "slot_gen (Idle g) = g"
| "slot_gen (Waiting g) = g"

text \<open>\<open>slot_run r s n gs s'\<close>: with the result \<open>r\<close> to consume (if any), the slot goes from \<open>s\<close> to
  \<open>s'\<close> opening or retiring \<open>n\<close> generations and issuing requests that will answer for the
  generations \<open>gs\<close>. A request is issued only from an idle slot, and a result is consumed only when it
  is of the current generation: it ends the round trip or starts its next leg.\<close>

inductive slot_run :: "gen option \<Rightarrow> slot \<Rightarrow> nat \<Rightarrow> gen list \<Rightarrow> slot \<Rightarrow> bool" where
  stop: "slot_run r s 0 [] s"
| finish: "slot_gen s = g \<Longrightarrow> slot_run None (Idle g) n gs s' \<Longrightarrow> slot_run (Some g) s n gs s'"
| next_leg: "slot_gen s = g \<Longrightarrow> slot_run None (Waiting g) n gs s' \<Longrightarrow> slot_run (Some g) s n (g # gs) s'"
| retire: "slot_run r (Idle (slot_gen s + 1)) n gs s' \<Longrightarrow> slot_run r s (Suc n) gs s'"
| issue: "slot_run r (Waiting (g + 1)) n gs s' \<Longrightarrow> slot_run r (Idle g) (Suc n) ((g + 1) # gs) s'"

text \<open>What the pending requests look like from a slot: at most one answers for the current
  generation, and only while the slot waits; none answers for a later one.\<close>

definition slot_ok :: "slot \<Rightarrow> gen multiset \<Rightarrow> bool" where
  "slot_ok s Q \<longleftrightarrow>
     count Q (slot_gen s) \<le> (case s of Waiting _ \<Rightarrow> 1 | Idle _ \<Rightarrow> 0) \<and>
     (\<forall>g\<in>#Q. unat g \<le> unat (slot_gen s))"

lemma unat_next_gen: "unat (g :: gen) + 1 < 2 ^ 64 \<Longrightarrow> unat (g + 1) = unat g + 1"
  using unat_plus_simple [of g 1] by (simp add: word_le_nat_alt unat_word_ariths)

lemma slot_ok_fresh:
  assumes "slot_ok s Q" "unat (slot_gen s) + 1 < 2 ^ 64"
  shows "slot_gen s + 1 \<notin># Q" and "g \<in># Q \<Longrightarrow> unat g \<le> unat (slot_gen s + 1)"
  using assms unat_next_gen [OF assms(2)] by (fastforce simp: slot_ok_def)+

lemma slot_run_ok:
  assumes "slot_run r s n gs s'" "slot_ok s Q" "unat (slot_gen s) + n < 2 ^ 64"
    and "\<And>g. r = Some g \<Longrightarrow> unat g \<le> unat (slot_gen s) \<and> (g = slot_gen s \<longrightarrow> g \<notin># Q)"
  shows "slot_ok s' (Q + mset gs) \<and> unat (slot_gen s') = unat (slot_gen s) + n"
  using assms
proof (induction arbitrary: Q)
  case (finish s g n gs s')
  then have "slot_ok (Idle g) Q" by (auto simp: slot_ok_def not_in_iff)
  with finish.IH [of Q] finish.hyps(1) finish.prems(2) show ?case by simp
next
  case (next_leg s g n gs s')
  then have "slot_ok (Waiting g) (add_mset g Q)" by (auto simp: slot_ok_def not_in_iff)
  with next_leg.IH [of "add_mset g Q"] next_leg.hyps(1) next_leg.prems(2) show ?case by simp
next
  case (retire r s n gs s')
  have lt: "unat (slot_gen s) + 1 < 2 ^ 64" using retire.prems(2) by simp
  note fresh = slot_ok_fresh [OF retire.prems(1) lt]
  have ok: "slot_ok (Idle (slot_gen s + 1)) Q"
    using fresh by (simp add: slot_ok_def not_in_iff)
  have r: "unat g \<le> unat (slot_gen s + 1) \<and> (g = slot_gen s + 1 \<longrightarrow> g \<notin># Q)" if "r = Some g" for g
    using retire.prems(3) [OF that] fresh(1) unat_next_gen [OF lt] by auto
  show ?case
    using retire.IH [OF ok] r retire.prems(2) unat_next_gen [OF lt] by simp
next
  case (issue r g n gs s')
  have lt: "unat g + 1 < 2 ^ 64" using issue.prems(2) by simp
  note fresh = slot_ok_fresh [OF issue.prems(1)]
  have ok: "slot_ok (Waiting (g + 1)) (add_mset (g + 1) Q)"
    using fresh lt by (auto simp: slot_ok_def not_in_iff)
  have r: "unat h \<le> unat (g + 1) \<and> (h = g + 1 \<longrightarrow> h \<notin># add_mset (g + 1) Q)" if "r = Some h" for h
    using issue.prems(3) [OF that] unat_next_gen [OF lt] by auto
  show ?case
    using issue.IH [OF ok] r issue.prems(2) unat_next_gen [OF lt] by simp
qed simp

section \<open>The three round trips\<close>

definition poll_result :: "event \<Rightarrow> gen option" where
  "poll_result ev = (case ev of PollResult g r \<Rightarrow> Some g | _ \<Rightarrow> None)"

definition auth_result :: "event \<Rightarrow> gen option" where
  "auth_result ev = (case ev of ChallengeResult g r \<Rightarrow> Some g | VerifyResult g r \<Rightarrow> Some g | _ \<Rightarrow> None)"

definition send_result :: "event \<Rightarrow> gen option" where
  "send_result ev = (case ev of SendResult g r \<Rightarrow> Some g | _ \<Rightarrow> None)"

lemmas result_defs = poll_result_def auth_result_def send_result_def

text \<open>The generation a command's answer will carry, read off the event it produces.\<close>

definition answers :: "(event \<Rightarrow> gen option) \<Rightarrow> cmd \<Rightarrow> gen option" where
  "answers res c =
     (case c of
        Render \<Rightarrow> None
      | Emit e \<Rightarrow> res e
      | HttpPost u a b t \<Rightarrow> res (http_event t (Inl ()))
      | KvGet k t \<Rightarrow> res (kv_event t (Inl []))
      | KvSet k v t \<Rightarrow> res (kv_event t (Inl []))
      | KvDelete k t \<Rightarrow> res (kv_event t (Inl []))
      | NotifyAfter d e \<Rightarrow> res e)"

definition tags :: "(event \<Rightarrow> gen option) \<Rightarrow> cmd list \<Rightarrow> gen list" where
  "tags res cs = List.map_filter (answers res) cs"

lemma tags_simps [simp]:
  "tags res [] = []" "tags res (cs @ ds) = tags res cs @ tags res ds"
  "tags res (c # cs) = (case answers res c of None \<Rightarrow> tags res cs | Some g \<Rightarrow> g # tags res cs)"
  by (simp_all add: tags_def map_filter_def split: option.split)

definition slot_of :: "(model \<Rightarrow> bool) \<Rightarrow> (model \<Rightarrow> gen) \<Rightarrow> model \<Rightarrow> slot" where
  "slot_of busy gen m = (if busy m then Waiting (gen m) else Idle (gen m))"

lemma slot_gen_of [simp]: "slot_gen (slot_of busy gen m) = gen m"
  by (simp add: slot_of_def)

lemma answers_kv [simp]:
  "res \<in> {poll_result, auth_result, send_result} \<Longrightarrow> answers res (KvSet k v t) = None"
  "res \<in> {poll_result, auth_result, send_result} \<Longrightarrow> answers res (KvGet k t) = None"
  "res \<in> {poll_result, auth_result, send_result} \<Longrightarrow> answers res (KvDelete k t) = None"
  by (cases t; auto simp: answers_def result_defs)+

lemma answers_simps [simp]:
  "answers res Render = None" "answers res (Emit e) = res e" "answers res (NotifyAfter d e) = res e"
  "answers poll_result (HttpPost u a b (ThenPollResult g)) = Some g"
  "answers auth_result (HttpPost u a b (ThenChallengeResult g)) = Some g"
  "answers auth_result (HttpPost u a b (ThenVerifyResult g)) = Some g"
  "answers send_result (HttpPost u a b (ThenSendResult g)) = Some g"
  "answers auth_result (HttpPost u a b (ThenPollResult g)) = None"
  "answers send_result (HttpPost u a b (ThenPollResult g)) = None"
  "answers poll_result (HttpPost u a b (ThenChallengeResult g)) = None"
  "answers send_result (HttpPost u a b (ThenChallengeResult g)) = None"
  "answers poll_result (HttpPost u a b (ThenVerifyResult g)) = None"
  "answers send_result (HttpPost u a b (ThenVerifyResult g)) = None"
  "answers poll_result (HttpPost u a b (ThenSendResult g)) = None"
  "answers auth_result (HttpPost u a b (ThenSendResult g)) = None"
  by (simp_all add: answers_def result_defs)

lemma results_of_events [simp]:
  "res \<in> {poll_result, auth_result, send_result} \<Longrightarrow>
     res Connect = None \<and> res Authenticate = None \<and> res Poll = None \<and> res StartFlush = None \<and>
     res (PollWatchdog g) = None \<and> res (FlushWatchdog g) = None \<and> res (AuthWatchdog g) = None"
  by (auto simp: result_defs)

section \<open>What the handlers request\<close>

lemma flush_tags:
  assumes "res \<in> {poll_result, auth_result}"
  shows "tags res (snd (flush_next X E m)) = []"
  using assms by (cases X E m rule: flush_next_cases) auto

lemma ingest_tags:
  assumes "res \<in> {poll_result, auth_result, send_result}"
  shows "tags res (snd (ingest_poll X E pg m)) = []"
proof (cases X E pg m rule: ingest_poll_cases)
  case (page ident s)
  have "tags res (map (\<lambda>p. KvSet (f p) (g p) ThenSaved) l) = []" for f g and l :: "ustr list"
    using assms by (induction l) auto
  then show ?thesis
    using assms unfolding page(4) persist_page_eq [OF page(6)] by auto
qed simp_all

lemmas handler_unfold =
  on_identity_loaded_def startup_done_def startup_load_done_def load_failed_def then_startup_done_def
  on_loaded_settings_def on_loaded_profile_def on_loaded_contacts_def on_loaded_cursor_def on_loaded_outbox_def
  on_loaded_seen_ids_def on_loaded_messages_def save_failed_def on_saved_def on_saved_cursor_def show_page_def
  on_show_conversations_def on_back_def on_open_chat_def on_compose_changed_def on_set_server_url_def on_connect_def
  on_authenticate_def on_challenge_result_def on_verify_result_def on_auth_watchdog_def on_poll_def
  on_poll_watchdog_def on_poll_page_def on_poll_result_def on_add_contact_def forget_outgoing_def
  detach_in_flight_def on_set_blocked_def on_delete_contact_def broadcast_profile_def on_save_profile_def
  compose_text_def send_text_def backoff_poll_def schedule_reconnect_def refuse_write_def err_def
  abandon_poll_def abandon_auth_def abandon_flush_def

lemma tags_none: "(\<And>c. c \<in> set cs \<Longrightarrow> answers res c = None) \<Longrightarrow> tags res cs = []"
  by (induction cs) auto

lemma tags_gets [simp]:
  assumes "res \<in> {poll_result, auth_result, send_result}"
  shows "tags res (map (\<lambda>p. KvGet (k p) (t p)) l) = []"
  using assms by (intro tags_none) auto

lemmas ingest_poll_fields = ingest_frame_fields [OF ingest_poll_frame]

lemmas next_gen_defs = next_poll_gen_def next_auth_gen_def next_flush_gen_def

lemmas send_unfold = on_send_response_def on_send_error_def on_rate_limited_def on_send_finished_def retry_batch_def
  on_flush_watchdog_def

text \<open>A step that leaves the poll and authentication guards alone.\<close>

definition quiet :: "(event \<Rightarrow> gen option) \<Rightarrow> model \<Rightarrow> model \<times> cmd list \<Rightarrow> bool" where
  "quiet res m r \<longleftrightarrow>
     tags res (snd r) = [] \<and> polling (fst r) = polling m \<and> poll_gen (fst r) = poll_gen m \<and>
     authenticating (fst r) = authenticating m \<and> auth_gen (fst r) = auth_gen m"

lemma quiet_flush: "res \<in> {poll_result, auth_result} \<Longrightarrow> quiet res m (flush_next X E m)"
  by (simp add: quiet_def flush_tags)

lemma quiet_retry:
  assumes "res \<in> {poll_result, auth_result}"
  shows "quiet res m (retry_batch X E bt m)"
proof (cases bt)
  case (Some f)
  then show ?thesis
    using assms quiet_flush [OF assms]
    by (cases "charge_batch (now_ms E 0) (f_count f) (outbox m)")
      (auto simp: retry_batch_def quiet_def case_prod_unfold Let_def)
qed (simp add: retry_batch_def quiet_def)

lemma quiet_finished: "res \<in> {poll_result, auth_result} \<Longrightarrow> quiet res m (on_send_finished X E bt m)"
  by (auto simp: on_send_finished_def quiet_def case_prod_unfold Let_def flush_tags)

lemma quiet_limited: "res \<in> {poll_result, auth_result} \<Longrightarrow> quiet res m (on_rate_limited E resp m)"
  by (auto simp: on_rate_limited_def quiet_def split: option.split)

lemma quiet_cong:
  "polling m = polling m' \<Longrightarrow> poll_gen m = poll_gen m' \<Longrightarrow> authenticating m = authenticating m' \<Longrightarrow>
    auth_gen m = auth_gen m' \<Longrightarrow> quiet res m r = quiet res m' r"
  by (simp add: quiet_def)

lemma quiet_send:
  assumes "res \<in> {poll_result, auth_result}"
  shows "quiet res m (on_send_response X E g resp m)" "quiet res m (on_send_error X E g m)"
    "quiet res m (on_flush_watchdog X E g m)"
proof -
  have here: "quiet res m (f m')" if "\<And>m. quiet res m (f m)" "polling m' = polling m" "poll_gen m' = poll_gen m"
    "authenticating m' = authenticating m" "auth_gen m' = auth_gen m" for f m'
    using that(1) [of m'] that(2-) by (simp add: quiet_def)
  have same: "quiet res m (m, [])" and auth: "quiet res m (m\<lparr>flushing := False, in_flight := None, token := None\<rparr>, [Emit Authenticate])"
    using assms by (auto simp: quiet_def)
  show "quiet res m (on_send_response X E g resp m)"
    unfolding on_send_response_def Let_def
    using same auth
    by (auto intro!: here quiet_limited [OF assms] quiet_flush [OF assms] quiet_finished [OF assms] quiet_retry [OF assms])
  show "quiet res m (on_send_error X E g m)"
    unfolding on_send_error_def using same by (auto intro!: here quiet_retry [OF assms])
  show "quiet res m (on_flush_watchdog X E g m)"
    unfolding on_flush_watchdog_def using same
    by (auto simp: abandon_flush_def intro!: here quiet_flush [OF assms])
qed

lemma send_poll_auth_frame:
  assumes "res \<in> {poll_result, auth_result}" "ev = SendResult g r \<or> ev = FlushWatchdog g"
  shows "quiet res m (update X E ev m)"
  using assms(2) quiet_send [OF assms(1)] by (auto split: sum.split)

lemma poll_frame:
  assumes "\<And>u. ev \<noteq> SetServerUrl u" "ev \<noteq> Poll" "\<And>g r. ev \<noteq> PollResult g r" "\<And>g. ev \<noteq> PollWatchdog g"
  shows "polling (fst (update X E ev m)) = polling m \<and> poll_gen (fst (update X E ev m)) = poll_gen m \<and>
    tags poll_result (snd (update X E ev m)) = []"
proof (cases ev)
  case (SendResult g r)
  then show ?thesis using send_poll_auth_frame [of poll_result ev g r m X E] by (simp add: quiet_def)
next
  case (FlushWatchdog g)
  then show ?thesis using send_poll_auth_frame [of poll_result ev g _ m X E] by (simp add: quiet_def)
next
  case (SetServerUrl u)
  with assms(1) show ?thesis by blast
next
  case Poll
  with assms(2) show ?thesis by blast
next
  case (PollResult g r)
  with assms(3) show ?thesis by blast
next
  case (PollWatchdog g)
  with assms(4) show ?thesis by blast
qed (simp_all add: handler_unfold next_gen_defs Let_def flush_tags case_prod_unfold
    split: option.split outcome.split sum.split)

lemma auth_frame:
  assumes "ev \<noteq> Connect" "ev \<noteq> Authenticate" "\<And>g r. ev \<noteq> ChallengeResult g r" "\<And>g r. ev \<noteq> VerifyResult g r"
    "\<And>g. ev \<noteq> AuthWatchdog g"
  shows "authenticating (fst (update X E ev m)) = authenticating m \<and> auth_gen (fst (update X E ev m)) = auth_gen m \<and>
    tags auth_result (snd (update X E ev m)) = []"
proof (cases ev)
  case (SendResult g r)
  then show ?thesis using send_poll_auth_frame [of auth_result ev g r m X E] by (simp add: quiet_def)
next
  case (FlushWatchdog g)
  then show ?thesis using send_poll_auth_frame [of auth_result ev g _ m X E] by (simp add: quiet_def)
next
  case Connect
  with assms(1) show ?thesis by blast
next
  case Authenticate
  with assms(2) show ?thesis by blast
next
  case (ChallengeResult g r)
  with assms(3) show ?thesis by blast
next
  case (VerifyResult g r)
  with assms(4) show ?thesis by blast
next
  case (AuthWatchdog g)
  with assms(5) show ?thesis by blast
qed (simp_all add: handler_unfold next_gen_defs Let_def flush_tags ingest_tags ingest_poll_fields case_prod_unfold
    split: option.split outcome.split sum.split)

lemma flush_frame:
  assumes "\<And>u. ev \<noteq> SetServerUrl u" "ev \<noteq> StartFlush" "\<And>g r. ev \<noteq> SendResult g r" "\<And>g. ev \<noteq> FlushWatchdog g"
  shows "flushing (fst (update X E ev m)) = flushing m \<and> flush_gen (fst (update X E ev m)) = flush_gen m \<and>
    tags send_result (snd (update X E ev m)) = []"
proof (cases ev)
  case (SetServerUrl u)
  with assms(1) show ?thesis by blast
next
  case StartFlush
  with assms(2) show ?thesis by blast
next
  case (SendResult g r)
  with assms(3) show ?thesis by blast
next
  case (FlushWatchdog g)
  with assms(4) show ?thesis by blast
qed (simp_all add: handler_unfold next_gen_defs Let_def ingest_tags ingest_poll_fields case_prod_unfold
    split: option.split outcome.split sum.split)

section \<open>Every event is a run of each slot\<close>

definition refines :: "(event \<Rightarrow> gen option) \<Rightarrow> (model \<Rightarrow> bool) \<Rightarrow> (model \<Rightarrow> gen) \<Rightarrow> event \<Rightarrow> model \<Rightarrow> model \<times> cmd list \<Rightarrow> bool" where
  "refines res busy gen ev m r \<longleftrightarrow>
     (\<exists>n\<le>2. slot_run (res ev) (slot_of busy gen m) n (tags res (snd r)) (slot_of busy gen (fst r)))"

lemma refines_skip:
  "busy (fst r) = busy m \<Longrightarrow> gen (fst r) = gen m \<Longrightarrow> tags res (snd r) = [] \<Longrightarrow> refines res busy gen ev m r"
  unfolding refines_def slot_of_def by (intro exI [of _ 0]) (auto intro: slot_run.stop)

lemma refines_finish:
  "res ev = Some (gen m) \<Longrightarrow> \<not> busy (fst r) \<Longrightarrow> gen (fst r) = gen m \<Longrightarrow> tags res (snd r) = [] \<Longrightarrow>
    refines res busy gen ev m r"
  unfolding refines_def slot_of_def by (intro exI [of _ 0]) (auto intro!: slot_run.finish slot_run.stop)

lemma refines_leg:
  "res ev = Some (gen m) \<Longrightarrow> busy (fst r) \<Longrightarrow> gen (fst r) = gen m \<Longrightarrow> tags res (snd r) = [gen m] \<Longrightarrow>
    refines res busy gen ev m r"
  unfolding refines_def slot_of_def by (intro exI [of _ 0]) (auto intro!: slot_run.next_leg slot_run.stop)

lemma refines_retire:
  assumes "\<not> busy (fst r)" "gen (fst r) = gen m + 1" "tags res (snd r) = []"
  shows "refines res busy gen ev m r"
proof -
  have "slot_of busy gen (fst r) = Idle (slot_gen (slot_of busy gen m) + 1)"
    using assms by (simp add: slot_of_def)
  then show ?thesis
    unfolding refines_def assms(3)
    by (metis One_nat_def one_le_numeral slot_run.retire slot_run.stop)
qed

lemma refines_issue:
  assumes "\<not> busy m" "busy (fst r)" "gen (fst r) = gen m + 1" "tags res (snd r) = [gen m + 1]"
  shows "refines res busy gen ev m r"
proof -
  have "slot_of busy gen m = Idle (gen m)" "slot_of busy gen (fst r) = Waiting (gen m + 1)"
    using assms by (simp_all add: slot_of_def)
  then show ?thesis
    unfolding refines_def assms(4)
    by (metis One_nat_def one_le_numeral slot_run.issue slot_run.stop)
qed

lemma poll_refines: "refines poll_result polling poll_gen ev m (update X E ev m)"
proof -
  consider u where "ev = SetServerUrl u" | "ev = Poll" | g r where "ev = PollResult g r" | g where "ev = PollWatchdog g"
    | "\<And>u. ev \<noteq> SetServerUrl u" "ev \<noteq> Poll" "\<And>g r. ev \<noteq> PollResult g r" "\<And>g. ev \<noteq> PollWatchdog g"
    by blast
  then show ?thesis
  proof cases
    case 1
    show ?thesis
    proof (cases "normalize_server_url X u")
      case None
      with 1 show ?thesis by (intro refines_skip) (simp_all add: handler_unfold)
    next
      case (Some u')
      with 1 show ?thesis by (intro refines_retire) (simp_all add: handler_unfold Let_def)
    qed
  next
    case 2
    show ?thesis
    proof (cases "polling m \<or> token m = None \<or> \<not> body_json_ok X (PollReq (cursor m))")
      case True
      with 2 show ?thesis by (intro refines_skip) (auto simp: on_poll_def backoff_poll_def err_def split: option.split)
    next
      case False
      with 2 show ?thesis by (intro refines_issue) (auto simp: on_poll_def next_poll_gen_def)
    qed
  next
    case (3 g r)
    show ?thesis
    proof (cases "g = poll_gen m")
      case True
      with 3 show ?thesis
        by (intro refines_finish)
          (simp_all add: on_poll_result_def on_poll_page_def backoff_poll_def err_def poll_result_def Let_def
            ingest_tags ingest_poll_fields case_prod_unfold split: sum.split option.split)
    next
      case False
      with 3 show ?thesis by (intro refines_skip) (simp_all add: on_poll_result_def)
    qed
  next
    case (4 g)
    show ?thesis
    proof (cases "g = poll_gen m \<and> polling m")
      case True
      with 4 show ?thesis by (intro refines_retire) (simp_all add: on_poll_watchdog_def abandon_poll_def)
    next
      case False
      with 4 show ?thesis by (intro refines_skip) (auto simp: on_poll_watchdog_def)
    qed
  next
    case 5
    from poll_frame [OF this, of X E m] show ?thesis by (intro refines_skip) simp_all
  qed
qed

lemma auth_refines: "refines auth_result authenticating auth_gen ev m (update X E ev m)"
proof -
  consider "ev = Connect" | "ev = Authenticate" | g r where "ev = ChallengeResult g r" | g r where "ev = VerifyResult g r"
    | g where "ev = AuthWatchdog g"
    | "ev \<noteq> Connect" "ev \<noteq> Authenticate" "\<And>g r. ev \<noteq> ChallengeResult g r" "\<And>g r. ev \<noteq> VerifyResult g r"
      "\<And>g. ev \<noteq> AuthWatchdog g"
    by blast
  then show ?thesis
  proof cases
    case 1
    then show ?thesis by (intro refines_retire) (simp_all add: on_connect_def abandon_auth_def Let_def)
  next
    case 2
    show ?thesis
    proof (cases "authenticating m")
      case True
      with 2 show ?thesis by (intro refines_skip) (simp_all add: on_authenticate_def)
    next
      case False
      show ?thesis
      proof (cases "\<exists>ident. identity_of X m = Some ident \<and> body_json_ok X (ChallengeReq (public_key_hex X ident))")
        case True
        with 2 False show ?thesis by (intro refines_issue) (auto simp: on_authenticate_def next_auth_gen_def Let_def)
      next
        case no: False
        with 2 False show ?thesis
          by (intro refines_skip) (auto simp: on_authenticate_def schedule_reconnect_def err_def Let_def split: option.split)
      qed
    qed
  next
    case (3 g r)
    let ?r = "on_challenge_result X g r m"
    show ?thesis
    proof (cases "g = auth_gen m")
      case True
      have "auth_gen (fst ?r) = auth_gen m \<and>
          (if authenticating (fst ?r) then tags auth_result (snd ?r) = [auth_gen m] else tags auth_result (snd ?r) = [])"
        using True
        by (simp add: on_challenge_result_def schedule_reconnect_def err_def Let_def
            split: sum.split option.split outcome.split)
      with 3 True show ?thesis
        by (cases "authenticating (fst ?r)", intro refines_leg; (intro refines_finish)?)
          (simp_all add: auth_result_def)
    next
      case False
      with 3 show ?thesis by (intro refines_skip) (simp_all add: on_challenge_result_def)
    qed
  next
    case (4 g r)
    show ?thesis
    proof (cases "g = auth_gen m")
      case True
      with 4 show ?thesis
        by (intro refines_finish)
          (simp_all add: on_verify_result_def schedule_reconnect_def auth_result_def Let_def split: sum.split option.split)
    next
      case False
      with 4 show ?thesis by (intro refines_skip) (simp_all add: on_verify_result_def)
    qed
  next
    case (5 g)
    show ?thesis
    proof (cases "g = auth_gen m \<and> authenticating m")
      case True
      with 5 show ?thesis by (intro refines_retire) (simp_all add: on_auth_watchdog_def abandon_auth_def)
    next
      case False
      with 5 show ?thesis by (intro refines_skip) (auto simp: on_auth_watchdog_def)
    qed
  next
    case 6
    from auth_frame [OF this, of X E m] show ?thesis by (intro refines_skip) simp_all
  qed
qed

lemma flush_run:
  "\<exists>n\<le>1. slot_run r (slot_of flushing flush_gen m) n (tags send_result (snd (flush_next X E m)))
     (slot_of flushing flush_gen (fst (flush_next X E m)))"
proof (cases X E m rule: flush_next_cases)
  case idle
  then show ?thesis by (intro exI [of _ 0]) (simp add: slot_run.stop)
next
  case (drained sender tok b)
  then show ?thesis by (intro exI [of _ 0]) (simp add: slot_run.stop slot_of_def)
next
  case (posted sender tok b recipient q w)
  have "tags send_result (snd (flush_next X E m)) = [flush_gen m + 1]"
    unfolding posted(10) posted(9) by (simp add: send_result_def)
  then show ?thesis
    using posted(1,10) slot_run.issue [OF slot_run.stop, of r "flush_gen m"]
    by (intro exI [of _ 1]) (simp add: slot_of_def)
next
  case (unbuilt sender tok b recipient q w)
  have "tags send_result (snd (flush_next X E m)) = []"
    unfolding unbuilt(10) unbuilt(9) by simp
  then show ?thesis
    using unbuilt(1,10) slot_run.retire [OF slot_run.stop, of r "Idle (flush_gen m)"]
    by (intro exI [of _ 1]) (simp add: slot_of_def)
qed

lemma refines_flush:
  assumes "(\<And>n gs s'. slot_run r (slot_of flushing flush_gen m2) n gs s' \<Longrightarrow>
      slot_run (send_result ev) (slot_of flushing flush_gen m) (n + k) gs s')"
    and "k \<le> 1" "tags send_result (snd res) = tags send_result (snd (flush_next X E m2))"
    and "flushing (fst res) = flushing (fst (flush_next X E m2))" "flush_gen (fst res) = flush_gen (fst (flush_next X E m2))"
  shows "refines send_result flushing flush_gen ev m res"
proof -
  obtain n where "n \<le> 1" "slot_run r (slot_of flushing flush_gen m2) n (tags send_result (snd (flush_next X E m2)))
     (slot_of flushing flush_gen (fst (flush_next X E m2)))"
    using flush_run by blast
  moreover have "slot_of flushing flush_gen (fst res) = slot_of flushing flush_gen (fst (flush_next X E m2))"
    using assms(4,5) by (simp add: slot_of_def)
  ultimately show ?thesis
    using assms(1,2) unfolding refines_def assms(3) by (intro exI [of _ "n + k"]) simp
qed

lemma finish_then:
  assumes "send_result ev = Some (flush_gen m)" "\<not> flushing m2" "flush_gen m2 = flush_gen m"
    and "tags send_result (snd res) = tags send_result (snd (flush_next X E m2))"
    and "flushing (fst res) = flushing (fst (flush_next X E m2))" "flush_gen (fst res) = flush_gen (fst (flush_next X E m2))"
  shows "refines send_result flushing flush_gen ev m res"
  by (rule refines_flush [where r = None and ?m2.0 = m2 and k = 0, OF _ _ assms(4-6)])
    (use assms(1-3) in \<open>auto simp: slot_of_def intro!: slot_run.finish\<close>)

lemma refines_retry:
  assumes "send_result ev = Some (flush_gen m)" "\<not> flushing m1" "flush_gen m1 = flush_gen m"
  shows "refines send_result flushing flush_gen ev m (retry_batch X E bt m1)"
proof (cases bt)
  case None
  with assms show ?thesis by (intro refines_finish) (simp_all add: retry_batch_def)
next
  case (Some f)
  obtain k kept where ck: "charge_batch (now_ms E 0) (f_count f) (outbox m1) = (k, kept)" by fastforce
  show ?thesis
  proof (cases "k = 0")
    case True
    with Some ck assms show ?thesis
      by (intro refines_finish) (simp_all add: retry_batch_def case_prod_unfold Let_def)
  next
    case False
    show ?thesis
      by (rule finish_then [where X = X and E = "after_reads 1 E" and
            ?m2.0 = "fst (persist_outbox X (m1\<lparr>outbox := kept, error := Some (GAVE_UP X k (f_recipient f))\<rparr>))"])
        (use Some ck assms False in \<open>simp_all add: retry_batch_def case_prod_unfold Let_def\<close>)
  qed
qed

lemma refines_finished:
  assumes "send_result ev = Some (flush_gen m)" "\<not> flushing m1" "flush_gen m1 = flush_gen m"
  shows "refines send_result flushing flush_gen ev m (on_send_finished X E bt m1)"
  by (rule finish_then [where X = X and E = E and ?m2.0 = "fst (persist_outbox X
        (if kv_load_failed m1 then m1\<lparr>send_retries := 0\<rparr>
         else m1\<lparr>send_retries := 0, outbox := drop (case bt of None \<Rightarrow> 0 | Some f \<Rightarrow> f_count f) (outbox m1)\<rparr>))"])
    (use assms in \<open>simp_all add: on_send_finished_def case_prod_unfold Let_def\<close>)

lemma refines_limited:
  assumes "send_result ev = Some (flush_gen m)" "\<not> flushing m1" "flush_gen m1 = flush_gen m"
  shows "refines send_result flushing flush_gen ev m (on_rate_limited E resp m1)"
  using assms by (intro refines_finish) (simp_all add: on_rate_limited_def Let_def send_result_def split: option.split)

lemma flush_refines: "refines send_result flushing flush_gen ev m (update X E ev m)"
proof -
  consider u where "ev = SetServerUrl u" | "ev = StartFlush" | g r where "ev = SendResult g r" | g where "ev = FlushWatchdog g"
    | "\<And>u. ev \<noteq> SetServerUrl u" "ev \<noteq> StartFlush" "\<And>g r. ev \<noteq> SendResult g r" "\<And>g. ev \<noteq> FlushWatchdog g"
    by blast
  then show ?thesis
  proof cases
    case 1
    show ?thesis
    proof (cases "normalize_server_url X u")
      case None
      with 1 show ?thesis by (intro refines_skip) (simp_all add: handler_unfold)
    next
      case (Some u')
      with 1 show ?thesis by (intro refines_retire) (simp_all add: handler_unfold Let_def)
    qed
  next
    case 2
    then show ?thesis
      by (intro refines_flush [where r = "send_result ev" and ?m2.0 = m and k = 0 and X = X and E = E]) simp_all
  next
    case (3 g r)
    show ?thesis
    proof (cases "g = flush_gen m")
      case True
      then have r: "send_result ev = Some (flush_gen m)" using 3 by (simp add: send_result_def)
      let ?m1 = "m\<lparr>flushing := False, in_flight := None\<rparr>"
      let ?ref = "refines send_result flushing flush_gen ev m"
      have m1: "\<not> flushing ?m1" "flush_gen ?m1 = flush_gen m" by simp_all
      have auth: "?ref (?m1\<lparr>token := None\<rparr>, [Emit Authenticate])"
        using r by (intro refines_finish) simp_all
      have split: "?ref (flush_next X E (?m1\<lparr>send_batch_budget := b\<rparr>))" for b
        by (rule finish_then [OF r, where X = X and E = E and ?m2.0 = "?m1\<lparr>send_batch_budget := b\<rparr>"]) simp_all
      have resp: "?ref (on_send_response X E (flush_gen m) resp m)" for resp
        unfolding on_send_response_def Let_def
        using auth split refines_limited [OF r m1] refines_retry [OF r m1, of X] refines_finished [OF r m1, of X]
        by (simp only: if_split simp_thms)
      have "refines send_result flushing flush_gen ev m (on_send_error X E (flush_gen m) m)"
        unfolding on_send_error_def using r by (auto intro!: refines_retry)
      with resp 3 True show ?thesis by (cases r) simp_all
    next
      case False
      with 3 show ?thesis
        by (intro refines_skip) (simp_all add: on_send_response_def on_send_error_def split: sum.split)
    qed
  next
    case (4 g)
    show ?thesis
    proof (cases "g = flush_gen m \<and> flushing m")
      case True
      show ?thesis
        by (rule refines_flush [where r = None and ?m2.0 = "abandon_flush m" and k = 1 and X = X and E = E])
          (use 4 True in \<open>auto simp: on_flush_watchdog_def abandon_flush_def slot_of_def send_result_def
             intro!: slot_run.retire\<close>)
    next
      case False
      with 4 show ?thesis by (intro refines_skip) (auto simp: on_flush_watchdog_def)
    qed
  next
    case 5
    from flush_frame [OF this, of X E m] show ?thesis by (intro refines_skip) simp_all
  qed
qed

end
