(* ===== verification/Runs.thy ===== *)
theory Runs
  imports Slots
begin

text \<open>
  The core and its shell as one transition system. A state is the model with the commands that are
  still to be answered; a step feeds \<open>update\<close> an event of the user interface, or the answer to one
  pending command, in any order and under any reading of the clock and the random source. A command
  may also never be answered. The request slots hold in every reachable state.
\<close>

section \<open>The transition system\<close>

text \<open>The events the shell may send; every other constructor of \<open>Event\<close> is \<open>#[serde(skip)]\<close>.\<close>

fun from_shell :: "event \<Rightarrow> bool" where
  "from_shell (IdentityLoaded sk) = True"
| "from_shell ShowConversations = True"
| "from_shell ShowSettings = True"
| "from_shell ShowAddContact = True"
| "from_shell ShowEditProfile = True"
| "from_shell (OpenChat p) = True"
| "from_shell Back = True"
| "from_shell (ComposeChanged s) = True"
| "from_shell SendText = True"
| "from_shell (AddContact i n) = True"
| "from_shell (SetBlocked p b) = True"
| "from_shell (DeleteContact p) = True"
| "from_shell (SaveProfile d b p) = True"
| "from_shell (SetServerUrl u) = True"
| "from_shell Connect = True"
| "from_shell _ = False"

text \<open>The events that answer a command: \<open>then_send\<close> and \<open>Command::event\<close>.\<close>

inductive responds :: "cmd \<Rightarrow> event \<Rightarrow> bool" where
  emitted: "responds (Emit ev) ev"
| http: "responds (HttpPost u a b t) (http_event t r)"
| kv_got: "responds (KvGet k t) (kv_event t r)"
| kv_set: "responds (KvSet k v t) (kv_event t r)"
| kv_deleted: "responds (KvDelete k t) (kv_event t r)"
| elapsed: "responds (NotifyAfter d ev) ev"

inductive reach :: "'z app_ext_scheme \<Rightarrow> nat \<Rightarrow> model \<Rightarrow> cmd multiset \<Rightarrow> bool" for X where
  start: "reach X 0 model_default {#}"
| user: "reach X n m P \<Longrightarrow> from_shell ev \<Longrightarrow>
    reach X (Suc n) (fst (update X E ev m)) (P + mset (snd (update X E ev m)))"
| answer: "reach X n m (add_mset c P) \<Longrightarrow> responds c ev \<Longrightarrow>
    reach X (Suc n) (fst (update X E ev m)) (P + mset (snd (update X E ev m)))"
| lost: "reach X n m (add_mset c P) \<Longrightarrow> reach X n m P"

text \<open>A patient run: answers of the network and of storage may be lost, but timers fire and the core
  receives the events it sends itself.\<close>

definition droppable :: "cmd \<Rightarrow> bool" where
  "droppable c = (case c of Emit ev \<Rightarrow> False | NotifyAfter d ev \<Rightarrow> False | _ \<Rightarrow> True)"

inductive patient :: "'z app_ext_scheme \<Rightarrow> nat \<Rightarrow> model \<Rightarrow> cmd multiset \<Rightarrow> bool" for X where
  start: "patient X 0 model_default {#}"
| user: "patient X n m P \<Longrightarrow> from_shell ev \<Longrightarrow>
    patient X (Suc n) (fst (update X E ev m)) (P + mset (snd (update X E ev m)))"
| answer: "patient X n m (add_mset c P) \<Longrightarrow> responds c ev \<Longrightarrow>
    patient X (Suc n) (fst (update X E ev m)) (P + mset (snd (update X E ev m)))"
| lost: "patient X n m (add_mset c P) \<Longrightarrow> droppable c \<Longrightarrow> patient X n m P"

lemma patient_reach: "patient X n m P \<Longrightarrow> reach X n m P"
  by (induction rule: patient.induct) (auto intro: reach.intros)

lemma droppable_simps [simp]:
  "\<not> droppable (Emit ev)" "\<not> droppable (NotifyAfter d ev)" "droppable Render" "droppable (HttpPost u a b t)"
  "droppable (KvGet k kt)" "droppable (KvSet k v kt)" "droppable (KvDelete k kt)"
  by (simp_all add: droppable_def)

inductive_simps responds_simps:
  "responds Render ev" "responds (Emit e) ev" "responds (HttpPost u a b t) ev" "responds (KvGet k t) ev"
  "responds (KvSet k v t) ev" "responds (KvDelete k t) ev" "responds (NotifyAfter d e) ev"

section \<open>Request slots over runs\<close>

definition pending :: "(event \<Rightarrow> gen option) \<Rightarrow> cmd multiset \<Rightarrow> gen multiset" where
  "pending res P = image_mset (\<lambda>c. the (answers res c)) (filter_mset (\<lambda>c. answers res c \<noteq> None) P)"

lemma pending_simps [simp]:
  "pending res {#} = {#}" "pending res (P + Q) = pending res P + pending res Q"
  "pending res (add_mset c P) = (case answers res c of None \<Rightarrow> pending res P | Some g \<Rightarrow> add_mset g (pending res P))"
  by (auto simp: pending_def split: option.split)

lemma pending_mset [simp]: "pending res (mset cs) = mset (tags res cs)"
  by (induction cs) (auto split: option.split)

lemma slot_ok_subset: "slot_ok s Q \<Longrightarrow> Q' \<subseteq># Q \<Longrightarrow> slot_ok s Q'"
  unfolding slot_ok_def by (meson le_trans mset_subset_eqD mset_subset_eq_count)

text \<open>The contract of a request guard: every event is a run of its slot, the answer to a command
  carries the generation the command was issued under, and the shell cannot forge a result.\<close>

locale request_slot =
  fixes X :: "'z app_ext_scheme" and res :: "event \<Rightarrow> gen option" and busy :: "model \<Rightarrow> bool" and gen :: "model \<Rightarrow> gen"
  assumes step: "refines res busy gen ev m (update X E ev m)"
    and echoed: "responds c ev \<Longrightarrow> answers res c = res ev"
    and unforged: "from_shell ev \<Longrightarrow> res ev = None"
    and fresh: "gen model_default = 0"
begin

lemma step_ok:
  assumes "slot_ok (slot_of busy gen m) Q" "unat (gen m) + 2 < 2 ^ 64"
    and "\<And>g. res ev = Some g \<Longrightarrow> unat g \<le> unat (gen m) \<and> (g = gen m \<longrightarrow> g \<notin># Q)"
  shows "slot_ok (slot_of busy gen (fst (update X E ev m))) (Q + mset (tags res (snd (update X E ev m)))) \<and>
    unat (gen (fst (update X E ev m))) \<le> unat (gen m) + 2"
proof -
  obtain n where n: "n \<le> 2" "slot_run (res ev) (slot_of busy gen m) n (tags res (snd (update X E ev m)))
      (slot_of busy gen (fst (update X E ev m)))"
    using step unfolding refines_def by blast
  show ?thesis using slot_run_ok [OF n(2) assms(1)] assms(2,3) n(1) by simp
qed

lemma reachable:
  assumes "reach X n m P" "2 * n < 2 ^ 64"
  shows "slot_ok (slot_of busy gen m) (pending res P) \<and> unat (gen m) \<le> 2 * n"
  using assms
proof induction
  case start
  then show ?case by (simp add: slot_ok_def fresh)
next
  case (user n m P ev E)
  then show ?case using step_ok [of m "pending res P" ev E] unforged [of ev] by auto
next
  case (answer n m c P ev E)
  then have ok: "slot_ok (slot_of busy gen m) (pending res (add_mset c P))" and g: "unat (gen m) \<le> 2 * n"
    by simp_all
  have sub: "slot_ok (slot_of busy gen m) (pending res P)"
    by (rule slot_ok_subset [OF ok]) (simp split: option.split)
  have "unat h \<le> unat (gen m) \<and> (h = gen m \<longrightarrow> h \<notin># pending res P)" if "res ev = Some h" for h
  proof -
    have "pending res (add_mset c P) = add_mset h (pending res P)"
      using echoed [OF answer.hyps(2)] that by simp
    then show ?thesis
      using ok by (auto simp: slot_ok_def slot_of_def not_in_iff split: if_splits)
  qed
  then show ?case using step_ok [OF sub, of ev E] g answer.prems by auto
next
  case (lost n m c P)
  moreover have "pending res P \<subseteq># pending res (add_mset c P)" by (simp split: option.split)
  ultimately show ?case by (blast intro: slot_ok_subset)
qed

lemma one_live:
  assumes "reach X n m P" "2 * n < 2 ^ 64"
  shows "size (filter_mset (\<lambda>c. answers res c = Some (gen m)) P) \<le> (if busy m then 1 else 0)"
proof -
  have "size (filter_mset (\<lambda>c. answers res c = Some (gen m)) P) = count (pending res P) (gen m)"
    by (induction P) (auto split: option.split)
  then show ?thesis using reachable [OF assms] by (auto simp: slot_ok_def slot_of_def)
qed

end

lemma responds_answers:
  assumes "responds c ev" "res \<in> {poll_result, auth_result, send_result}"
  shows "answers res c = res ev"
proof -
  have http: "res (http_event t r) = res (http_event t (Inl ()))" and kv: "res (kv_event k d) = res (kv_event k (Inl []))" for t r k d
    using assms(2) by (cases t; cases k; auto simp: result_defs)+
  show ?thesis
    using assms(1) by (cases c) (auto simp: responds_simps answers_def intro!: http [symmetric] kv [symmetric])
qed

lemma shell_no_result: "from_shell ev \<Longrightarrow> res \<in> {poll_result, auth_result, send_result} \<Longrightarrow> res ev = None"
  by (cases ev) (auto simp: result_defs)

interpretation poll_slot: request_slot X poll_result polling poll_gen for X
  by unfold_locales (simp_all add: poll_refines responds_answers shell_no_result model_default_def)

interpretation auth_slot: request_slot X auth_result authenticating auth_gen for X
  by unfold_locales (simp_all add: auth_refines responds_answers shell_no_result model_default_def)

interpretation send_slot: request_slot X send_result flushing flush_gen for X
  by unfold_locales (simp_all add: flush_refines responds_answers shell_no_result model_default_def)

text \<open>C17. Every event refines the abstract request machine, for each of the three round trips
  (polling, authenticating, sending): the handler's effect on the guard, the generation and the
  requests it issues is a run of at most two moves of the slot, in which a request is only ever
  issued from an idle slot under a new generation, and a result is only consumed when it carries the
  current one.\<close>

theorem update_refines_slots:
  "refines poll_result polling poll_gen ev m (update X E ev m) \<and>
   refines auth_result authenticating auth_gen ev m (update X E ev m) \<and>
   refines send_result flushing flush_gen ev m (update X E ev m)"
  by (simp add: poll_refines auth_refines flush_refines)

text \<open>C9. In every state the client can reach, whatever the order in which answers, timers and user
  events arrive and whichever of them get lost, each round trip has at most one request outstanding
  whose answer would be accepted, and none when its guard is down; the 64-bit generation counters have
  not wrapped (for runs shorter than 2^63 events, far beyond any client's lifetime).\<close>

theorem at_most_one_live_request:
  assumes "reach X n m P" "2 * n < 2 ^ 64"
  shows "size (filter_mset (\<lambda>c. answers poll_result c = Some (poll_gen m)) P) \<le> (if polling m then 1 else 0) \<and>
    size (filter_mset (\<lambda>c. answers auth_result c = Some (auth_gen m)) P) \<le> (if authenticating m then 1 else 0) \<and>
    size (filter_mset (\<lambda>c. answers send_result c = Some (flush_gen m)) P) \<le> (if flushing m then 1 else 0) \<and>
    unat (poll_gen m) \<le> 2 * n \<and> unat (auth_gen m) \<le> 2 * n \<and> unat (flush_gen m) \<le> 2 * n"
  using poll_slot.one_live [OF assms] auth_slot.one_live [OF assms] send_slot.one_live [OF assms]
    poll_slot.reachable [OF assms] auth_slot.reachable [OF assms] send_slot.reachable [OF assms] by blast

end
