(* ===== verification/Sessions.thy ===== *)
theory Sessions
  imports Runs
begin

text \<open>
  Properties of whole sessions: storage after a failed read, the relay's address, changing relays,
  the start of a session, and loading a conversation.
\<close>

section \<open>Storage after a failed read\<close>

definition is_store :: "cmd \<Rightarrow> bool" where
  "is_store c = (case c of KvSet _ _ _ \<Rightarrow> True | _ \<Rightarrow> False)"

definition is_send :: "cmd \<Rightarrow> bool" where
  "is_send c = (case c of HttpPost _ _ (SendBatch _) _ \<Rightarrow> True | _ \<Rightarrow> False)"

lemma is_store_simps [simp]:
  "is_store (KvSet k v t)" "\<not> is_store Render" "\<not> is_store (Emit e)" "\<not> is_store (HttpPost u a b h)"
  "\<not> is_store (KvGet k t)" "\<not> is_store (KvDelete k t)" "\<not> is_store (NotifyAfter d e)"
  by (simp_all add: is_store_def)

lemma is_send_simps [simp]:
  "is_send (HttpPost u a (SendBatch es) h)" "\<not> is_send (HttpPost u a (ChallengeReq p) h)"
  "\<not> is_send (HttpPost u a (VerifyReq p q r s) h)" "\<not> is_send (HttpPost u a (PollReq c) h)"
  "\<not> is_send (KvSet k v t)" "\<not> is_send Render" "\<not> is_send (Emit e)"
  "\<not> is_send (KvGet k t)" "\<not> is_send (KvDelete k t)" "\<not> is_send (NotifyAfter d e)"
  by (simp_all add: is_send_def)

definition latched :: "model \<times> cmd list \<Rightarrow> bool" where
  "latched r \<longleftrightarrow> kv_load_failed (fst r) \<and> (\<forall>c\<in>set (snd r). \<not> is_store c \<and> \<not> is_send c)"

lemma flush_latched [simp]: "kv_load_failed m \<Longrightarrow> flush_next X E m = (m, [])"
  by (simp add: flush_next_def)

lemma latched_Nil [simp]: "latched (m, []) = kv_load_failed m"
  by (simp add: latched_def)

lemma latched_retry:
  assumes "kv_load_failed m"
  shows "latched (retry_batch X E bt m)"
  using assms
  by (auto simp: retry_batch_def latched_def case_prod_unfold Let_def split: option.split)

lemma latched_finished: "kv_load_failed m \<Longrightarrow> latched (on_send_finished X E bt m)"
  by (auto simp: on_send_finished_def latched_def case_prod_unfold Let_def)

lemma latched_limited: "kv_load_failed m \<Longrightarrow> latched (on_rate_limited E resp m)"
  by (auto simp: on_rate_limited_def latched_def split: option.split)

lemma latched_send:
  assumes "kv_load_failed m"
  shows "latched (on_send_response X E g resp m)" "latched (on_send_error X E g m)" "latched (on_flush_watchdog X E g m)"
proof -
  have "latched (m\<lparr>flushing := False, in_flight := None, token := None\<rparr>, [Emit Authenticate])"
    using assms by (simp add: latched_def)
  then show "latched (on_send_response X E g resp m)" "latched (on_send_error X E g m)" "latched (on_flush_watchdog X E g m)"
    using assms unfolding on_send_response_def on_send_error_def on_flush_watchdog_def abandon_flush_def Let_def
    by (auto intro!: latched_retry latched_finished latched_limited)
qed

lemma latched_update:
  assumes "kv_load_failed m" "\<And>sk. ev \<noteq> IdentityLoaded sk"
  shows "latched (update X E ev m)"
proof (cases ev)
  case (IdentityLoaded sk)
  with assms(2) show ?thesis by blast
next
  case (SendResult g r)
  then show ?thesis using latched_send [OF assms(1)] by (cases r) simp_all
next
  case (FlushWatchdog g)
  then show ?thesis using latched_send [OF assms(1)] by simp
next
  case StartFlush
  then show ?thesis using assms(1) by simp
qed (use assms(1) in \<open>auto simp: latched_def handler_unfold next_gen_defs Let_def case_prod_unfold ingest_poll_def
    split: option.split outcome.split sum.split\<close>)

text \<open>A contact the user deletes takes its stored conversation with it; nothing else is deleted.\<close>

lemma latched_deletes:
  assumes "kv_load_failed m" "KvDelete k t \<in> set (snd (update X E ev m))"
  shows "\<exists>p. ev = DeleteContact p \<and> k = k_messages p"
proof -
  have retry: "KvDelete k t \<notin> set (snd (retry_batch X E bt m'))" if "kv_load_failed m'" for bt m'
    using that by (auto simp: retry_batch_def case_prod_unfold Let_def split: option.splits)
  have finished: "KvDelete k t \<notin> set (snd (on_send_finished X E bt m'))" if "kv_load_failed m'" for bt m'
    using that by (auto simp: on_send_finished_def case_prod_unfold Let_def)
  have limited: "KvDelete k t \<notin> set (snd (on_rate_limited E resp m'))" for resp m'
    by (auto simp: on_rate_limited_def split: option.splits)
  show ?thesis
    using assms
    by (cases ev) (auto simp: handler_unfold next_gen_defs Let_def case_prod_unfold ingest_poll_def retry finished limited
      on_send_response_def on_send_error_def on_flush_watchdog_def
      split: option.splits outcome.splits sum.splits if_splits)
qed

section \<open>Runs of events\<close>

text \<open>From one model to another by events of some kind, whatever they are and whatever the clock says.\<close>

inductive continues :: "'z app_ext_scheme \<Rightarrow> (env \<Rightarrow> event \<Rightarrow> bool) \<Rightarrow> model \<Rightarrow> model \<Rightarrow> bool" for X ok m0 where
  here: "continues X ok m0 m0"
| more: "continues X ok m0 m \<Longrightarrow> ok E ev \<Longrightarrow> continues X ok m0 (fst (update X E ev m))"

lemma continues_invariant:
  assumes "continues X ok m m'" "P m" "\<And>m E ev. P m \<Longrightarrow> ok E ev \<Longrightarrow> P (fst (update X E ev m))"
  shows "P m'"
  using assms(1) by induction (use assms(2,3) in auto)

definition no_restart :: "env \<Rightarrow> event \<Rightarrow> bool" where
  "no_restart E ev \<longleftrightarrow> (\<forall>sk. ev \<noteq> IdentityLoaded sk)"

section \<open>The relay's address\<close>

definition relay_base :: "'z app_ext_scheme \<Rightarrow> ustr \<Rightarrow> bool" where
  "relay_base X base \<longleftrightarrow> base = DEFAULT_SERVER_URL \<or> (\<exists>input. normalize_server_url X input = Some base)"

fun endpoint :: "http_then \<Rightarrow> ustr" where
  "endpoint (ThenChallengeResult g) = lit ''/auth/challenge''"
| "endpoint (ThenVerifyResult g) = lit ''/auth/verify''"
| "endpoint (ThenPollResult g) = lit ''/poll''"
| "endpoint (ThenSendResult g) = lit ''/messages''"

fun needs_token :: "http_then \<Rightarrow> bool" where
  "needs_token (ThenPollResult g) = True"
| "needs_token (ThenSendResult g) = True"
| "needs_token _ = False"

definition post_ok :: "'z app_ext_scheme \<Rightarrow> cmd \<Rightarrow> bool" where
  "post_ok X c =
     (case c of
        HttpPost u auth body t \<Rightarrow>
          (\<exists>base. relay_base X base \<and> u = base @ endpoint t) \<and>
          (if needs_token t then \<exists>tok. auth = Some (bearer tok) else auth = None)
      | _ \<Rightarrow> True)"

lemma post_ok_simps [simp]:
  "post_ok X Render" "post_ok X (Emit e)" "post_ok X (KvGet k t)" "post_ok X (KvSet k v t)" "post_ok X (KvDelete k t)"
  "post_ok X (NotifyAfter d e)"
  by (simp_all add: post_ok_def)

lemma post_okI [simp]:
  "relay_base X base \<Longrightarrow> post_ok X (HttpPost (base @ lit ''/auth/challenge'') None b (ThenChallengeResult g))"
  "relay_base X base \<Longrightarrow> post_ok X (HttpPost (base @ lit ''/auth/verify'') None b (ThenVerifyResult g))"
  "relay_base X base \<Longrightarrow> post_ok X (HttpPost (base @ lit ''/poll'') (Some (bearer tok)) b (ThenPollResult g))"
  "relay_base X base \<Longrightarrow> post_ok X (HttpPost (base @ lit ''/messages'') (Some (bearer tok)) b (ThenSendResult g))"
  by (auto simp: post_ok_def)

definition posts_ok :: "'z app_ext_scheme \<Rightarrow> model \<times> cmd list \<Rightarrow> bool" where
  "posts_ok X r \<longleftrightarrow> relay_base X (server_url (settings (fst r))) \<and> (\<forall>c\<in>set (snd r). post_ok X c)"

lemma posts_flush:
  assumes "relay_base X (server_url (settings m))"
  shows "posts_ok X (flush_next X E m)"
  using assms by (cases X E m rule: flush_next_cases) (auto simp: posts_ok_def)

lemma posts_flush_mem:
  "c \<in> set (snd (flush_next X E m)) \<Longrightarrow> relay_base X (server_url (settings m)) \<Longrightarrow> post_ok X c"
  using posts_flush [of X m E] by (simp add: posts_ok_def)

lemma posts_send:
  assumes "relay_base X (server_url (settings m))"
  shows "posts_ok X (on_send_response X E g resp m)" "posts_ok X (on_send_error X E g m)" "posts_ok X (on_flush_watchdog X E g m)"
proof -
  have retry: "posts_ok X (retry_batch X E bt m1)" and finished: "posts_ok X (on_send_finished X E bt m1)"
    and limited: "posts_ok X (on_rate_limited E resp m1)"
    if "settings m1 = settings m" for bt m1
    using assms that
    by (auto simp: retry_batch_def on_send_finished_def on_rate_limited_def posts_ok_def case_prod_unfold Let_def
        split: option.split intro: posts_flush_mem)
  have "posts_ok X (m, [])" "posts_ok X (m\<lparr>flushing := False, in_flight := None, token := None\<rparr>, [Emit Authenticate])"
    using assms by (simp_all add: posts_ok_def)
  then show "posts_ok X (on_send_response X E g resp m)" "posts_ok X (on_send_error X E g m)" "posts_ok X (on_flush_watchdog X E g m)"
    using assms unfolding on_send_response_def on_send_error_def on_flush_watchdog_def abandon_flush_def Let_def
    by (auto intro!: posts_flush retry finished limited)
qed

lemma posts_ingest: "\<forall>c\<in>set (snd (ingest_poll X E pg m)). post_ok X c"
proof (cases X E pg m rule: ingest_poll_cases)
  case (page ident s)
  show ?thesis unfolding page(4) persist_page_eq [OF page(6)] by auto
qed simp_all

lemma posts_update:
  assumes "relay_base X (server_url (settings m))"
  shows "posts_ok X (update X E ev m)"
proof (cases ev)
  case (SendResult g r)
  then show ?thesis using posts_send [OF assms] by (cases r) simp_all
next
  case (FlushWatchdog g)
  then show ?thesis using posts_send [OF assms] by simp
next
  case StartFlush
  then show ?thesis using posts_flush [OF assms] by simp
next
  case (SetServerUrl u)
  then show ?thesis using assms by (auto simp: posts_ok_def handler_unfold Let_def relay_base_def split: option.split)
next
  case (LoadedSettings r)
  then show ?thesis using assms
    by (auto simp: posts_ok_def handler_unfold Let_def relay_base_def split: option.split sum.split)
qed (use assms in \<open>auto simp: posts_ok_def handler_unfold next_gen_defs Let_def case_prod_unfold posts_ingest
    ingest_poll_fields split: option.split outcome.split sum.split\<close>)

text \<open>C29. Whatever is stored or typed as the relay's address, every request in every reachable state
  goes to one of the four endpoints under the default address or one that \<open>normalize_server_url\<close>
  accepted, so the request builder, which panics on an address it cannot parse, only ever sees those;
  and exactly the polls and sends carry the bearer token.\<close>

theorem requests_go_to_relay:
  assumes "reach X n m P"
  shows "relay_base X (server_url (settings m)) \<and> (\<forall>c\<in>#P. post_ok X c)"
  using assms
proof induction
  case start
  then show ?case by (simp add: relay_base_def model_default_def settings_default_def)
next
  case (user n m P ev E)
  then show ?case using posts_update [of X m E ev] by (auto simp: posts_ok_def)
next
  case (answer n m c P ev E)
  then show ?case using posts_update [of X m E ev] by (auto simp: posts_ok_def)
qed simp

theorem requests_go_to_relay_witness:
  "relay_base ref_app_ext (server_url (settings (fst (update ref_app_ext ref_env (SetServerUrl (lit ''a//'')) model_default)))) \<and>
   list_all (post_ok ref_app_ext) (snd (update ref_app_ext ref_env (SetServerUrl (lit ''a//'')) model_default))"
  using requests_go_to_relay [OF reach.user [OF reach.start [of ref_app_ext], of "SetServerUrl (lit ''a//'')" ref_env]]
  by (simp add: list_all_iff del: update.simps)

section \<open>Changing relays\<close>

lemma stale_ignored:
  "poll_result ev = Some g \<Longrightarrow> g \<noteq> poll_gen m \<Longrightarrow> update X E ev m = (m, [])"
  "auth_result ev = Some g \<Longrightarrow> g \<noteq> auth_gen m \<Longrightarrow> update X E ev m = (m, [])"
  "send_result ev = Some g \<Longrightarrow> g \<noteq> flush_gen m \<Longrightarrow> update X E ev m = (m, [])"
  by (cases ev; simp add: result_defs on_poll_result_def on_challenge_result_def on_verify_result_def
      on_send_response_def on_send_error_def split: sum.split)+

lemma slot_ok_next_stale:
  assumes "slot_ok s Q" "g \<in># Q" "unat (slot_gen s) + 1 < 2 ^ 64"
  shows "g \<noteq> slot_gen s + 1"
  using slot_ok_fresh(1) [OF assms(1,3)] assms(2) by blast

lemma responds_pending:
  assumes "c \<in># P" "responds c ev" "res ev = Some g" "res \<in> {poll_result, auth_result, send_result}"
  shows "g \<in># pending res P"
proof -
  have "answers res c = Some g" using responds_answers [OF assms(2,4)] assms(3) by simp
  with assms(1) show ?thesis by (auto simp: pending_def intro!: image_eqI [of _ _ c])
qed

text \<open>C22. Changing the relay fences the old one off: after the user sets an accepted address and the
  connection it triggers starts over, every answer still outstanding from before the change, whether to
  a poll, an authentication leg or a send, is dropped without changing the model or requesting
  anything.\<close>

theorem server_change_fences_answers:
  assumes "reach X n m P" "2 * n + 1 < 2 ^ 64" "normalize_server_url X u \<noteq> None"
    and "m1 = fst (update X E (SetServerUrl u) m)" "m2 = fst (update X E1 Connect m1)"
    and "c \<in># P" "responds c ev" "poll_result ev \<noteq> None \<or> auth_result ev \<noteq> None \<or> send_result ev \<noteq> None"
  shows "update X E2 ev m2 = (m2, [])"
proof -
  have n: "2 * n < 2 ^ 64" using assms(2) by simp
  have gens: "poll_gen m2 = poll_gen m + 1" "flush_gen m2 = flush_gen m + 1" "auth_gen m2 = auth_gen m + 1"
    using assms(3) unfolding assms(4,5) by (auto simp: handler_unfold Let_def case_prod_unfold split: option.split)
  note slots = poll_slot.reachable [OF assms(1) n] auth_slot.reachable [OF assms(1) n] send_slot.reachable [OF assms(1) n]
  have stale: "g \<noteq> gen m + 1"
    if "slot_ok (slot_of busy gen m) (pending res P) \<and> unat (gen m) \<le> 2 * n" "res ev = Some g"
      "res \<in> {poll_result, auth_result, send_result}" for res busy gen g
    using slot_ok_next_stale [of "slot_of busy gen m" "pending res P" g]
      responds_pending [where res = res, OF assms(6,7) that(2,3)] that(1) assms(2) by simp
  from assms(8) consider g where "poll_result ev = Some g" | g where "auth_result ev = Some g" | g where "send_result ev = Some g"
    by blast
  then show ?thesis
  proof cases
    case (1 g)
    with stale [where gen = poll_gen, OF slots(1)] gens show ?thesis by (intro stale_ignored(1)) simp_all
  next
    case (2 g)
    with stale [where gen = auth_gen, OF slots(2)] gens show ?thesis by (intro stale_ignored(2)) simp_all
  next
    case (3 g)
    with stale [where gen = flush_gen, OF slots(3)] gens show ?thesis by (intro stale_ignored(3)) simp_all
  qed
qed

lemma reach_answer:
  assumes "reach X n m P" "c \<in># P" "responds c ev"
  shows "reach X (Suc n) (fst (update X E ev m)) (P - {#c#} + mset (snd (update X E ev m)))"
  using assms reach.answer [of X n m c "P - {#c#}" ev E] by simp

lemma ref_patient_authenticating:
  "\<exists>m P u a b. patient ref_app_ext 3 m P \<and> authenticating m \<and> HttpPost u a b (ThenChallengeResult (auth_gen m)) \<in># P"
proof -
  define m1 where "m1 = fst (update ref_app_ext ref_env (IdentityLoaded (replicate 64 1)) model_default)"
  define m2 where "m2 = fst (update ref_app_ext ref_env Connect m1)"
  obtain P1 where r1: "patient ref_app_ext 1 m1 P1"
    using patient.user [OF patient.start [of ref_app_ext], of "IdentityLoaded (replicate 64 1)" ref_env]
    by (auto simp: m1_def)
  have m1: "secret_key m1 = Some (replicate 64 1)" "\<not> kv_load_failed m1" "conn m1 = Offline"
    by (simp_all add: m1_def on_identity_loaded_def ref_app_from_secret model_default_def)
  have r2: "patient ref_app_ext 2 m2 (P1 + {#Emit Authenticate#})"
    using patient.user [OF r1, of Connect ref_env] m1
    by (simp add: m2_def on_connect_def abandon_auth_def Let_def numeral_2_eq_2)
  have m2: "\<not> authenticating m2" "identity_of ref_app_ext m2 = Some (ref_identity 1)"
    using m1 by (simp_all add: m2_def on_connect_def abandon_auth_def Let_def identity_of_def ref_app_from_secret)
  have "patient ref_app_ext 3 (fst (update ref_app_ext ref_env Authenticate m2))
      (P1 + mset (snd (update ref_app_ext ref_env Authenticate m2)))"
    using patient.answer [of ref_app_ext 2 m2 "Emit Authenticate" P1 Authenticate ref_env] r2 responds.emitted
    by (simp add: numeral_3_eq_3)
  then show ?thesis
    using m2 by (fastforce simp: on_authenticate_def next_auth_gen_def Let_def)
qed

lemma ref_authenticating:
  "\<exists>m P u a b. reach ref_app_ext 3 m P \<and> HttpPost u a b (ThenChallengeResult (auth_gen m)) \<in># P"
  using ref_patient_authenticating patient_reach by blast

theorem at_most_one_live_request_witness:
  "\<exists>m P. reach ref_app_ext 3 m P \<and> authenticating m \<and>
     size (filter_mset (\<lambda>c. answers auth_result c = Some (auth_gen m)) P) = 1"
proof -
  obtain m P u a b where r: "reach ref_app_ext 3 m P" and c: "HttpPost u a b (ThenChallengeResult (auth_gen m)) \<in># P"
    using ref_authenticating by blast
  then have "HttpPost u a b (ThenChallengeResult (auth_gen m)) \<in># filter_mset (\<lambda>c. answers auth_result c = Some (auth_gen m)) P"
    by simp
  then have "0 < size (filter_mset (\<lambda>c. answers auth_result c = Some (auth_gen m)) P)"
    by (metis empty_not_add_mset gr0I multi_member_split size_eq_0_iff_empty)
  with r at_most_one_live_request [OF r] show ?thesis
    by (intro exI [of _ m] exI [of _ P]) (auto split: if_splits)
qed

theorem server_change_fences_answers_witness:
  "\<exists>m P c g m2. reach ref_app_ext 3 m P \<and> c \<in># P \<and> responds c (ChallengeResult g (Inl ())) \<and> g = auth_gen m \<and>
     m2 = fst (update ref_app_ext ref_env Connect (fst (update ref_app_ext ref_env (SetServerUrl (lit ''b'')) m))) \<and>
     update ref_app_ext ref_env (ChallengeResult g (Inl ())) m2 = (m2, [])"
proof -
  obtain m P u a b where r: "reach ref_app_ext 3 m P" and c: "HttpPost u a b (ThenChallengeResult (auth_gen m)) \<in># P"
    using ref_authenticating by blast
  have resp: "responds (HttpPost u a b (ThenChallengeResult (auth_gen m))) (ChallengeResult (auth_gen m) (Inl ()))"
    using responds.http [of u a b "ThenChallengeResult (auth_gen m)" "Inl ()"] by simp
  have url: "normalize_server_url ref_app_ext (lit ''b'') \<noteq> None"
    by (simp add: normalize_server_url_def ref_app_ext_def lit_def trim_def is_whitespace_def protocol_ext.defs app_ext.defs)
  show ?thesis
    using r c resp server_change_fences_answers [OF r _ url refl refl c resp, of ref_env ref_env ref_env]
    by (fastforce simp: auth_result_def)
qed

section \<open>The start of a session\<close>

fun startup_load :: "event \<Rightarrow> bool" where
  "startup_load (LoadedSettings r) = True"
| "startup_load (LoadedProfile r) = True"
| "startup_load (LoadedContacts r) = True"
| "startup_load (LoadedCursor r) = True"
| "startup_load (LoadedOutbox r) = True"
| "startup_load (LoadedSeenIds r) = True"
| "startup_load _ = False"

text \<open>The reads whose failure is recorded; unreadable dedup sets are rebuilt instead.\<close>

fun read_fails :: "'z app_ext_scheme \<Rightarrow> event \<Rightarrow> bool" where
  "read_fails X (LoadedSettings r) = (parse_kv (de_settings X) r = Inl ())"
| "read_fails X (LoadedProfile r) = (parse_kv (de_profile X) r = Inl ())"
| "read_fails X (LoadedContacts r) = (parse_kv (de_contacts X) r = Inl ())"
| "read_fails X (LoadedCursor r) = (parse_kv (de_cursor X) r = Inl ())"
| "read_fails X (LoadedOutbox r) = (parse_kv (de_outbox X) r = Inl ())"
| "read_fails X _ = False"

definition loaded_contacts :: "event \<Rightarrow> bool" where
  "loaded_contacts ev = (case ev of LoadedContacts r \<Rightarrow> True | _ \<Rightarrow> False)"

primrec run_events :: "'z app_ext_scheme \<Rightarrow> env \<Rightarrow> event list \<Rightarrow> model \<Rightarrow> model \<times> cmd list" where
  "run_events X E [] m = (m, [])"
| "run_events X E (ev # evs) m =
     (let (m1, c1) = update X E ev m; (m2, c2) = run_events X E evs m1 in (m2, c1 @ c2))"

definition connects :: "cmd list \<Rightarrow> nat" where
  "connects cs = count_list cs (Emit Connect)"

lemma connects_simps [simp]:
  "connects [] = 0" "connects (cs @ ds) = connects cs + connects ds"
  "connects (c # cs) = (if c = Emit Connect then 1 else 0) + connects cs"
  by (simp_all add: connects_def)

lemma connects_gets [simp]: "connects (map (\<lambda>p. KvGet (k p) (t p)) l) = 0"
  by (induction l) simp_all

lemma load_step:
  assumes "startup_load ev"
  shows "loads_pending (fst (update X E ev m)) = loads_pending m - 1"
    and "kv_load_failed (fst (update X E ev m)) \<longleftrightarrow> kv_load_failed m \<or> read_fails X ev"
    and "connects (snd (update X E ev m)) =
      (if loads_pending m = 1 \<and> \<not> kv_load_failed m \<and> (read_fails X ev \<longrightarrow> loaded_contacts ev) then 1 else 0)"
  using assms
  by (cases ev; auto simp: handler_unfold Let_def loaded_contacts_def split: sum.split option.split)+

text \<open>A read that fails, of whatever key but the dedup sets.\<close>

definition failed_read :: "'z app_ext_scheme \<Rightarrow> event \<Rightarrow> bool" where
  "failed_read X ev \<longleftrightarrow> read_fails X ev \<or> (\<exists>p r. ev = LoadedMessages p r \<and> parse_kv (de_messages X) r = Inl ())"

lemma failed_read_step:
  assumes "failed_read X ev"
  shows "kv_load_failed (fst (update X E ev m)) \<and>
    (\<forall>c\<in>set (snd (update X E ev m)). \<not> is_store c \<and> \<not> is_send c \<and> (\<forall>k t. c \<noteq> KvDelete k t))"
  using assms
  by (cases ev) (auto simp: failed_read_def handler_unfold Let_def case_prod_unfold split: sum.splits option.splits)

text \<open>C12. Once a read of the settings, the profile, the contacts, the cursor, the queue or a conversation
  has failed or met unreadable bytes, nothing can overwrite what is still on disk: whatever events follow
  short of a new start of the client, none writes a key and none puts queued messages on the wire, and the
  only thing that is ever deleted is the conversation of a contact the user deletes. (A failed read of the
  dedup sets is no such failure: the code then starts them over from the conversations and writes them.)\<close>

theorem no_write_after_failed_read:
  assumes "failed_read X ev0" "continues X no_restart (fst (update X E0 ev0 m)) m'" "\<forall>sk. ev \<noteq> IdentityLoaded sk"
  shows "(\<forall>c\<in>set (snd (update X E0 ev0 m)) \<union> set (snd (update X E ev m')). \<not> is_store c \<and> \<not> is_send c) \<and>
    (\<forall>k t. KvDelete k t \<in> set (snd (update X E ev m')) \<longrightarrow> (\<exists>p. ev = DeleteContact p \<and> k = k_messages p))"
proof -
  note start = failed_read_step [OF assms(1), of E0 m]
  have keep: "kv_load_failed (fst (update X E ev m))" if "kv_load_failed m" "no_restart E ev" for m E ev
    using latched_update [of m ev X E] that by (simp add: latched_def no_restart_def)
  have "kv_load_failed m'"
    by (rule continues_invariant [where P = kv_load_failed, OF assms(2)]) (use start keep in auto)
  with start latched_update [of m' ev X E] latched_deletes [of m' _ _ X E ev] assms(3) show ?thesis
    unfolding latched_def by blast
qed

theorem no_write_after_failed_read_witness:
  "list_all (\<lambda>c. \<not> is_store c \<and> \<not> is_send c) (snd (update ref_app_ext ref_env (SetBlocked [] True)
     (fst (update ref_app_ext ref_env (LoadedContacts (Inr None)) (fst (update ref_app_ext ref_env (LoadedCursor (Inl [])) model_default))))))"
proof -
  have "failed_read ref_app_ext (LoadedCursor (Inl []))" by (simp add: failed_read_def parse_kv_def)
  moreover have "continues ref_app_ext no_restart (fst (update ref_app_ext ref_env (LoadedCursor (Inl [])) model_default))
     (fst (update ref_app_ext ref_env (LoadedContacts (Inr None)) (fst (update ref_app_ext ref_env (LoadedCursor (Inl [])) model_default))))"
    by (rule continues.more [OF continues.here]) (simp add: no_restart_def)
  ultimately show ?thesis
    using no_write_after_failed_read [of ref_app_ext "LoadedCursor (Inl [])" ref_env model_default _ "SetBlocked [] True" ref_env]
    unfolding list_all_iff by blast
qed

lemma loads_run:
  assumes "\<forall>ev\<in>set evs. startup_load ev" "length evs \<le> loads_pending m"
  shows "loads_pending (fst (run_events X E evs m)) = loads_pending m - length evs \<and>
    (kv_load_failed (fst (run_events X E evs m)) \<longleftrightarrow> kv_load_failed m \<or> (\<exists>ev\<in>set evs. read_fails X ev)) \<and>
    connects (snd (run_events X E evs m)) =
      (if evs \<noteq> [] \<and> length evs = loads_pending m \<and> \<not> kv_load_failed m \<and>
          (\<forall>ev\<in>set (butlast evs). \<not> read_fails X ev) \<and> (read_fails X (last evs) \<longrightarrow> loaded_contacts (last evs))
       then 1 else 0)"
  using assms
proof (induction evs arbitrary: m)
  case (Cons ev evs)
  note st = load_step [of ev X E m]
  have "startup_load ev" using Cons.prems(1) by simp
  note st = st [OF this]
  have "length evs \<le> loads_pending (fst (update X E ev m))" using Cons.prems(2) st(1) by simp
  note IH = Cons.IH [OF _ this]
  show ?case
    using IH Cons.prems st
    by (cases "evs = []") (auto simp: case_prod_unfold Let_def)
qed simp

text \<open>C28. A session connects exactly once and only when everything is loaded: whatever the order in
  which the six reads of a new session are answered, no \<open>Connect\<close> is requested before the last of them,
  and the last one requests it once if every read succeeded and never if an earlier one failed.\<close>

theorem startup_connects_once:
  assumes "from_secret_bytes X sk = Ok ident" "length evs = STARTUP_LOADS" "\<forall>ev\<in>set evs. startup_load ev"
    and "r = (\<lambda>k. run_events X E (IdentityLoaded sk # take k evs) m)"
  shows "(\<forall>k<STARTUP_LOADS. connects (snd (r k)) = 0 \<and> loads_pending (fst (r k)) = STARTUP_LOADS - k) \<and>
    loads_pending (fst (r STARTUP_LOADS)) = 0 \<and>
    (kv_load_failed (fst (r STARTUP_LOADS)) \<longleftrightarrow> (\<exists>ev\<in>set evs. read_fails X ev)) \<and>
    connects (snd (r STARTUP_LOADS)) \<le> 1 \<and>
    ((\<forall>ev\<in>set evs. \<not> read_fails X ev) \<longrightarrow> connects (snd (r STARTUP_LOADS)) = 1) \<and>
    ((\<exists>ev\<in>set (butlast evs). read_fails X ev) \<longrightarrow> connects (snd (r STARTUP_LOADS)) = 0)"
proof -
  define m1 where "m1 = fst (update X E (IdentityLoaded sk) m)"
  have m1: "loads_pending m1 = STARTUP_LOADS" "\<not> kv_load_failed m1" "connects (snd (update X E (IdentityLoaded sk) m)) = 0"
    using assms(1) by (simp_all add: m1_def on_identity_loaded_def)
  have r: "fst (r k) = fst (run_events X E (take k evs) m1)" "connects (snd (r k)) = connects (snd (run_events X E (take k evs) m1))" for k
    using m1(3) by (simp_all add: assms(4) case_prod_unfold Let_def m1_def)
  have run: "loads_pending (fst (run_events X E (take k evs) m1)) = STARTUP_LOADS - k \<and>
    (kv_load_failed (fst (run_events X E (take k evs) m1)) \<longleftrightarrow> (\<exists>ev\<in>set (take k evs). read_fails X ev)) \<and>
    connects (snd (run_events X E (take k evs) m1)) =
      (if k = STARTUP_LOADS \<and> (\<forall>ev\<in>set (butlast evs). \<not> read_fails X ev) \<and> (read_fails X (last evs) \<longrightarrow> loaded_contacts (last evs))
       then 1 else 0)" if "k \<le> STARTUP_LOADS" for k
  proof -
    have "\<forall>ev\<in>set (take k evs). startup_load ev" using assms(3) by (auto dest: in_set_takeD)
    from loads_run [OF this, of m1 X E] m1 assms(2) that show ?thesis
      by (cases "k = STARTUP_LOADS") (auto simp: STARTUP_LOADS_def)
  qed
  have "last evs \<in> set evs" using assms(2) by (auto simp: STARTUP_LOADS_def intro!: last_in_set)
  with run [of STARTUP_LOADS] show ?thesis
    using run assms(2) unfolding r by (auto dest: in_set_butlastD)
qed

definition ref_loads :: "event list" where
  "ref_loads = [LoadedCursor (Inr None), LoadedSettings (Inr None), LoadedContacts (Inr None), LoadedOutbox (Inr None),
     LoadedSeenIds (Inr None), LoadedProfile (Inr None)]"

theorem startup_connects_once_witness:
  "connects (snd (run_events ref_app_ext ref_env (IdentityLoaded (replicate 64 1) # take STARTUP_LOADS ref_loads) model_default)) = 1"
  using startup_connects_once [OF ref_app_from_secret [of 1], of ref_loads, OF _ _ refl, of ref_env model_default]
  by (auto simp: ref_loads_def STARTUP_LOADS_def)

section \<open>Loading a conversation\<close>

definition stored_before :: "stored_message list \<Rightarrow> stored_message list \<Rightarrow> stored_message list" where
  "stored_before existing l = filter (\<lambda>x. m_id x \<notin> set (map m_id existing)) l"

lemma merge_history_eq: "merge_history existing l = trim_history (sort_key m_ts (existing @ stored_before existing l))"
  by (simp add: merge_history_def stored_before_def)

text \<open>C34. A conversation read late is merged, not replaced: the messages that arrived before the read
  all take part with the stored messages of other ids, none twice; the result is in time order and
  within the cap, and what the cap drops is older than everything kept.\<close>

theorem loaded_history_merged:
  assumes "parse_kv (de_messages X) r = Inr (Some l)" "bt_get (messages m) peer = Some existing"
    and "bt_get (messages (fst (update X E (LoadedMessages peer r) m))) peer = Some merged"
  shows "convo_ok merged \<and>
    (\<exists>old. mset old + mset merged = mset existing + mset (filter (\<lambda>x. m_id x \<notin> set (map m_id existing)) l) \<and>
       (old \<noteq> [] \<longrightarrow> length merged = MAX_MESSAGES_PER_PEER) \<and> (\<forall>x\<in>set old. \<forall>y\<in>set merged. m_ts x \<le> m_ts y)) \<and>
    (distinct (map m_id existing) \<longrightarrow> distinct (map m_id l) \<longrightarrow> distinct (map m_id merged))"
proof -
  let ?all = "sort_key m_ts (existing @ stored_before existing l)"
  let ?k = "length ?all - MAX_MESSAGES_PER_PEER"
  have merged: "merged = trim_history ?all"
    using assms by (simp add: on_loaded_messages_def bt_get_simps merge_history_eq)
  have sorted: "sorted (map m_ts ?all)" by (rule sorted_sort_key)
  have ok: "convo_ok merged"
    using convo.ordered_trim [OF sorted] convo.length_trim [of ?all] by (simp add: merged convo_ok_def by_ts_def)
  have split: "?all = take ?k ?all @ merged" by (simp add: merged convo.trim_eq)
  have "mset (take ?k ?all) + mset merged = mset existing + mset (stored_before existing l)"
    using arg_cong [OF split, of mset] by simp
  moreover have "length merged = MAX_MESSAGES_PER_PEER" if "take ?k ?all \<noteq> []"
    using that by (auto simp: merged convo.trim_eq)
  moreover have "\<forall>x\<in>set (take ?k ?all). \<forall>y\<in>set merged. m_ts x \<le> m_ts y"
    using convo.trim_newest [OF sorted] by (simp add: merged)
  moreover have "distinct (map m_id merged)" if "distinct (map m_id existing)" "distinct (map m_id l)"
  proof -
    have "distinct (map m_id (existing @ stored_before existing l))"
      using that by (auto simp: stored_before_def distinct_map_filter) (metis image_eqI)
    then have "distinct (map m_id ?all)"
      by (metis mset_map mset_sort mset_eq_imp_distinct_iff)
    then show ?thesis by (simp add: merged convo.trim_eq flip: drop_map)
  qed
  ultimately show ?thesis using ok unfolding stored_before_def by blast
qed

definition ref_history_ext :: app_ext where
  "ref_history_ext = ref_app_ext\<lparr>de_messages := \<lambda>_. Some [ref_msg ''a'' 1, ref_msg ''b'' 3]\<rparr>"

theorem loaded_history_merged_witness:
  "convo_ok (merge_history [ref_msg ''b'' 3, ref_msg ''c'' 2] [ref_msg ''a'' 1, ref_msg ''b'' 3])"
proof -
  let ?m = "model_default\<lparr>messages := [([], [ref_msg ''b'' 3, ref_msg ''c'' 2])]\<rparr>"
  let ?l = "[ref_msg ''a'' 1, ref_msg ''b'' 3]"
  have l: "parse_kv (de_messages ref_history_ext) (Inr (Some [])) = Inr (Some ?l)"
    by (simp add: ref_history_ext_def parse_kv_def)
  have e: "bt_get (messages ?m) [] = Some [ref_msg ''b'' 3, ref_msg ''c'' 2]" by (simp add: bt_get_def)
  have "bt_get (messages (fst (update ref_history_ext ref_env (LoadedMessages [] (Inr (Some []))) ?m))) [] =
      Some (merge_history [ref_msg ''b'' 3, ref_msg ''c'' 2] ?l)"
    using l e by (simp add: on_loaded_messages_def bt_get_modify)
  from loaded_history_merged [OF l e this] show ?thesis by blast
qed

section \<open>Where the code and its comments part\<close>

text \<open>Deleting a contact erases its stored conversation even after a failed read, when the contact
  list itself is not written: the contact comes back at the next start, its history does not.\<close>

lemma delete_after_failed_read:
  assumes "kv_load_failed m"
  shows "KvDelete (k_messages peer) ThenSaved \<in> set (snd (update X E (DeleteContact peer) m)) \<and>
    \<not> (\<exists>v t. KvSet K_CONTACTS v t \<in> set (snd (update X E (DeleteContact peer) m)))"
  using assms by (simp add: on_delete_contact_def forget_outgoing_def detach_in_flight_def Let_def case_prod_unfold)

text \<open>A connection is started while reads are still outstanding.\<close>

lemma connect_before_loads:
  assumes "secret_key m \<noteq> None" "conn m \<noteq> Online" "\<not> kv_load_failed m"
  shows "Emit Authenticate \<in> set (snd (update X E Connect (m\<lparr>loads_pending := n\<rparr>)))"
  using assms by (simp add: on_connect_def abandon_auth_def Let_def)

text \<open>After a failed write of the cursor the client polls again with the unwritten cursor.\<close>

lemma unsaved_cursor_polled:
  "\<exists>d. NotifyAfter d Poll \<in> set (snd (update X E (SavedCursor (Inl e)) m)) \<and>
    cursor (fst (update X E (SavedCursor (Inl e)) m)) = cursor m"
  by (simp add: on_saved_cursor_def save_failed_def backoff_poll_def)

text \<open>The ids of a loaded conversation are not added for a peer without a dedup set, which is every peer
  after the read of the sets failed.\<close>

lemma lost_ids_not_rebuilt:
  assumes "seen_ids m' = seen_ids (fst (update X E (LoadedSeenIds (Inl e)) m))"
  shows "bt_get (seen_ids (fst (update X E (LoadedMessages peer r) m'))) peer = None"
  using assms
  by (simp add: on_loaded_seen_ids_def on_loaded_messages_def handler_unfold Let_def bt_modify_def bt_get_def
      split: sum.split option.split)

end
