(* ===== verification/Queue.thy ===== *)
theory Queue
  imports Sessions
begin

text \<open>
  The outgoing queue over whole sessions: nothing for a blocked contact is ever in it or on the wire,
  the send in flight stays described by the head of the queue, what an accepted send removes is what
  was posted, and a relay that accepts everything empties it.
\<close>

section \<open>The invariant of the queue\<close>

text \<open>No queued item is for a blocked contact.\<close>

definition clear_queue :: "model \<Rightarrow> bool" where
  "clear_queue m \<longleftrightarrow> (\<forall>i\<in>set (outbox m). \<not> blocked m (o_recipient i))"

definition queue_ok :: "model \<Rightarrow> bool" where
  "queue_ok m \<longleftrightarrow> contacts_ok m \<and> flight_ok m \<and> clear_queue m"

text \<open>What the send in flight carries is not touched while it is the send in flight.\<close>

definition wire_stable :: "model \<Rightarrow> model \<Rightarrow> bool" where
  "wire_stable m m' \<longleftrightarrow>
     (\<forall>f. in_flight m' = Some f \<longrightarrow> flush_gen m' = flush_gen m \<longrightarrow>
        in_flight m = Some f \<and> take (f_count f) (outbox m') = take (f_count f) (outbox m))"

definition queue_step :: "model \<Rightarrow> model \<Rightarrow> bool" where
  "queue_step m m' \<longleftrightarrow> queue_ok m' \<and> wire_stable m m'"

lemma clear_recipients: "clear_queue m \<longleftrightarrow> (\<forall>p\<in>o_recipient ` set (outbox m). \<not> blocked m p)"
  by (simp add: clear_queue_def)

lemma queue_frame:
  assumes "queue_ok m" "contacts m' = contacts m" "outbox m' = outbox m" "in_flight m' = in_flight m" "flushing m' = flushing m"
  shows "queue_step m m'"
  using assms
  by (simp add: queue_step_def queue_ok_def wire_stable_def flight_ok_def clear_queue_def blocked_def contacts_ok_def
      cong: option.case_cong)

lemma queue_step_cong:
  "queue_step m m1 \<Longrightarrow> contacts m2 = contacts m1 \<Longrightarrow> outbox m2 = outbox m1 \<Longrightarrow> in_flight m2 = in_flight m1 \<Longrightarrow>
    flushing m2 = flushing m1 \<Longrightarrow> flush_gen m2 = flush_gen m1 \<Longrightarrow> queue_step m m2"
  by (simp add: queue_step_def queue_ok_def wire_stable_def flight_ok_def clear_queue_def blocked_def contacts_ok_def
      cong: option.case_cong)

lemma clear_subset:
  "clear_queue m \<Longrightarrow> contacts m' = contacts m \<Longrightarrow> o_recipient ` set (outbox m') \<subseteq> o_recipient ` set (outbox m) \<Longrightarrow> clear_queue m'"
  unfolding clear_recipients by (auto simp: blocked_def)

text \<open>Growing the queue at its end touches nothing in flight.\<close>

lemma flight_ok_append: "flight_ok m \<Longrightarrow> outbox m' = outbox m @ new \<Longrightarrow> in_flight m' = in_flight m \<Longrightarrow>
    flushing m' = flushing m \<Longrightarrow> flight_ok m' \<and> wire_stable m m'"
  by (auto simp: flight_ok_def wire_stable_def split: option.splits)

section \<open>The send loop\<close>

lemma flush_recipients: "o_recipient ` set (outbox (fst (flush_next X E m))) \<subseteq> o_recipient ` set (outbox m)"
proof -
  obtain q where q: "subseq q (outbox m)" "map unstamped (outbox (fst (flush_next X E m))) = map unstamped q"
    using flush_queue by blast
  have "o_recipient ` set l = o_recipient ` set (map unstamped l)" for l
    by (force simp: unstamped_def image_image)
  then have "o_recipient ` set (outbox (fst (flush_next X E m))) = o_recipient ` set q" using q(2) by metis
  moreover have "set q \<subseteq> set (outbox m)" using q(1) by (auto elim: list_emb_set)
  ultimately show ?thesis by blast
qed

lemma flush_new_gen:
  assumes "in_flight m = None" "in_flight (fst (flush_next X E m)) = Some f"
  shows "flush_gen (fst (flush_next X E m)) = flush_gen m + 1"
  using assms by (cases X E m rule: flush_next_cases) auto

lemma flush_busy: "flushing m \<Longrightarrow> flush_next X E m = (m, [])"
  by (simp add: flush_next_def)

lemma queue_flush:
  assumes "queue_ok m1" "in_flight m1 = None \<or> flushing m1"
  shows "queue_step m1 (fst (flush_next X E m1))"
proof (cases "flushing m1")
  case True
  then show ?thesis using assms(1) by (simp add: flush_busy queue_frame)
next
  case False
  then have "in_flight m1 = None" using assms(2) by simp
  then have "wire_stable m1 (fst (flush_next X E m1))"
    using flush_new_gen [of m1 X E] by (auto simp: wire_stable_def)
  then show ?thesis
    using assms(1) flush_next_flight_ok [of m1 X E] clear_subset [OF _ _ flush_recipients, of m1 X E]
    by (simp add: queue_step_def queue_ok_def contacts_ok_def)
qed

lemma queue_ok_flight: "queue_ok m \<Longrightarrow> in_flight m = None \<or> flushing m"
  by (auto simp: queue_ok_def flight_ok_def split: option.splits)

text \<open>A handler that gives up its send first and then works on a smaller queue.\<close>

lemma queue_released:
  assumes "queue_ok m" "contacts m1 = contacts m" "in_flight m1 = None"
    "o_recipient ` set (outbox m1) \<subseteq> o_recipient ` set (outbox m)"
  shows "queue_ok m1"
  using assms clear_subset [of m m1] by (simp add: queue_ok_def contacts_ok_def)

lemma released_step: "queue_ok m1 \<Longrightarrow> in_flight m1 = None \<Longrightarrow> queue_step m m1"
  by (simp add: queue_step_def wire_stable_def)

lemma released_flush:
  assumes "queue_ok m1" "in_flight m1 = None" "flush_gen m1 = flush_gen m \<or> flush_gen m1 = flush_gen m + 1"
  shows "queue_step m (fst (flush_next X E m1))"
proof -
  have "flush_gen (fst (flush_next X E m1)) \<noteq> flush_gen m" if "in_flight (fst (flush_next X E m1)) = Some f" for f
  proof -
    have "(2 :: gen) \<noteq> 0" by simp
    then show ?thesis
      using flush_new_gen [OF assms(2) that] assms(3)
      by (auto simp: add.assoc)
  qed
  then show ?thesis
    using queue_flush [OF assms(1)] assms(2) by (auto simp: queue_step_def wire_stable_def)
qed

lemma charge_recipients: "o_recipient ` set (snd (charge_batch now n q)) \<subseteq> o_recipient ` set q"
  by (induction now n q rule: charge_batch.induct) (auto simp: Let_def case_prod_unfold)

lemma queue_retry:
  assumes "queue_ok m1" "in_flight m1 = None" "flush_gen m1 = flush_gen m"
  shows "queue_step m (fst (retry_batch X E bt m1))"
proof (cases bt)
  case None
  then show ?thesis using assms by (simp add: retry_batch_def released_step)
next
  case (Some f)
  obtain k kept where ck: "charge_batch (now_ms E 0) (f_count f) (outbox m1) = (k, kept)" by fastforce
  have ok: "queue_ok (m1\<lparr>outbox := kept, error := e\<rparr>)" for e
    by (rule queue_released [OF assms(1)])
      (use assms(2) charge_recipients [of "now_ms E 0" "f_count f" "outbox m1"] ck in simp_all)
  show ?thesis
  proof (cases "k = 0")
    case True
    then show ?thesis
      using Some ck released_step [OF ok] assms(2) by (simp add: retry_batch_def case_prod_unfold Let_def)
  next
    case False
    then show ?thesis
      using Some ck released_flush [OF ok, where m = m and X = X] assms(2,3) by (simp add: retry_batch_def case_prod_unfold Let_def)
  qed
qed

lemma queue_finished:
  assumes "queue_ok m1" "in_flight m1 = None" "flush_gen m1 = flush_gen m"
  shows "queue_step m (fst (on_send_finished X E bt m1))"
proof -
  define m2 where "m2 = fst (persist_outbox X (if kv_load_failed m1 then m1\<lparr>send_retries := 0\<rparr>
    else m1\<lparr>send_retries := 0, outbox := drop (case bt of None \<Rightarrow> 0 | Some f \<Rightarrow> f_count f) (outbox m1)\<rparr>))"
  have "queue_ok m2"
    by (rule queue_released [OF assms(1)]) (use assms(2) set_drop_subset in \<open>auto simp: m2_def dest: in_set_dropD\<close>)
  then have "queue_step m (fst (flush_next X E m2))"
    by (rule released_flush) (use assms(2,3) in \<open>simp_all add: m2_def\<close>)
  then show ?thesis
    by (simp add: on_send_finished_def case_prod_unfold Let_def m2_def if_distrib cong: if_cong)
qed

lemma queue_limited: "queue_ok m1 \<Longrightarrow> in_flight m1 = None \<Longrightarrow> queue_step m (fst (on_rate_limited E resp m1))"
  by (rule queue_step_cong [OF released_step, of m1])
    (auto simp: on_rate_limited_def split: option.split)

lemma queue_send:
  assumes "queue_ok m"
  shows "queue_step m (fst (on_send_response X E g resp m))" "queue_step m (fst (on_send_error X E g m))"
    "queue_step m (fst (on_flush_watchdog X E g m))"
proof -
  let ?m1 = "m\<lparr>flushing := False, in_flight := None\<rparr>"
  have same: "queue_step m m" using assms by (simp add: queue_frame)
  have rel: "queue_ok m'" if "contacts m' = contacts m" "in_flight m' = None" "outbox m' = outbox m" for m'
    by (rule queue_released [OF assms]) (use that in simp_all)
  have m1: "queue_ok ?m1" "in_flight ?m1 = None" "flush_gen ?m1 = flush_gen m" by (simp_all add: rel)
  have auth: "queue_step m (?m1\<lparr>token := None\<rparr>)" by (rule released_step [OF rel]) simp_all
  have split: "queue_step m (fst (flush_next X E (?m1\<lparr>send_batch_budget := b\<rparr>)))" for b
    by (rule released_flush [OF rel]) simp_all
  show "queue_step m (fst (on_send_response X E g resp m))"
    unfolding on_send_response_def Let_def
    using same auth split queue_limited [OF m1(1,2)] queue_retry [OF m1, of X] queue_finished [OF m1, of X]
    by auto
  show "queue_step m (fst (on_send_error X E g m))"
    using same queue_retry [OF m1, of X] by (simp add: on_send_error_def)
  show "queue_step m (fst (on_flush_watchdog X E g m))"
    using same released_flush [OF rel, of "abandon_flush m" m X E]
    by (simp add: on_flush_watchdog_def abandon_flush_def)
qed

section \<open>The user's actions\<close>

lemma queue_forget:
  assumes "contacts_ok m1" "flight_ok m" "outbox m1 = outbox m" "in_flight m1 = in_flight m" "flushing m1 = flushing m"
    and "\<forall>i\<in>set (outbox m). o_recipient i \<noteq> peer \<longrightarrow> \<not> blocked m1 (o_recipient i)"
  shows "queue_step m (forget_outgoing peer m1)"
proof -
  let ?m2 = "forget_outgoing peer m1" and ?P = "\<lambda>i. o_recipient i \<noteq> peer"
  have m2: "contacts ?m2 = contacts m1" "outbox ?m2 = filter ?P (outbox m)" "flushing ?m2 = flushing m"
    using assms(3,5) by (simp_all add: forget_outgoing_def detach_in_flight_def)
  have fl: "in_flight ?m2 = (if is_some_and (in_flight m) (\<lambda>f. f_recipient f = peer) then None else in_flight m)"
    using assms(4) by (simp add: forget_outgoing_def detach_in_flight_def)
  have keep: "take (f_count f) (filter ?P (outbox m)) = take (f_count f) (outbox m) \<and> f_count f \<le> length (filter ?P (outbox m))"
    if "in_flight m = Some f" "f_recipient f \<noteq> peer" for f
    using assms(2) that by (intro take_filter_prefix) (auto simp: flight_ok_def list_all_iff)
  have "flight_ok ?m2" "wire_stable m ?m2"
    using assms(2) keep fl m2
    by (auto simp: flight_ok_def wire_stable_def is_some_and_def split: option.splits if_splits)
  moreover have "clear_queue ?m2"
    using assms(6) m2 by (auto simp: clear_queue_def blocked_def)
  ultimately show ?thesis
    using assms(1) m2(1) by (simp add: queue_step_def queue_ok_def contacts_ok_def)
qed

lemma queue_append:
  assumes "queue_ok m" "contacts_ok m'" "outbox m' = outbox m @ new" "in_flight m' = in_flight m" "flushing m' = flushing m"
    and "\<forall>p. blocked m' p \<longrightarrow> blocked m p" "\<forall>i\<in>set new. \<not> blocked m (o_recipient i)"
  shows "queue_step m m'"
  using assms flight_ok_append [of m m' new]
  by (auto simp: queue_step_def queue_ok_def clear_queue_def)

lemma blocked_new: "\<not> c_blocked (contact_new k n t)"
  by (simp add: contact_new_def)

lemma contact_new_key [simp]: "c_pubkey (contact_new k n t) = k"
  by (simp add: contact_new_def)

lemma queue_add_contact:
  assumes "queue_ok m"
  shows "queue_step m (fst (on_add_contact X E input nickname m))"
proof -
  have ins: "queue_step m m'" if "contacts m' = bt_modify hex f c1" "\<And>c. c_pubkey (f c) = c_pubkey c" "\<And>c. c_blocked (f c) = c_blocked c"
      "c1 = (case bt_get (contacts m) hex of Some _ \<Rightarrow> contacts m | None \<Rightarrow> bt_insert hex (contact_new hex nickname t) (contacts m))"
      "outbox m' = outbox m" "in_flight m' = in_flight m" "flushing m' = flushing m" for m' hex f t c1
  proof (rule queue_append [OF assms, where new = "[]"])
    have c1: "bt_wf c1" "\<forall>k c. bt_get c1 k = Some c \<longrightarrow> c_pubkey c = k"
      "\<forall>p. is_some_and (bt_get c1 p) c_blocked \<longrightarrow> blocked m p"
      using assms that(4)
      by (auto simp: queue_ok_def contacts_ok_def bt.invar_insert bt_get_simps blocked_def is_some_and_def blocked_new
          split: option.splits if_splits)
    then show "contacts_ok m'"
      using that(1,2) by (auto simp: contacts_ok_def bt.invar_modify bt_get_simps)
    have "is_some_and (bt_get (bt_modify hex f c1) p) c_blocked = is_some_and (bt_get c1 p) c_blocked" for p
      using that(3) by (simp add: bt_get_simps is_some_and_def split: option.split)
    with c1(3) show "\<forall>p. blocked m' p \<longrightarrow> blocked m p"
      using that(1) by (simp add: blocked_def [of m'])
  qed (use that in simp_all)
  have id: "bt_modify hex (\<lambda>c. c) c1 = c1" for hex and c1 :: "contact btree"
    by (simp add: bt_modify_def map_idI case_prod_unfold)
  show ?thesis
  proof (cases "ulen nickname \<le> MAX_DISPLAY_NAME_LEN \<and> (\<exists>hex. try_parse_pubkey X input = Some hex \<and> hex \<noteq> my_pubkey m)")
    case True
    then obtain hex where hex: "\<not> MAX_DISPLAY_NAME_LEN < ulen nickname" "try_parse_pubkey X input = Some hex" "hex \<noteq> my_pubkey m"
      by auto
    let ?f = "\<lambda>c. if nickname = [] then c else c\<lparr>c_nickname := nickname\<rparr>"
    show ?thesis
      by (rule ins [where hex = hex and t = "now_ms E 0" and f = ?f, OF _ _ _ refl])
        (use hex in \<open>simp_all add: on_add_contact_def case_prod_unfold Let_def id cong: option.case_cong\<close>)
  next
    case False
    then show ?thesis
      using queue_frame [OF assms] by (auto simp: on_add_contact_def err_def Let_def split: option.split)
  qed
qed

lemma queue_set_blocked:
  assumes "queue_ok m"
  shows "queue_step m (fst (on_set_blocked X peer b m))"
proof -
  let ?m1 = "m\<lparr>contacts := bt_modify peer (\<lambda>c. c\<lparr>c_blocked := b\<rparr>) (contacts m), error := None\<rparr>"
  have ok: "contacts_ok ?m1"
    using assms by (auto simp: queue_ok_def contacts_ok_def bt.invar_modify bt_get_simps)
  have other: "blocked ?m1 p \<longrightarrow> p = peer \<and> b \<or> blocked m p" for p
    by (auto simp: blocked_def is_some_and_def bt_get_simps split: option.splits)
  show ?thesis
  proof (cases b)
    case True
    have "queue_step m (forget_outgoing peer ?m1)"
      by (rule queue_forget [OF ok]) (use assms other in \<open>auto simp: queue_ok_def clear_queue_def\<close>)
    then show ?thesis
      by (rule queue_step_cong) (use True in \<open>simp_all add: on_set_blocked_def case_prod_unfold Let_def\<close>)
  next
    case False
    have "queue_step m ?m1"
      by (rule queue_append [OF assms ok, where new = "[]"]) (use other False in auto)
    then show ?thesis
      by (rule queue_step_cong) (use False in \<open>simp_all add: on_set_blocked_def case_prod_unfold Let_def\<close>)
  qed
qed

lemma queue_delete:
  assumes "queue_ok m"
  shows "queue_step m (fst (on_delete_contact X peer m))"
proof -
  let ?m1 = "m\<lparr>contacts := bt_remove peer (contacts m), messages := bt_remove peer (messages m),
    seen_ids := bt_remove peer (seen_ids m)\<rparr>"
  have ok: "contacts_ok ?m1"
    using assms by (auto simp: queue_ok_def contacts_ok_def bt.invar_remove bt_get_simps)
  have "queue_step m (forget_outgoing peer ?m1)"
    by (rule queue_forget [OF ok])
      (use assms in \<open>auto simp: queue_ok_def clear_queue_def blocked_def bt_get_simps\<close>)
  then show ?thesis
    by (rule queue_step_cong) (simp_all add: on_delete_contact_def case_prod_unfold Let_def)
qed

text \<open>A profile broadcast rewrites and appends behind the items in flight only.\<close>

lemma update_first_recipients:
  "update_first P f q = Some q' \<Longrightarrow> (\<And>i. o_recipient (f i) = o_recipient i) \<Longrightarrow> map o_recipient q' = map o_recipient q"
  by (induction q arbitrary: q') (auto split: if_splits)

lemma queue_profile_spec:
  "(\<exists>tail. queue_profile live pj peer q = take live q @ tail) \<and>
   set (map o_recipient (queue_profile live pj peer q)) \<subseteq> insert peer (set (map o_recipient q))"
proof (cases "update_first (\<lambda>i. is_profile i \<and> o_recipient i = peer) (\<lambda>i. i\<lparr>o_envelope_json := pj\<rparr>) (drop live q)")
  case None
  then have eq: "queue_profile live pj peer q = q @ [outbox_item_profile peer pj]" by (simp add: queue_profile_def)
  then have "queue_profile live pj peer q = take live q @ drop live q @ [outbox_item_profile peer pj]" by simp
  moreover have "set (map o_recipient (queue_profile live pj peer q)) \<subseteq> insert peer (set (map o_recipient q))"
    using eq by (auto simp: outbox_item_profile_def)
  ultimately show ?thesis by blast
next
  case (Some behind)
  have "set (map o_recipient behind) = set (map o_recipient (drop live q))"
    using update_first_recipients [OF Some] by simp
  then have "o_recipient ` set behind \<subseteq> o_recipient ` set q" using set_drop_subset by fastforce
  moreover have "o_recipient ` set (take live q) \<subseteq> o_recipient ` set q" using set_take_subset by fastforce
  ultimately show ?thesis using Some by (auto simp: queue_profile_def)
qed

lemma broadcast_spec:
  "live \<le> length q \<Longrightarrow>
   take live (fold (queue_profile live pj) peers q) = take live q \<and> live \<le> length (fold (queue_profile live pj) peers q) \<and>
   set (map o_recipient (fold (queue_profile live pj) peers q)) \<subseteq> set peers \<union> set (map o_recipient q)"
proof (induction peers arbitrary: q)
  case (Cons p peers)
  let ?q = "queue_profile live pj p q"
  from queue_profile_spec [of live pj p q] Cons.prems
  have "take live ?q = take live q" "live \<le> length ?q" "set (map o_recipient ?q) \<subseteq> insert p (set (map o_recipient q))"
    by (auto simp: min_def)
  with Cons.IH [of ?q] show ?case by simp blast
qed simp

lemma profile_recipients_open:
  assumes "contacts_ok m" "p \<in> set (profile_recipients m)"
  shows "\<not> blocked m p"
proof -
  from assms(2) obtain k c where "(k, c) \<in> set (contacts m)" "\<not> c_blocked c" "p = c_pubkey c"
    by (auto simp: profile_recipients_def bt_values_def)
  with assms(1) have "bt_get (contacts m) p = Some c"
    by (metis bt_get_Some_iff contacts_ok_def)
  with \<open>\<not> c_blocked c\<close> show ?thesis by (simp add: blocked_def is_some_and_def)
qed

lemma queue_broadcast:
  assumes "queue_ok m"
  shows "queue_step m (broadcast_profile X ts m)"
proof -
  define pj where "pj = serialize_payload X (own_profile_payload m) ts"
  define q where "q = fold (queue_profile (in_flight_count m) pj) (profile_recipients m) (outbox m)"
  have eq: "broadcast_profile X ts m = m\<lparr>outbox := q\<rparr>"
    by (simp add: broadcast_profile_def Let_def q_def pj_def)
  have live: "in_flight_count m \<le> length (outbox m)"
    using assms by (auto simp: queue_ok_def flight_ok_def in_flight_count_def split: option.splits)
  have q: "take (in_flight_count m) q = take (in_flight_count m) (outbox m)" "in_flight_count m \<le> length q"
    "set (map o_recipient q) \<subseteq> set (profile_recipients m) \<union> set (map o_recipient (outbox m))"
    using broadcast_spec [OF live, of pj "profile_recipients m"] unfolding q_def by blast+
  have "clear_queue (m\<lparr>outbox := q\<rparr>)"
    using q(3) assms profile_recipients_open [of m]
    by (fastforce simp: queue_ok_def clear_recipients blocked_def)
  moreover have "flight_ok (m\<lparr>outbox := q\<rparr>)" "wire_stable m (m\<lparr>outbox := q\<rparr>)"
    using assms q(1,2) by (auto simp: queue_ok_def flight_ok_def wire_stable_def in_flight_count_def split: option.splits)
  ultimately show ?thesis
    using assms unfolding eq by (simp add: queue_step_def queue_ok_def contacts_ok_def)
qed

lemma queue_save_profile:
  assumes "queue_ok m"
  shows "queue_step m (fst (on_save_profile X E d b ph m))"
proof -
  let ?m1 = "m\<lparr>error := None, profile := \<lparr>op_display_name = d, op_bio = b, op_photo = ph\<rparr>, page := Conversations\<rparr>"
  have "queue_ok ?m1" using queue_frame [OF assms, of ?m1] by (simp add: queue_step_def)
  from queue_broadcast [OF this, of X "now_ms E 0"]
  have "queue_step m (broadcast_profile X (now_ms E 0) ?m1)" by (simp add: queue_step_def wire_stable_def)
  from queue_step_cong [OF this] queue_frame [OF assms] show ?thesis
    by (simp add: on_save_profile_def err_def case_prod_unfold Let_def)
qed

lemma queue_send_text:
  assumes "queue_ok m"
  shows "queue_step m (fst (send_text X E m))"
proof (cases "active_peer m")
  case None
  then show ?thesis using queue_frame [OF assms] by (simp add: send_text_def)
next
  case (Some peer)
  have "queue_step m (compose_text X E peer body (m\<lparr>error := None\<rparr>))" if "\<not> blocked m peer" for body
  proof (rule queue_append [OF assms])
    let ?m' = "compose_text X E peer body (m\<lparr>error := None\<rparr>)"
    show "contacts_ok ?m'"
      using assms by (auto simp: compose_text_def Let_def queue_ok_def contacts_ok_def bt.invar_insert bt_get_simps)
    show "\<forall>p. blocked ?m' p \<longrightarrow> blocked m p"
      by (auto simp: compose_text_def Let_def blocked_def is_some_and_def bt_get_simps blocked_new split: option.splits)
  qed (use that in \<open>auto simp: compose_text_def Let_def outbox_item_new_def outbox_item_profile_def\<close>)
  from queue_step_cong [OF this] queue_frame [OF assms] Some show ?thesis
    by (simp add: send_text_def err_def case_prod_unfold Let_def blocked_def)
qed

section \<open>Receiving\<close>

lemma contacts_page:
  assumes "contacts_ok m"
  shows "contacts_ok (i_model (ingest_page X E ident prev pg m))"
proof -
  let ?P = "\<lambda>s. contacts_ok (i_model s)"
  have cong: "contacts_ok m2" if "contacts_ok m1" "contacts m2 = contacts m1" for m1 m2
    using that by (simp add: contacts_ok_def)
  have store: "?P (store_text E sender ts i body s)" if "?P s" for sender ts i body s
    by (rule cong [OF that]) (simp add: store_text_def Let_def)
  have greet: "?P (greet_stranger X sender ts s)" if "?P s" for sender ts s
    by (rule cong [OF contacts_ok_insert [OF that contact_new_key]]) (simp add: greet_stranger_def Let_def)
  have prof: "?P (ingest_profile sender ts now n b ph s)" if "?P s" for sender ts now n b ph s
    using that by (auto simp: ingest_profile_def Let_def update_profile_def split: option.split intro!: contacts_ok_modify)
  have ack: "?P (ingest_ack sender ts ids s)" if "?P s" for sender ts ids s
    using that by (simp add: ingest_ack_def Let_def)
  have app: "?P (apply_ack now sender p s)" if "?P s" for now sender p s
  proof -
    let ?f = "\<lambda>c. c\<lparr>c_last_ack_ts := min (pa_ts p) now\<rparr>"
    have "contacts_ok ((i_model s)\<lparr>contacts := bt_modify sender ?f (contacts (i_model s))\<rparr>)"
      by (rule contacts_ok_modify [OF that]) simp
    then show ?thesis using that by (simp add: apply_ack_def Let_def contacts_ok_def)
  qed
  have pay: "?P (ingest_payload X E now sender parsed s)" if "?P s" for now sender parsed s
  proof (rule ingest_payload_invariant [where P = ?P, OF that], goal_cases)
    case (1 ts i body)
    show ?case by (rule ingest_text_invariant [where P = ?P, OF that]) (simp_all add: store greet)
  qed (simp_all add: that prof ack)
  have "?P (ingest_events X E ident prev (now_ms E 1) (pr_events pg) (ingest_start m))"
  proof (rule ingest_events_invariant [where P = ?P])
    show "?P (stop_page prev err s)" if "?P s" for err s
      by (rule cong [OF that]) (simp add: stop_page_def Let_def)
  qed (simp_all add: pay assms ingest_start_def)
  then have "?P (apply_acks E (now_ms E 1) (ingest_events X E ident prev (now_ms E 1) (pr_events pg) (ingest_start m)))"
    by (rule apply_acks_invariant [where P = ?P]) (rule app)
  then show ?thesis
    by (simp add: ingest_page_def Let_def queue_acks_def contacts_ok_def)
qed

lemma queue_ingest:
  assumes "queue_ok m"
  shows "queue_step m (fst (ingest_poll X E pg m))"
proof -
  let ?m' = "fst (ingest_poll X E pg m)"
  have "contacts_ok m" using assms by (simp add: queue_ok_def)
  then have "contacts_ok ?m'"
  proof (cases X E pg m rule: ingest_poll_cases)
    case (page ident s)
    have "contacts_ok (adopt_cursor E pg m)" using \<open>contacts_ok m\<close> by (simp add: contacts_ok_def)
    then show ?thesis unfolding page(5) page(3) by (rule contacts_page)
  qed (simp_all add: contacts_ok_def)
  moreover obtain new where "outbox ?m' = outbox m @ new" "\<forall>i\<in>set new. \<not> shut_out m (o_recipient i)"
    "\<forall>p. blocked ?m' p = blocked m p"
    using ingest_gated [OF refl, of X E pg m] by blast
  ultimately show ?thesis
    by (intro queue_append [OF assms, where new = new]) (simp_all add: ingest_poll_fields shut_out_def)
qed

section \<open>Every event\<close>

definition replaces_tables :: "event \<Rightarrow> bool" where
  "replaces_tables ev = (case ev of LoadedContacts r \<Rightarrow> True | LoadedOutbox r \<Rightarrow> True | _ \<Rightarrow> False)"

lemma queue_update:
  assumes "queue_ok m" "\<not> replaces_tables ev"
  shows "queue_step m (fst (update X E ev m))"
proof (cases ev)
  case (SendResult g r)
  then show ?thesis using queue_send [OF assms(1)] by (cases r) simp_all
next
  case (PollResult g r)
  have "queue_step m (fst (ingest_poll X E pg (m\<lparr>polling := False, poll_retries := 0\<rparr>)))" for pg
    using queue_ingest [of "m\<lparr>polling := False, poll_retries := 0\<rparr>" X E pg] queue_frame [OF assms(1), of "m\<lparr>polling := False, poll_retries := 0\<rparr>"]
    by (simp add: queue_step_def wire_stable_def)
  then show ?thesis
    using PollResult queue_frame [OF assms(1)]
    by (auto simp: on_poll_result_def on_poll_page_def backoff_poll_def err_def Let_def case_prod_unfold
        split: sum.split option.split)
next
  case (SetServerUrl u)
  show ?thesis
  proof (cases "normalize_server_url X u")
    case None
    then show ?thesis using SetServerUrl queue_frame [OF assms(1)] by (simp add: on_set_server_url_def err_def)
  next
    case (Some u')
    have "queue_step m (abandon_flush m)"
      by (rule released_step [OF queue_released [OF assms(1)]]) (simp_all add: abandon_flush_def)
    then show ?thesis
      by (rule queue_step_cong)
        (use SetServerUrl Some in \<open>simp_all add: on_set_server_url_def abandon_flush_def abandon_poll_def refuse_write_def Let_def\<close>)
  qed
qed (use assms in \<open>simp_all add: queue_send queue_flush [OF _ queue_ok_flight] queue_add_contact queue_set_blocked queue_delete
      queue_save_profile queue_send_text replaces_tables_def\<close>,
    use queue_frame [OF assms(1)] in \<open>simp_all add: handler_unfold next_gen_defs Let_def case_prod_unfold
      split: option.split outcome.split sum.split\<close>)

section \<open>What is posted\<close>

text \<open>Every batch a step posts answers for the new current generation and seals exactly the items the
  in-flight bookkeeping counts at the head of the queue.\<close>

definition carries :: "'z app_ext_scheme \<Rightarrow> model \<Rightarrow> envelope list \<Rightarrow> bool" where
  "carries X m es \<longleftrightarrow>
     (\<exists>sender. list_all2 (sealed X sender) (take (length es) (outbox m)) es) \<and>
     (\<exists>f. in_flight m = Some f \<and> f_count f = length es)"

definition posts_fit :: "'z app_ext_scheme \<Rightarrow> model \<times> cmd list \<Rightarrow> bool" where
  "posts_fit X r \<longleftrightarrow>
     (\<forall>u a es t. HttpPost u a (SendBatch es) t \<in> set (snd r) \<longrightarrow>
        t = ThenSendResult (flush_gen (fst r)) \<and> carries X (fst r) es)"

lemma posts_fit_none: "\<forall>c\<in>set (snd r). \<not> is_send c \<Longrightarrow> posts_fit X r"
  unfolding posts_fit_def using is_send_simps(1) by blast

lemma posts_fit_flush: "posts_fit X (flush_next X E m)"
proof (cases X E m rule: flush_next_cases)
  case (posted sender tok b recipient q w)
  have "batch_ok X sender (budget_of m) b" using batch_ok_collect posted(6) by simp
  then have "list_all2 (sealed X sender) (take (length (b_messages b)) q) (b_messages b)"
    unfolding posted(8) by (intro sealed_stamped) (simp add: batch_ok_def)
  then show ?thesis unfolding posts_fit_def posted(10) posted(9) carries_def by auto
next
  case (drained sender tok b)
  then show ?thesis by (intro posts_fit_none) auto
next
  case (unbuilt sender tok b recipient q w)
  then show ?thesis by (intro posts_fit_none) auto
next
  case idle
  then show ?thesis by (intro posts_fit_none) auto
qed

lemma posts_fit_after:
  assumes "posts_fit X (m2, c2)" "\<forall>c\<in>set c1 \<union> set c3. \<not> is_send c"
  shows "posts_fit X (m2, c1 @ c2 @ c3)"
proof -
  have "HttpPost u a (SendBatch es) t \<in> set c2" if "HttpPost u a (SendBatch es) t \<in> set (c1 @ c2 @ c3)" for u a es t
    using assms(2) that by (metis Un_iff set_append is_send_simps(1))
  with assms(1) show ?thesis unfolding posts_fit_def fst_conv snd_conv by blast
qed

lemma posts_fit_flush_after:
  "\<forall>c\<in>set c1 \<union> set c3. \<not> is_send c \<Longrightarrow> posts_fit X (fst (flush_next X E m), c1 @ snd (flush_next X E m) @ c3)"
  using posts_fit_after [of X _ "snd (flush_next X E m)"] posts_fit_flush [of X E m] by (metis prod.collapse)

lemma posts_fit_send:
  "posts_fit X (on_send_response X E g resp m)" "posts_fit X (on_send_error X E g m)" "posts_fit X (on_flush_watchdog X E g m)"
proof -
  have saved: "\<forall>c\<in>set (snd (persist_outbox X m2)). \<not> is_send c" for m2 by simp
  have after: "posts_fit X (fst (flush_next X E1 m3), snd (persist_outbox X m2) @ snd (flush_next X E1 m3) @ c3)"
    if "\<forall>c\<in>set c3. \<not> is_send c" for E1 m2 m3 c3
    using that saved by (intro posts_fit_flush_after) blast
  have retry: "posts_fit X (retry_batch X E bt m1)" for bt m1
    using saved after [where ?c3.0 = "[Render]"]
    by (auto simp: retry_batch_def case_prod_unfold Let_def split: option.split intro!: posts_fit_none
        simp del: persist_model persist_cmds flush_latched)
  have finished: "posts_fit X (on_send_finished X E bt m1)" for bt m1
    using after [where ?c3.0 = "[]"]
    by (simp add: on_send_finished_def case_prod_unfold Let_def del: persist_model persist_cmds flush_latched)
  have none: "posts_fit X (on_rate_limited E resp m1)" "posts_fit X (m1, [])" "posts_fit X (m1, [Emit Authenticate])" for m1
    by (auto simp: on_rate_limited_def split: option.split intro!: posts_fit_none)
  show "posts_fit X (on_send_response X E g resp m)" "posts_fit X (on_send_error X E g m)" "posts_fit X (on_flush_watchdog X E g m)"
    by (auto simp: on_send_response_def on_send_error_def on_flush_watchdog_def Let_def
        intro!: retry finished none posts_fit_flush)
qed

lemma ingest_no_send: "\<forall>c\<in>set (snd (ingest_poll X E pg m)). \<not> is_send c"
proof (cases X E pg m rule: ingest_poll_cases)
  case (page ident s)
  show ?thesis unfolding page(4) persist_page_eq [OF page(6)] by auto
qed simp_all

lemma no_send_elsewhere:
  assumes "ev \<noteq> StartFlush" "\<And>g r. ev \<noteq> SendResult g r" "\<And>g. ev \<noteq> FlushWatchdog g"
  shows "\<forall>c\<in>set (snd (update X E ev m)). \<not> is_send c"
proof (cases ev)
  case StartFlush
  with assms(1) show ?thesis by blast
next
  case (SendResult g r)
  with assms(2) show ?thesis by blast
next
  case (FlushWatchdog g)
  with assms(3) show ?thesis by blast
qed (simp_all add: handler_unfold next_gen_defs Let_def case_prod_unfold ingest_no_send
    split: option.split outcome.split sum.split)

lemma posts_fit_update: "posts_fit X (update X E ev m)"
proof -
  consider "ev = StartFlush" | g r where "ev = SendResult g r" | g where "ev = FlushWatchdog g"
    | "ev \<noteq> StartFlush" "\<And>g r. ev \<noteq> SendResult g r" "\<And>g. ev \<noteq> FlushWatchdog g"
    by blast
  then show ?thesis
  proof cases
    case (2 g r)
    then show ?thesis using posts_fit_send [of X] by (cases r) simp_all
  next
    case 4
    then show ?thesis by (intro posts_fit_none no_send_elsewhere)
  qed (simp_all add: posts_fit_send posts_fit_flush)
qed

section \<open>Orderly sessions\<close>

text \<open>A run in which the stored contacts and outbox are read while nothing is in flight, and what is
  read queues nothing for a blocked contact. A session that connects after its reads, as the startup
  does, and reads what this client wrote is one.\<close>

inductive orderly :: "'z app_ext_scheme \<Rightarrow> nat \<Rightarrow> model \<Rightarrow> cmd multiset \<Rightarrow> bool" for X where
  start: "orderly X 0 model_default {#}"
| user: "orderly X n m P \<Longrightarrow> from_shell ev \<Longrightarrow>
    orderly X (Suc n) (fst (update X E ev m)) (P + mset (snd (update X E ev m)))"
| answer: "orderly X n m (add_mset c P) \<Longrightarrow> responds c ev \<Longrightarrow>
    (replaces_tables ev \<Longrightarrow> in_flight m = None \<and> clear_queue (fst (update X E ev m))) \<Longrightarrow>
    orderly X (Suc n) (fst (update X E ev m)) (P + mset (snd (update X E ev m)))"
| lost: "orderly X n m (add_mset c P) \<Longrightarrow> orderly X n m P"

lemma orderly_reach: "orderly X n m P \<Longrightarrow> reach X n m P"
  by (induction rule: orderly.induct) (auto intro: reach.intros)

lemma from_shell_keeps_tables: "from_shell ev \<Longrightarrow> \<not> replaces_tables ev"
  by (cases ev) (simp_all add: replaces_tables_def)

lemma replaces_keeps_flight: "replaces_tables ev \<Longrightarrow> in_flight (fst (update X E ev m)) = in_flight m"
  by (cases ev) (auto simp: replaces_tables_def handler_unfold Let_def case_prod_unfold split: sum.split option.split)

lemma replaces_keeps_keys:
  assumes "replaces_tables ev" "contacts_ok m"
  shows "contacts_ok (fst (update X E ev m))"
proof -
  have "contacts_ok (m1\<lparr>contacts := bt_collect (map (\<lambda>c. (c_pubkey c, c)) l)\<rparr>)" for m1 l
    using bt_collect_key [of "map (\<lambda>c. (c_pubkey c, c)) l"] by (fastforce simp: contacts_ok_def bt_wf_collect)
  moreover have "contacts_ok m1" if "contacts m1 = contacts m" for m1
    using assms(2) that by (simp add: contacts_ok_def)
  ultimately show ?thesis
    using assms(1)
    by (cases ev) (simp_all add: replaces_tables_def handler_unfold Let_def case_prod_unfold split: sum.split option.split)
qed

lemma orderly_queue: "orderly X n m P \<Longrightarrow> queue_ok m"
proof (induction rule: orderly.induct)
  case start
  show ?case by (simp add: queue_ok_def contacts_ok_def clear_queue_def model_default_def bt_wf_def bt_keys_def bt_get_def)
next
  case (user n m P ev E)
  then show ?case using queue_update [OF user.IH from_shell_keeps_tables, of ev X E] by (simp add: queue_step_def)
next
  case (answer n m c P ev E)
  then show ?case
    using queue_update [of m ev X E] replaces_keeps_keys [of ev m X E] replaces_keeps_flight [of ev X E m]
    by (cases "replaces_tables ev") (simp_all add: queue_step_def queue_ok_def)
qed

text \<open>C18. The outgoing queue stays sound for a whole session, whatever events arrive in whatever
  order: nothing is queued for a blocked contact, the contact table is ordered and keyed by public
  key, and the send in flight always describes one to a hundred items at the head of the queue, all
  for its recipient.\<close>

theorem session_queue_sound:
  assumes "orderly X n m P"
  shows "(\<forall>i\<in>set (outbox m). \<not> blocked m (o_recipient i)) \<and> contacts_ok m \<and> flight_ok m"
  using orderly_queue [OF assms] by (simp add: queue_ok_def clear_queue_def)

text \<open>Whatever is posted from a sound queue is for contacts that are not blocked.\<close>

lemma posts_unblocked:
  assumes "queue_ok m" "\<not> replaces_tables ev"
    and "HttpPost u a (SendBatch es) t \<in> set (snd (update X E ev m))" "e \<in> set es"
  shows "\<not> blocked (fst (update X E ev m)) (to e)"
proof -
  let ?m' = "fst (update X E ev m)"
  have ok: "queue_ok ?m'"
    using queue_update [OF assms(1,2), of X E] by (simp add: queue_step_def)
  obtain sender where "list_all2 (sealed X sender) (take (length es) (outbox ?m')) es"
    using posts_fit_update [of X E ev m] assms(3) unfolding posts_fit_def carries_def by blast
  then obtain i where "i \<in> set (take (length es) (outbox ?m'))" "sealed X sender i e"
    using assms(4) by (metis in_set_conv_nth list_all2_conv_all_nth)
  then have "i \<in> set (outbox ?m')" "to e = o_recipient i"
    by (auto simp: sealed_def dest: in_set_takeD)
  with ok show ?thesis by (simp add: queue_ok_def clear_queue_def)
qed

section \<open>What an accepted send removes\<close>

lemma slot_run_gen: "slot_run r s n gs s' \<Longrightarrow> slot_gen s' = slot_gen s + of_nat n"
  by (induction rule: slot_run.induct) simp_all

lemma unat_gen_plus: "unat (g :: gen) + n < 2 ^ 64 \<Longrightarrow> unat (g + of_nat n) = unat g + n"
proof (induction n)
  case (Suc n)
  then show ?case using unat_next_gen [of "g + of_nat n"] by (simp add: ac_simps)
qed simp

text \<open>The only way a pending answer is of the current generation is that the generation did not change.\<close>

lemma old_answer_gen:
  assumes "slot_ok (slot_of flushing flush_gen m) (pending send_result P)" "unat (flush_gen m) + 2 < 2 ^ 64"
    and "flush_gen (fst (update X E ev m)) \<in># pending send_result P"
  shows "flush_gen (fst (update X E ev m)) = flush_gen m"
proof -
  obtain n where n: "n \<le> 2" "flush_gen (fst (update X E ev m)) = flush_gen m + of_nat n"
    using flush_refines [of ev m X E] slot_run_gen unfolding refines_def by (metis slot_gen_of)
  have "unat (flush_gen m) + n \<le> unat (flush_gen m)"
    using assms unat_gen_plus [of "flush_gen m" n] n by (auto simp: slot_ok_def)
  with n show ?thesis by simp
qed

definition posted_ok :: "'z app_ext_scheme \<Rightarrow> model \<Rightarrow> cmd multiset \<Rightarrow> bool" where
  "posted_ok X m P \<longleftrightarrow>
     (\<forall>u a es. HttpPost u a (SendBatch es) (ThenSendResult (flush_gen m)) \<in># P \<longrightarrow> in_flight m \<noteq> None \<longrightarrow> carries X m es)"

lemma posted_step:
  assumes "posted_ok X m P" "slot_ok (slot_of flushing flush_gen m) (pending send_result P)" "unat (flush_gen m) + 2 < 2 ^ 64"
    and "wire_stable m (fst (update X E ev m))"
  shows "posted_ok X (fst (update X E ev m)) (P + mset (snd (update X E ev m)))"
  unfolding posted_ok_def
proof (intro allI impI)
  let ?m' = "fst (update X E ev m)"
  fix u a es
  assume post: "HttpPost u a (SendBatch es) (ThenSendResult (flush_gen ?m')) \<in># P + mset (snd (update X E ev m))"
    and fl: "in_flight ?m' \<noteq> None"
  show "carries X ?m' es"
  proof (cases "HttpPost u a (SendBatch es) (ThenSendResult (flush_gen ?m')) \<in># P")
    case True
    then have "flush_gen ?m' \<in># pending send_result P"
      by (auto simp: pending_def intro!: image_eqI [of _ _ "HttpPost u a (SendBatch es) (ThenSendResult (flush_gen ?m'))"])
    then have gen: "flush_gen ?m' = flush_gen m" by (rule old_answer_gen [OF assms(2,3)])
    from fl obtain f where f: "in_flight ?m' = Some f" by blast
    with assms(4) gen have st: "in_flight m = Some f" "take (f_count f) (outbox ?m') = take (f_count f) (outbox m)"
      by (simp_all add: wire_stable_def)
    from assms(1) True gen st(1) have "carries X m es" by (fastforce simp: posted_ok_def)
    with st f show ?thesis by (auto simp: carries_def)
  next
    case False
    with post have "HttpPost u a (SendBatch es) (ThenSendResult (flush_gen ?m')) \<in> set (snd (update X E ev m))"
      by (metis set_mset_mset union_iff)
    with posts_fit_update [of X E ev m] show ?thesis unfolding posts_fit_def by blast
  qed
qed

lemma posted_subset: "posted_ok X m (add_mset c P) \<Longrightarrow> posted_ok X m P"
  by (auto simp: posted_ok_def)

lemma orderly_posted:
  assumes "orderly X n m P" "2 * n < 2 ^ 64"
  shows "posted_ok X m P"
  using assms
proof (induction rule: orderly.induct)
  case (user n m P ev E)
  have n: "2 * n < 2 ^ 64" using user.prems by simp
  note slot = send_slot.reachable [OF orderly_reach [OF user.hyps(1)] n]
  have "wire_stable m (fst (update X E ev m))"
    using queue_update [OF orderly_queue [OF user.hyps(1)] from_shell_keeps_tables [OF user.hyps(2)], of X E]
    by (simp add: queue_step_def)
  moreover have "unat (flush_gen m) + 2 < 2 ^ 64" using slot user.prems by simp
  ultimately show ?case using user.IH [OF n] slot by (blast intro: posted_step)
next
  case (answer n m c P ev E)
  have n: "2 * n < 2 ^ 64" using answer.prems by simp
  note slot = send_slot.reachable [OF orderly_reach [OF answer.hyps(1)] n]
  have "wire_stable m (fst (update X E ev m))"
    using answer.hyps(3) replaces_keeps_flight [of ev X E m] queue_update [OF orderly_queue [OF answer.hyps(1)], of ev X E]
    by (cases "replaces_tables ev") (simp_all add: queue_step_def wire_stable_def)
  moreover have "slot_ok (slot_of flushing flush_gen m) (pending send_result P)"
    by (rule slot_ok_subset [OF conjunct1 [OF slot]]) (simp split: option.split)
  moreover have "unat (flush_gen m) + 2 < 2 ^ 64" using slot answer.prems by simp
  ultimately show ?case
    using posted_subset [OF answer.IH [OF n]] by (blast intro: posted_step)
next
  case (lost n m c P)
  then show ?case by (blast intro: posted_subset)
qed (simp add: posted_ok_def)

text \<open>C7. An accepted send removes exactly what it delivered: when the answer to a posted batch is of
  the current generation and the relay accepted it, the items dropped from the queue are, one by one,
  the items whose encryptions the answered request carried, whatever the user did in between; if the
  bookkeeping was detached because their recipient was blocked or deleted, nothing is dropped.\<close>

theorem accepted_send_was_posted:
  assumes "orderly X n m P" "2 * n < 2 ^ 64" "\<not> kv_load_failed m"
    and "HttpPost u a (SendBatch es) (ThenSendResult (flush_gen m)) \<in># P" "200 \<le> r_status resp" "r_status resp < 300"
  shows "\<exists>k q. (\<exists>m1. q = outbox m1 \<and> flushing m1 = False \<and>
      fst (update X E (SendResult (flush_gen m) (Inr resp)) m) = fst (flush_next X E m1)) \<and>
    q = drop k (outbox m) \<and>
    (k = 0 \<and> in_flight m = None \<or>
     k = length es \<and> (\<exists>sender. list_all2 (sealed X sender) (take k (outbox m)) es))"
proof -
  define k where "k = (case in_flight m of None \<Rightarrow> 0 | Some f \<Rightarrow> f_count f)"
  let ?m1 = "m\<lparr>flushing := False, in_flight := None, send_retries := 0, outbox := drop k (outbox m)\<rparr>"
  have "fst (update X E (SendResult (flush_gen m) (Inr resp)) m) = fst (flush_next X E ?m1)"
    using assms(3,5,6) by (simp add: on_send_response_def on_send_finished_def Let_def case_prod_unfold k_def)
  moreover have "k = 0 \<and> in_flight m = None \<or> k = length es \<and> (\<exists>sender. list_all2 (sealed X sender) (take k (outbox m)) es)"
  proof (cases "in_flight m")
    case (Some f)
    then have "carries X m es" using orderly_posted [OF assms(1,2)] assms(4) by (auto simp: posted_ok_def)
    with Some show ?thesis by (auto simp: carries_def k_def)
  qed (simp add: k_def)
  ultimately show ?thesis by (intro exI [of _ k] exI [of _ "drop k (outbox m)"]) (auto intro!: exI [of _ ?m1])
qed

section \<open>A queue that drains\<close>

definition accepted :: response where
  "accepted = \<lparr>r_status = 200, r_retry_after = None, r_body = None\<rparr>"

text \<open>The relay accepts one send after the other, at most \<open>k\<close> of them.\<close>

fun drain :: "'z app_ext_scheme \<Rightarrow> env \<Rightarrow> nat \<Rightarrow> model \<Rightarrow> model" where
  "drain X E 0 m = m"
| "drain X E (Suc k) m =
     (if flushing m then drain X E k (fst (update X E (SendResult (flush_gen m) (Inr accepted)) m)) else m)"

definition free_to_send :: "'z app_ext_scheme \<Rightarrow> env \<Rightarrow> model \<Rightarrow> bool" where
  "free_to_send X E m \<longleftrightarrow>
     \<not> kv_load_failed m \<and> flush_paused_until m \<le> now_ms E 0 \<and> identity_of X m \<noteq> None \<and> token m \<noteq> None"

lemma free_flush: "free_to_send X E (fst (flush_next X E m)) = free_to_send X E m"
  by (simp add: free_to_send_def identity_of_def)

lemma flush_settles:
  assumes "free_to_send X E m" "\<not> flushing m" "in_flight m = None" "\<forall>b. body_json_ok X b"
  shows "(flushing (fst (flush_next X E m)) \<longrightarrow> in_flight (fst (flush_next X E m)) \<noteq> None) \<and>
    (\<not> flushing (fst (flush_next X E m)) \<longrightarrow> outbox (fst (flush_next X E m)) = []) \<and>
    length (outbox (fst (flush_next X E m))) \<le> length (outbox m)"
proof -
  obtain sender tok where id: "identity_of X m = Some sender" "token m = Some tok"
    using assms(1) by (auto simp: free_to_send_def)
  define b where "b = collect_batch X (rngs E) sender (budget_of m) (batch_start m)"
  have len: "length (outbox (fst (flush_next X E m))) \<le> length (outbox m)"
  proof -
    obtain q where "subseq q (outbox m)" "map unstamped (outbox (fst (flush_next X E m))) = map unstamped q"
      using flush_queue by blast
    then show ?thesis by (metis length_map list_emb_length)
  qed
  show ?thesis
  proof (cases "b_recipient b")
    case None
    have "batch_stops X (rngs E) sender (budget_of m) b" "batch_ok X sender (budget_of m) b"
      unfolding b_def by (rule collect_batch_stops, rule batch_ok_collect)
    with None have "b_outbox b = []" by (auto simp: batch_stops_def batch_ok_def size_caps)
    moreover have "outbox (fst (flush_next X E m)) = b_outbox b \<and> \<not> flushing (fst (flush_next X E m))"
      using assms(1,2) id None by (simp add: flush_next_def free_to_send_def case_prod_unfold Let_def flip: b_def)
    ultimately show ?thesis using len by simp
  next
    case (Some recipient)
    have "flushing (fst (flush_next X E m)) \<and> in_flight (fst (flush_next X E m)) \<noteq> None"
      using assms id Some
      by (simp add: flush_next_def free_to_send_def case_prod_unfold Let_def next_flush_gen_def flip: b_def)
    with len show ?thesis by simp
  qed
qed

text \<open>Each acceptance takes at least one item off the queue.\<close>

lemma drain_step:
  assumes "free_to_send X E m" "queue_ok m" "flushing m" "in_flight m \<noteq> None" "\<forall>b. body_json_ok X b"
    and "m' = fst (update X E (SendResult (flush_gen m) (Inr accepted)) m)"
  shows "free_to_send X E m' \<and> queue_ok m' \<and> (flushing m' \<longrightarrow> in_flight m' \<noteq> None) \<and>
    (\<not> flushing m' \<longrightarrow> outbox m' = []) \<and> length (outbox m') < length (outbox m)"
proof -
  obtain f where f: "in_flight m = Some f" using assms(4) by blast
  let ?m1 = "m\<lparr>flushing := False, in_flight := None, send_retries := 0, outbox := drop (f_count f) (outbox m)\<rparr>"
  have m': "m' = fst (flush_next X E ?m1)"
    using assms(1,6) f
    by (simp add: on_send_response_def on_send_finished_def accepted_def free_to_send_def Let_def case_prod_unfold)
  have count: "1 \<le> f_count f" "f_count f \<le> length (outbox m)"
    using assms(2) f by (simp_all add: queue_ok_def flight_ok_def)
  have "free_to_send X E ?m1" using assms(1) by (simp add: free_to_send_def identity_of_def)
  then have "free_to_send X E m'" "(flushing m' \<longrightarrow> in_flight m' \<noteq> None) \<and> (\<not> flushing m' \<longrightarrow> outbox m' = []) \<and>
      length (outbox m') \<le> length (outbox m) - f_count f"
    unfolding m' free_flush using flush_settles [of X E ?m1] assms(5) by simp_all
  moreover have "queue_ok m'"
    using queue_update [OF assms(2), of "SendResult (flush_gen m) (Inr accepted)" X E] assms(6)
    by (simp add: queue_step_def replaces_tables_def)
  moreover have "length (outbox m) - f_count f < length (outbox m)" using count by linarith
  ultimately show ?thesis by (meson le_less_trans)
qed

lemma drain_empties:
  assumes "free_to_send X E m" "queue_ok m" "flushing m \<longrightarrow> in_flight m \<noteq> None" "\<not> flushing m \<longrightarrow> outbox m = []"
    "\<forall>b. body_json_ok X b" "length (outbox m) \<le> k"
  shows "outbox (drain X E k m) = [] \<and> \<not> flushing (drain X E k m)"
  using assms
proof (induction k arbitrary: m)
  case 0
  then show ?case by (auto simp: queue_ok_def flight_ok_def split: option.splits)
next
  case (Suc k)
  show ?case
  proof (cases "flushing m")
    case True
    note st = drain_step [OF Suc.prems(1,2) True _ Suc.prems(5) refl]
    show ?thesis using Suc.IH [of "fst (update X E (SendResult (flush_gen m) (Inr accepted)) m)"] st Suc.prems(3,5,6) True by auto
  qed (use Suc.prems in simp)
qed

text \<open>C19. Sending terminates: against a relay that accepts what it is sent, a free client that starts
  flushing empties its whole queue, in at most as many requests as there were items, and is then idle;
  no item, however malformed, stops it.\<close>

theorem accepted_sends_drain_queue:
  assumes "queue_ok m" "\<not> flushing m" "free_to_send X E m" "\<forall>b. body_json_ok X b"
    and "m1 = fst (update X E StartFlush m)"
  shows "outbox (drain X E (length (outbox m)) m1) = [] \<and> \<not> flushing (drain X E (length (outbox m)) m1)"
proof -
  have fl: "in_flight m = None" using assms(1,2) queue_ok_flight by blast
  have m1: "m1 = fst (flush_next X E m)" using assms(5) by simp
  have "queue_ok m1" using queue_flush [OF assms(1) disjI1 [OF fl], of X E] by (simp add: m1 queue_step_def)
  then show ?thesis
    using flush_settles [OF assms(3,2) fl assms(4)] assms(3,4)
    by (intro drain_empties) (simp_all add: m1 free_flush)
qed

end
