(* ===== verification/Delivery.thy ===== *)
theory Delivery
  imports Queue
begin

text \<open>
  Two clients: what one composes, the other stores. The pieces are \<open>send_text\<close> and \<open>flush_next\<close> at
  the sender, the cryptography and the payload codec between them, and \<open>ingest_poll\<close> at the recipient;
  the relay only hands the posted blob on.
\<close>

section \<open>The head of the queue is on the wire\<close>

lemma subseq_keeps_head:
  assumes "subseq q (i # rest)" "i \<in> set q" "i \<notin> set rest"
  shows "\<exists>q'. q = i # q'"
proof (cases q)
  case (Cons x q')
  show ?thesis
  proof (cases "x = i")
    case False
    then have "subseq q rest" using assms(1) Cons by (simp add: subseq_Cons2_neq)
    then have "i \<in> set rest" using assms(2) by (auto elim: list_emb_set)
    with assms(3) show ?thesis by blast
  qed (use Cons in simp)
qed (use assms(2) in simp)

lemma flush_sends_head:
  assumes ready: "\<not> flushing m" "\<not> kv_load_failed m" "flush_paused_until m \<le> now_ms E 0"
      "identity_of X m = Some sender" "token m = Some tok" "\<And>b. body_json_ok X b"
    and head: "outbox m = i # rest" "i \<notin> set rest" "\<And>r. encrypt_for X r sender i \<noteq> None"
  shows "\<exists>u a e es t. HttpPost u a (SendBatch (e # es)) t \<in> set (snd (flush_next X E m)) \<and> sealed X sender i e"
proof -
  obtain u a es t where post: "HttpPost u a (SendBatch es) t \<in> set (snd (flush_next X E m))"
    using flush_next_progress [OF ready(1-5), of i] head ready(6) by auto
  then show ?thesis
  proof (cases X E m rule: flush_next_cases)
    case (posted sender' tok' b recipient q w)
    have s: "sender' = sender" using posted(4) ready(4) by simp
    have es: "es = b_messages b" using post posted(9,10) by (auto split: if_splits)
    have bok: "batch_ok X sender (budget_of m) b" "batch_queue_ok X sender (outbox m) b"
      unfolding posted(6) s by (rule batch_ok_collect, rule batch_queue_collect)
    then obtain q' where q': "b_outbox b = i # q'"
      using subseq_keeps_head [of "b_outbox b" i rest] head by (auto simp: batch_queue_ok_def)
    have "b_messages b \<noteq> []" using bok(1) posted(7) by (auto simp: batch_ok_def)
    then obtain e es' where e: "b_messages b = e # es'" by (cases "b_messages b") auto
    then have "sealed X sender i e" using bok(1) q' by (simp add: batch_ok_def)
    with post es e show ?thesis by metis
  qed (auto split: if_splits)
qed

section \<open>A sealed text is stored by its recipient\<close>

lemma sealed_opens:
  assumes ok: "protocol_ext_ok X" "identity_ok X alice" "identity_ok X bob"
    and e: "sealed X alice i e" "o_recipient i = public_key_hex X bob"
  shows "\<exists>blob. hex_decode X (encrypted_blob e) = Some blob \<and>
    decrypt X bob blob = Ok \<lparr>plaintext = utf8_encode (o_envelope_json i), sender_hex = public_key_hex X alice\<rparr> \<and>
    small_event \<lparr>pe_encrypted_blob = encrypted_blob e\<rparr>"
proof -
  have c: "crypto_ext_ok X" using ok(1) by (simp add: protocol_ext_ok_def)
  then have p: "phonemic_ext_ok X" by (rule ok_phonemic)
  from e(1) obtain r blob where b: "encrypt_for X r alice i = Some blob" "encrypted_blob e = hex_encode X blob"
    by (auto simp: sealed_def)
  have "hex_decode X (o_recipient i) = Some (public_key bob)"
    using p e(2) by (simp add: public_key_hex_def phonemic_ext_ok_def)
  with b(1) have enc: "encrypt X r alice (public_key bob) (utf8_encode (o_envelope_json i)) = Ok blob"
    by (auto simp: encrypt_for_def split: if_splits outcome.splits)
  have "length blob \<le> MAX_BLOB_LEN" using encrypt_blob_length [OF c ok(2) enc] by blast
  then have "small_event \<lparr>pe_encrypted_blob = encrypted_blob e\<rparr>"
    using ulen_hex [OF p, of blob] by (simp add: small_event_def b(2))
  moreover have "hex_decode X (encrypted_blob e) = Some blob" using p b(2) by (simp add: phonemic_ext_ok_def)
  ultimately show ?thesis using decrypt_sealed [OF c ok(2,3) enc] by blast
qed

text \<open>A client that can take a new text of a peer: its identity is loaded, its storage was read, the
  peer is neither blocked nor itself, there is room for a contact, and the id is new.\<close>

definition takes_text :: "'z app_ext_scheme \<Rightarrow> identity \<Rightarrow> ustr \<Rightarrow> ustr \<Rightarrow> model \<Rightarrow> bool" where
  "takes_text X bob peer i m \<longleftrightarrow>
     identity_of X m = Some bob \<and> \<not> kv_load_failed m \<and> \<not> shut_out m peer \<and>
     (bt_get (contacts m) peer \<noteq> None \<or> length (contacts m) < MAX_CONTACTS) \<and>
     i \<notin> or_default {} (bt_get (seen_ids m) peer) \<and> i \<notin> m_id ` set (or_default [] (bt_get (messages m) peer))"

text \<open>A client that can send the text it has composed: a conversation with the peer is open and not
  blocked, the text is not empty and within the limit, there is room for a contact, and nothing holds
  the send loop.\<close>

definition can_text :: "'z app_ext_scheme \<Rightarrow> env \<Rightarrow> identity \<Rightarrow> ustr \<Rightarrow> ustr \<Rightarrow> model \<Rightarrow> bool" where
  "can_text X E alice peer body m \<longleftrightarrow>
     active_peer m = Some peer \<and> body = trim (compose m) \<and> body \<noteq> [] \<and> ulen body \<le> MAX_BODY_LEN \<and>
     \<not> blocked m peer \<and> (bt_get (contacts m) peer \<noteq> None \<or> length (contacts m) < MAX_CONTACTS) \<and>
     identity_of X m = Some alice \<and> token m \<noteq> None \<and> \<not> kv_load_failed m \<and> outbox m = [] \<and> \<not> flushing m \<and>
     flush_paused_until m \<le> now_ms E 0"

lemma send_text_queues:
  assumes "can_text X E1 alice peer body m" "m1 = fst (update X E SendText m)"
    and "item = outbox_item_new peer (serialize_payload X (Text (uuid E) body) (now_ms E 0))"
  shows "\<exists>rest. outbox m1 = item # rest \<and> item \<notin> set rest" and "free_to_send X E1 m1" and "\<not> flushing m1"
    and "identity_of X m1 = Some alice" and "Emit StartFlush \<in> set (snd (update X E SendText m))"
proof -
  have g: "active_peer m = Some peer" "\<not> is_some_and (bt_get (contacts m) peer) c_blocked" "trim (compose m) \<noteq> []"
    "\<not> MAX_BODY_LEN < ulen (trim (compose m))" "\<not> (bt_get (contacts m) peer = None \<and> MAX_CONTACTS \<le> length (contacts m))"
    using assms(1) by (auto simp: can_text_def blocked_def)
  have m1: "outbox m1 = outbox (compose_text X E peer body m)" "kv_load_failed m1 = kv_load_failed m"
    "flush_paused_until m1 = flush_paused_until m" "secret_key m1 = secret_key m" "token m1 = token m" "flushing m1 = flushing m"
    using g assms(1,2)
    by (cases "bt_get (contacts m) peer";
        simp add: can_text_def send_text_def compose_text_def own_profile_payload_def Let_def case_prod_unfold)+
  show "\<exists>rest. outbox m1 = item # rest \<and> item \<notin> set rest"
    using assms(1,3) unfolding m1
    by (simp add: compose_text_def Let_def can_text_def) (simp add: outbox_item_new_def outbox_item_profile_def)
  show "free_to_send X E1 m1" "\<not> flushing m1" "identity_of X m1 = Some alice"
    using assms(1) by (simp_all add: free_to_send_def can_text_def m1 identity_of_def)
  show "Emit StartFlush \<in> set (snd (update X E SendText m))"
    using g by (cases "bt_get (contacts m) peer") (simp_all add: send_text_def Let_def case_prod_unfold)
qed

text \<open>C1. A text arrives: when a client composes a text to another client and flushes, the request it
  posts starts with an envelope that, handed unchanged by the relay in a poll page, makes the other
  client store exactly one new incoming message under the sender's key, with the id the sender chose,
  the text less invisible characters, and the sender's time, clamped to a minute past the
  recipient's clock.\<close>

theorem text_reaches_peer:
  assumes "protocol_ext_ok X" "identity_ok X alice" "identity_ok X bob" "\<forall>b. body_json_ok X b"
    and "can_text X E1 alice (public_key_hex X bob) body ma" "list_all is_scalar body"
    and "list_all is_scalar (uuid E)" "ulen (uuid E) \<le> MAX_ID_LEN"
    and "item = outbox_item_new (public_key_hex X bob) (serialize_payload X (Text (uuid E) body) (now_ms E 0))"
    and "\<forall>r. encrypt_for X r alice item \<noteq> None"
    and "m1 = fst (update X E SendText ma)"
    and "takes_text X bob (public_key_hex X alice) (uuid E) mb"
  shows "\<exists>u a e es t. HttpPost u a (SendBatch (e # es)) t \<in> set (snd (update X E1 StartFlush m1)) \<and>
    to e = public_key_hex X bob \<and>
    (\<forall>c. bt_get (messages (fst (ingest_poll X E2 \<lparr>pr_events = [\<lparr>pe_encrypted_blob = encrypted_blob e\<rparr>], pr_cursor = c\<rparr> mb)))
        (public_key_hex X alice) =
      Some (trim_history (insert_sorted (or_default [] (bt_get (messages mb) (public_key_hex X alice)))
        \<lparr>m_id = uuid E, m_body = sanitize_text body,
         m_ts = min (max (now_ms E 0) 0) (sat_add (now_ms E2 1) MAX_FUTURE_SKEW_MS),
         m_outgoing = False, m_delivered = False\<rparr>)))"
proof -
  note q = send_text_queues [OF assms(5,11,9)]
  obtain rest where rest: "outbox m1 = item # rest" "item \<notin> set rest" using q(1) by blast
  obtain tok where tok: "token m1 = Some tok" using q(2) by (auto simp: free_to_send_def)
  have rdy: "\<not> kv_load_failed m1" "flush_paused_until m1 \<le> now_ms E1 0" using q(2) by (simp_all add: free_to_send_def)
  obtain u a e es t where post: "HttpPost u a (SendBatch (e # es)) t \<in> set (snd (flush_next X E1 m1))"
    and sealed: "sealed X alice item e"
    using flush_sends_head [OF q(3) rdy q(4) tok _ rest] assms(4,10) by blast
  have to: "o_recipient item = public_key_hex X bob" "to e = public_key_hex X bob"
    using sealed assms(9) by (simp_all add: sealed_def outbox_item_new_def)
  have json: "o_envelope_json item = serialize_payload X (Text (uuid E) body) (now_ms E 0)"
    using assms(9) by (simp add: outbox_item_new_def)
  obtain blob where blob: "hex_decode X (encrypted_blob e) = Some blob"
    "decrypt X bob blob = Ok \<lparr>plaintext = utf8_encode (o_envelope_json item), sender_hex = public_key_hex X alice\<rparr>"
    "small_event \<lparr>pe_encrypted_blob = encrypted_blob e\<rparr>"
    using sealed_opens [OF assms(1-3) sealed to(1)] by blast
  have "ulen body \<le> MAX_BODY_LEN" using assms(5) unfolding can_text_def by blast
  then have "ulen (sanitize_text body) \<le> MAX_BODY_LEN" using sanitize_ulen le_trans by blast
  then have parse: "parse_payload X (utf8_encode (o_envelope_json item)) =
      Some \<lparr>pp_ts = now_ms E 0, pp_payload = Text (uuid E) (sanitize_text body)\<rparr>"
    unfolding json using parse_serialized [OF assms(1) _ in_i64_now, of "Text (uuid E) body" E 0] assms(6-8)
    by (simp add: payload_wf_def)
  have "bt_get (messages (fst (ingest_poll X E2 \<lparr>pr_events = [\<lparr>pe_encrypted_blob = encrypted_blob e\<rparr>], pr_cursor = c\<rparr> mb)))
        (sender_hex \<lparr>plaintext = utf8_encode (o_envelope_json item), sender_hex = public_key_hex X alice\<rparr>) =
      Some (trim_history (insert_sorted (or_default [] (bt_get (messages mb)
          (sender_hex \<lparr>plaintext = utf8_encode (o_envelope_json item), sender_hex = public_key_hex X alice\<rparr>)))
        \<lparr>m_id = uuid E, m_body = sanitize_text body,
         m_ts = min (max (now_ms E 0) 0) (sat_add (now_ms E2 1) MAX_FUTURE_SKEW_MS),
         m_outgoing = False, m_delivered = False\<rparr>))" for c
    by (rule ingest_one_text [OF _ _ blob(2)])
      (use assms(12) blob(1,3) parse in \<open>auto simp: takes_text_def\<close>)
  with post to(2) show ?thesis by fastforce
qed

section \<open>A concrete exchange\<close>

definition ref_text :: outbox_item where
  "ref_text = outbox_item_new ref_peer (serialize_payload ref_app_ext (Text (lit ''u'') (lit ''hi'')) 1000)"

lemma ref_peer_key: "public_key_hex ref_app_ext (ref_identity 2) = ref_peer"
  by (simp add: public_key_hex_def ref_peer_def ref_identity_key)

lemma ref_text_usable: "encrypt_for ref_app_ext r (ref_identity a) ref_text \<noteq> None"
proof -
  have "serialize_payload ref_app_ext (Text (lit ''u'') (lit ''hi'')) 1000 = [66]"
    by (simp add: serialize_payload_def ref_json_print_def ref_json_value_def del: payload_value.simps)
  then have "o_envelope_json ref_text = [66]" "o_recipient ref_text = ref_peer"
    by (simp_all add: ref_text_def outbox_item_new_def)
  then show ?thesis
    using ref_app_encrypt [of "[66]" r a 2] by (auto simp: encrypt_for_def ref_hex_decode_peer utf8_char_def size_caps)
qed

lemma ref_trim: "trim (lit ''hi'') = lit ''hi''"
  by (simp add: trim_def lit_def is_whitespace_def)

lemma ref_strings: "list_all is_scalar (lit ''hi'')" "list_all is_scalar (lit ''u'')" "ulen (lit ''u'') \<le> MAX_ID_LEN"
  "ulen (lit ''hi'') \<le> MAX_BODY_LEN" "sanitize_text (lit ''hi'') = lit ''hi''"
  by (simp_all add: lit_def is_scalar_def size_caps utf8_char_def sanitize_text_def keeps_char_def)

definition ref_alice :: model where
  "ref_alice = model_default\<lparr>secret_key := Some (replicate 64 1), token := Some (lit ''t''),
     active_peer := Some ref_peer, compose := lit ''hi''\<rparr>"

lemma ref_alice_texts: "can_text ref_app_ext ref_env (ref_identity 1) ref_peer (lit ''hi'') ref_alice"
  using ref_strings
  by (simp add: can_text_def ref_alice_def model_default_def ref_trim blocked_def bt_get_def is_some_and_def size_caps
      identity_of_def ref_app_from_secret del: ulen_def)

lemma ref_bob_takes: "takes_text ref_app_ext (ref_identity 2) ref_sender (lit ''u'') ref_inbox"
  using ref_sender_open by (simp add: takes_text_def or_default_def bt_get_def size_caps)

theorem text_reaches_peer_witness:
  "\<exists>u a e es t. HttpPost u a (SendBatch (e # es)) t \<in>
       set (snd (update ref_app_ext ref_env StartFlush (fst (update ref_app_ext ref_env SendText ref_alice)))) \<and>
     to e = ref_peer \<and>
     bt_get (messages (fst (ingest_poll ref_app_ext ref_env
         \<lparr>pr_events = [\<lparr>pe_encrypted_blob = encrypted_blob e\<rparr>], pr_cursor = 5\<rparr> ref_inbox))) ref_sender \<noteq> None"
proof -
  have u: "uuid ref_env = lit ''u''" and now: "now_ms ref_env 0 = 1000" by simp_all
  have "ref_text = outbox_item_new (public_key_hex ref_app_ext (ref_identity 2))
      (serialize_payload ref_app_ext (Text (uuid ref_env) (lit ''hi'')) (now_ms ref_env 0))"
    by (simp add: ref_text_def ref_peer_key)
  from text_reaches_peer [OF ref_app_ext_ok ref_app_identity_ok [of 1] ref_app_identity_ok _ _ _ _ _ this _ refl,
      where mb = ref_inbox and ?E2.0 = ref_env and ?E1.0 = ref_env and ma = ref_alice]
  show ?thesis
    unfolding ref_peer_key u
    using ref_alice_texts ref_bob_takes ref_strings ref_text_usable
    by (fastforce simp: ref_sender_def simp del: update.simps)
qed

section \<open>A concrete session\<close>

lemma orderly_answer:
  assumes "orderly X n m P" "c \<in># P" "responds c ev" "\<not> replaces_tables ev"
  shows "orderly X (Suc n) (fst (update X E ev m)) (P - {#c#} + mset (snd (update X E ev m)))"
  using assms orderly.answer [of X n m c "P - {#c#}" ev E] by simp

text \<open>A session that has logged in and is about to poll.\<close>

definition ref_online :: "byte \<Rightarrow> model \<Rightarrow> bool" where
  "ref_online b m \<longleftrightarrow> secret_key m = Some (replicate 64 b) \<and> my_pubkey m = public_key_hex ref_app_ext (ref_identity b) \<and>
     token m = Some (lit ''t'') \<and> \<not> kv_load_failed m \<and> outbox m = [] \<and> contacts m = [] \<and> messages m = [] \<and> seen_ids m = [] \<and>
     \<not> flushing m \<and> flush_paused_until m = 0 \<and> \<not> polling m \<and> compose m = [] \<and> profile m = own_profile_default"

text \<open>The steps of that session load no tables, and read and write no text of the user.\<close>

definition plain_step :: "event \<Rightarrow> model \<Rightarrow> bool" where
  "plain_step ev m \<longleftrightarrow> \<not> replaces_tables ev \<and> (\<forall>n b p. ev \<noteq> SaveProfile n b p) \<and> compose m = [] \<and> profile m = own_profile_default"

lemma ref_signs: "\<exists>s. sign_challenge ref_app_ext (ref_identity b) h [] = Ok s"
  by (simp add: sign_challenge_def size_caps)

lemma ref_decodes [simp]: "de_challenge ref_app_ext b = Some []" "de_verify ref_app_ext b = Some (lit ''t'')"
  "de_poll ref_app_ext b = Some \<lparr>pr_events = [\<lparr>pe_encrypted_blob = hex_encode ref_app_ext b\<rparr>], pr_cursor = 500\<rparr>"
  by (simp_all add: ref_app_ext_def ref_protocol_ext_def ref_crypto_ext_def crypto_ext.defs protocol_ext.defs app_ext.defs)

text \<open>The session, for every kind of run that is closed under these steps.\<close>

lemma ref_session_run:
  fixes R :: "nat \<Rightarrow> model \<Rightarrow> cmd multiset \<Rightarrow> bool"
  assumes start: "R 0 model_default {#}"
    and user: "\<And>n m P ev. R n m P \<Longrightarrow> from_shell ev \<Longrightarrow> plain_step ev m \<Longrightarrow>
      R (Suc n) (fst (update ref_app_ext ref_env ev m)) (P + mset (snd (update ref_app_ext ref_env ev m)))"
    and answer: "\<And>n m P c ev. R n m P \<Longrightarrow> c \<in># P \<Longrightarrow> responds c ev \<Longrightarrow> plain_step ev m \<Longrightarrow>
      R (Suc n) (fst (update ref_app_ext ref_env ev m)) (P - {#c#} + mset (snd (update ref_app_ext ref_env ev m)))"
  shows "\<exists>m P. R 5 m P \<and> ref_online b m \<and> Emit Poll \<in># P"
proof -
  let ?X = ref_app_ext and ?u = "update ref_app_ext ref_env" and ?me = "public_key_hex ref_app_ext (ref_identity b)"
  let ?ok = "Inr \<lparr>r_status = 200, r_retry_after = None, r_body = None\<rparr>"
  define m1 where "m1 = model_default\<lparr>secret_key := Some (replicate 64 b), my_pubkey := ?me,
    page := Conversations, loads_pending := STARTUP_LOADS, kv_load_failed := False\<rparr>"
  define m2 where "m2 = m1\<lparr>authenticating := False, auth_gen := 1\<rparr>"
  define m3 where "m3 = m2\<lparr>conn := Connecting, error := None, authenticating := True, auth_gen := 2\<rparr>"
  define m4 where "m4 = m3\<lparr>authenticating := True\<rparr>"
  define m5 where "m5 = fst (?u (VerifyResult 2 ?ok) m4)"
  have [simp]: "compose m1 = []" "profile m1 = own_profile_default" by (simp_all add: m1_def model_default_def)
  have u1: "fst (?u (IdentityLoaded (replicate 64 b)) model_default) = m1"
    by (simp add: m1_def on_identity_loaded_def ref_app_from_secret)
  obtain P1 where r1: "R 1 m1 P1"
    using user [OF start, of "IdentityLoaded (replicate 64 b)"] u1
    by (fastforce simp: plain_step_def replaces_tables_def model_default_def)
  have u2: "?u Connect m1 = (m2, [Emit Authenticate])"
    by (simp add: on_connect_def abandon_auth_def Let_def m1_def m2_def model_default_def)
  have r2: "R 2 m2 (P1 + {#Emit Authenticate#})"
    using user [OF r1, of Connect] u2 by (simp add: numeral_2_eq_2 plain_step_def replaces_tables_def)
  have id: "identity_of ?X m2 = Some (ref_identity b)"
    by (simp add: m1_def m2_def identity_of_def ref_app_from_secret model_default_def)
  let ?ask = "HttpPost (server_url (settings m2) @ lit ''/auth/challenge'') None (ChallengeReq ?me) (ThenChallengeResult 2)"
  have u3: "?u Authenticate m2 = (m3, [?ask, NotifyAfter AUTH_WATCHDOG_MS (AuthWatchdog 2), Render])"
    using id by (simp add: on_authenticate_def next_auth_gen_def Let_def m3_def) (simp add: m2_def)
  obtain P3 where r3: "R 3 m3 P3" "?ask \<in># P3"
    using answer [OF r2 _ responds.emitted, of Authenticate] u3
    by (fastforce simp: numeral_3_eq_3 numeral_2_eq_2 replaces_tables_def plain_step_def m2_def)
  obtain sg where sg: "sign_challenge ?X (ref_identity b) (server_host ?X (server_url (settings m3))) [] = Ok sg"
    using ref_signs by blast
  have id3: "identity_of ?X (m3\<lparr>authenticating := False\<rparr>) = Some (ref_identity b)"
    using id by (simp add: m3_def identity_of_def)
  let ?prove = "HttpPost (server_url (settings m3) @ lit ''/auth/verify'') None (VerifyReq ?me [] sg False) (ThenVerifyResult 2)"
  have u4: "?u (ChallengeResult 2 ?ok) m3 = (m4, [?prove])"
    using id3 sg by (simp add: on_challenge_result_def Let_def m4_def) (simp add: m3_def)
  have resp: "responds (HttpPost u a bd (ThenChallengeResult 2)) (ChallengeResult 2 ?ok)"
    "responds (HttpPost u a bd (ThenVerifyResult 2)) (VerifyResult 2 ?ok)" for u a bd
    using responds.http [of u a bd "ThenChallengeResult 2" ?ok] responds.http [of u a bd "ThenVerifyResult 2" ?ok] by simp_all
  obtain P4 where r4: "R 4 m4 P4" "?prove \<in># P4"
    using answer [OF r3 resp(1)] u4 by (fastforce simp: replaces_tables_def plain_step_def m3_def m2_def)
  have u5: "ref_online b m5" "Emit Poll \<in> set (snd (?u (VerifyResult 2 ?ok) m4))"
    by (simp_all add: m5_def on_verify_result_def Let_def m4_def m3_def m2_def m1_def take_body_def ref_online_def model_default_def)
  have "plain_step (VerifyResult 2 ?ok) m4" by (simp add: replaces_tables_def plain_step_def m4_def m3_def m2_def)
  from answer [OF r4 resp(2) this] u5 show ?thesis
    by (intro exI [of _ m5] exI conjI) (auto simp: m5_def simp del: update.simps)
qed

lemma ref_session: "\<exists>m P. orderly ref_app_ext 5 m P \<and> ref_online 1 m"
proof -
  have "\<exists>m P. orderly ref_app_ext 5 m P \<and> ref_online 1 m \<and> Emit Poll \<in># P"
  proof (rule ref_session_run, goal_cases)
    case (3 n m P c ev)
    then show ?case by (intro orderly_answer) (simp_all add: plain_step_def)
  qed (simp_all add: orderly.start orderly.user)
  then show ?thesis by blast
qed

text \<open>It opens a chat, writes a text and flushes: a batch is on the wire.\<close>

lemma ref_posting:
  "\<exists>m P u a e es. orderly ref_app_ext 8 m P \<and>
     HttpPost u a (SendBatch (e # es)) (ThenSendResult (flush_gen (fst (update ref_app_ext ref_env StartFlush m))))
       \<in> set (snd (update ref_app_ext ref_env StartFlush m)) \<and>
     Emit StartFlush \<in># P \<and> \<not> kv_load_failed m \<and> outbox m \<noteq> [] \<and> \<not> flushing m \<and> free_to_send ref_app_ext ref_env m"
proof -
  let ?X = ref_app_ext and ?u = "update ref_app_ext ref_env"
  obtain m P where r: "orderly ?X 5 m P" and on: "ref_online 1 m" using ref_session by blast
  define m7 where "m7 = fst (?u (ComposeChanged (lit ''hi'')) (fst (?u (OpenChat ref_peer) m)))"
  define m8 where "m8 = fst (?u SendText m7)"
  have can: "can_text ?X ref_env (ref_identity 1) ref_peer (lit ''hi'') m7"
    using on ref_strings
    by (simp add: m7_def on_compose_changed_def on_open_chat_def show_page_def can_text_def ref_online_def ref_trim blocked_def
        bt_get_def is_some_and_def size_caps identity_of_def ref_app_from_secret del: ulen_def)
  obtain P7 where r7: "orderly ?X 7 m7 P7"
    using orderly.user [OF orderly.user [OF r, of "OpenChat ref_peer" ref_env], of "ComposeChanged (lit ''hi'')" ref_env]
    by (auto simp: m7_def eval_nat_numeral)
  note q = send_text_queues [OF can m8_def refl]
  obtain P8 where r8: "orderly ?X 8 m8 P8" "Emit StartFlush \<in># P8"
    using orderly.user [OF r7, of SendText ref_env] q(5) by (auto simp: m8_def eval_nat_numeral)
  have "\<exists>rest. outbox m8 = ref_text # rest \<and> ref_text \<notin> set rest" using q(1) by (simp add: ref_text_def)
  then obtain rest where rest: "outbox m8 = ref_text # rest" "ref_text \<notin> set rest" by blast
  have rdy: "\<not> kv_load_failed m8" "flush_paused_until m8 \<le> now_ms ref_env 0" "\<exists>tok. token m8 = Some tok"
    using q(2) by (auto simp: free_to_send_def)
  obtain u a e es t where post: "HttpPost u a (SendBatch (e # es)) t \<in> set (snd (flush_next ?X ref_env m8))"
    using flush_sends_head [OF q(3) rdy(1,2) q(4) _ _ rest] rdy(3) ref_text_usable by fastforce
  then have "t = ThenSendResult (flush_gen (fst (flush_next ?X ref_env m8)))"
    using posts_fit_flush [of ?X ref_env m8] by (auto simp: posts_fit_def)
  with post r8 rdy q(2,3) rest(1) show ?thesis by (intro exI [of _ m8] exI [of _ P8]) auto
qed

theorem session_queue_sound_witness:
  "\<exists>m P. orderly ref_app_ext 8 m P \<and> outbox m \<noteq> [] \<and>
     list_all (\<lambda>i. \<not> blocked m (o_recipient i)) (outbox m) \<and> flight_ok m"
  using ref_posting session_queue_sound unfolding list_all_iff by meson

theorem accepted_send_was_posted_witness:
  "\<exists>m es k q. (\<exists>m1. q = outbox m1 \<and>
       fst (update ref_app_ext ref_env (SendResult (flush_gen m) (Inr accepted)) m) = fst (flush_next ref_app_ext ref_env m1)) \<and>
     q = drop k (outbox m) \<and>
     (k = 0 \<and> in_flight m = None \<or>
      k = length es \<and> (\<exists>sender. list_all2 (sealed ref_app_ext sender) (take k (outbox m)) es)) \<and> es \<noteq> []"
proof -
  obtain m P u a e es where r: "orderly ref_app_ext 8 m P" and flush: "Emit StartFlush \<in># P" and kv: "\<not> kv_load_failed m" and
    post: "HttpPost u a (SendBatch (e # es)) (ThenSendResult (flush_gen (fst (update ref_app_ext ref_env StartFlush m))))
       \<in> set (snd (update ref_app_ext ref_env StartFlush m))"
    using ref_posting by blast
  define m' where "m' = fst (update ref_app_ext ref_env StartFlush m)"
  have r9: "orderly ref_app_ext (Suc 8) m' (P - {#Emit StartFlush#} + mset (snd (update ref_app_ext ref_env StartFlush m)))"
    using orderly_answer [OF r flush responds.emitted, of ref_env] by (simp add: m'_def replaces_tables_def)
  have kv': "\<not> kv_load_failed m'" using kv by (simp add: m'_def)
  have "HttpPost u a (SendBatch (e # es)) (ThenSendResult (flush_gen m')) \<in>#
      P - {#Emit StartFlush#} + mset (snd (update ref_app_ext ref_env StartFlush m))"
    using post by (simp add: m'_def)
  from accepted_send_was_posted [OF r9 _ kv' this, of accepted ref_env]
  show ?thesis by (intro exI [of _ m'] exI [of _ "e # es"]) (auto simp: accepted_def simp del: update.simps)
qed

theorem accepted_sends_drain_queue_witness:
  "\<exists>m. outbox m \<noteq> [] \<and>
     outbox (drain ref_app_ext ref_env (length (outbox m)) (fst (update ref_app_ext ref_env StartFlush m))) = []"
proof -
  obtain m P where m: "orderly ref_app_ext 8 m P" "outbox m \<noteq> []" "\<not> flushing m" "free_to_send ref_app_ext ref_env m"
    using ref_posting by blast
  from accepted_sends_drain_queue [OF orderly_queue [OF m(1)] m(3,4) _ refl] m(2) show ?thesis by auto
qed

end
