(* ===== verification/Receipts.thy ===== *)
theory Receipts
  imports Delivery
begin

text \<open>
  The way back: what a client that stored a text sends to acknowledge it, and what the author does with
  the acknowledgement.
\<close>

section \<open>A page of one acknowledgement\<close>

lemma hash_order_single: "env_ok E \<Longrightarrow> hash_order E {p} = [p]"
proof -
  assume "env_ok E"
  then have "set (hash_order E {p}) = {p}" "distinct (hash_order E {p})" by (simp_all add: env_ok_def)
  moreover from this have "length (hash_order E {p}) = 1" using distinct_card [of "hash_order E {p}"] by simp
  ultimately show ?thesis by (cases "hash_order E {p}") auto
qed

lemma ingest_one_ack:
  assumes E: "env_ok E" and pg: "pr_events pg = [ev]" and ev: "hex_decode X (pe_encrypted_blob ev) = Some blob"
      "decrypt X ident blob = Ok dec" "parse_payload X (plaintext dec) = Some \<lparr>pp_ts = t, pp_payload = DeliveryAck ids\<rparr>"
      "small_event ev"
    and m: "\<not> kv_load_failed m" "identity_of X m = Some ident" "\<not> shut_out m (sender_hex dec)"
      "bt_get (messages m) (sender_hex dec) = Some l"
    and new: "\<And>c. bt_get (contacts m) (sender_hex dec) = Some c \<Longrightarrow>
      c_last_ack_ts c \<le> min (max t 0) (sat_add (now_ms E 1) MAX_FUTURE_SKEW_MS)"
    and now: "0 \<le> now_ms E 1"
  shows "bt_get (messages (fst (ingest_poll X E pg m))) (sender_hex dec) = Some (map (mark_delivered (set ids)) l)"
proof -
  let ?p = "sender_hex dec" and ?ts = "min (max t 0) (sat_add (now_ms E 1) MAX_FUTURE_SKEW_MS)"
  obtain s where s: "fresh_page m s" "fst (ingest_poll X E pg m) = i_model (queue_acks X (now_ms E 2)
      (apply_acks E (now_ms E 1) (ingest_payload X E (now_ms E 1) ?p \<lparr>pp_ts = t, pp_payload = DeliveryAck ids\<rparr> s)))"
    using ingest_one_event [OF pg ev m(1,2)] by blast
  have ts: "0 \<le> ?ts"
    using now by (simp add: sat_add_def sat_i64_def i64_min_def i64_max_def size_caps)
  let ?pa = "\<lparr>pa_ts = ?ts, pa_ids = set ids\<rparr>"
  have pay: "ingest_payload X E (now_ms E 1) ?p \<lparr>pp_ts = t, pp_payload = DeliveryAck ids\<rparr> s = s\<lparr>i_pending := [(?p, ?pa)]\<rparr>"
    using m(3) s(1) ts
    by (auto simp: ingest_payload_def ingest_ack_def shut_out_def blocked_def fresh_page_def or_default_def
        pending_ack_default_def Let_def bt_get_def not_less)
  have "apply_acks E (now_ms E 1) (s\<lparr>i_pending := [(?p, ?pa)]\<rparr>) = apply_ack (now_ms E 1) ?p ?pa (s\<lparr>i_pending := [(?p, ?pa)]\<rparr>)"
    by (simp add: apply_acks_def bt_keys_def bt_get_def hash_order_single [OF E])
  moreover have "\<not> is_some_and (bt_get (contacts (i_model s)) ?p) (\<lambda>c. ?ts < c_last_ack_ts c)"
    using new s(1) by (auto simp: fresh_page_def is_some_and_def not_less split: option.split)
  ultimately show ?thesis
    using s(1) m(4) unfolding s(2) pay
    by (simp add: apply_ack_def queue_acks_def fresh_page_def Let_def bt_get_simps del: One_nat_def)
qed

section \<open>The acknowledgement comes back\<close>

text \<open>C4. A receipt arrives: a client that knows the author of a new text and has nothing else to send
  queues, when it stores the text, one acknowledgement; flushed and handed back by the relay, it marks
  exactly the author's message of that id as delivered in the author's conversation, provided that no
  later acknowledgement of this peer came first.\<close>

theorem receipt_reaches_author:
  assumes "protocol_ext_ok X" "identity_ok X alice" "identity_ok X bob" "\<forall>b. body_json_ok X b"
    and "p = public_key_hex X alice" "q = public_key_hex X bob"
    and "sealed X alice item e" "item = outbox_item_new q (serialize_payload X (Text i body) t)"
    and "list_all is_scalar i" "list_all is_scalar body" "ulen i \<le> MAX_ID_LEN" "ulen body \<le> MAX_BODY_LEN" "in_i64 t"
    and "takes_text X bob p i mb" "bt_get (contacts mb) p \<noteq> None" "outbox mb = []" "\<not> flushing mb" "token mb \<noteq> None"
    and "mb' = fst (ingest_poll X E2 \<lparr>pr_events = [\<lparr>pe_encrypted_blob = encrypted_blob e\<rparr>], pr_cursor = c\<rparr> mb)"
    and "flush_paused_until mb \<le> now_ms E3 0"
    and "\<forall>r. encrypt_for X r bob (outbox_item_new p (serialize_payload X (DeliveryAck [i]) (now_ms E2 2))) \<noteq> None"
    and "env_ok E4" "0 \<le> now_ms E4 1" "identity_of X ma = Some alice" "\<not> kv_load_failed ma" "\<not> shut_out ma q"
    and "bt_get (messages ma) q = Some l"
    and "\<forall>k. bt_get (contacts ma) q = Some k \<longrightarrow>
      c_last_ack_ts k \<le> min (max (now_ms E2 2) 0) (sat_add (now_ms E4 1) MAX_FUTURE_SKEW_MS)"
  shows "\<exists>u a e' es th. HttpPost u a (SendBatch (e' # es)) th \<in> set (snd (update X E3 StartFlush mb')) \<and> to e' = p \<and>
    (\<forall>c'. bt_get (messages (fst (ingest_poll X E4 \<lparr>pr_events = [\<lparr>pe_encrypted_blob = encrypted_blob e'\<rparr>], pr_cursor = c'\<rparr> ma))) q =
       Some (map (\<lambda>x. if m_outgoing x \<and> m_id x = i then x\<lparr>m_delivered := True\<rparr> else x) l))"
proof -
  let ?ev = "\<lparr>pe_encrypted_blob = encrypted_blob e\<rparr>"
  have to: "o_recipient item = public_key_hex X bob" and json: "o_envelope_json item = serialize_payload X (Text i body) t"
    using assms(6,8) by (simp_all add: outbox_item_new_def)
  obtain blob where blob: "hex_decode X (encrypted_blob e) = Some blob"
    "decrypt X bob blob = Ok \<lparr>plaintext = utf8_encode (o_envelope_json item), sender_hex = public_key_hex X alice\<rparr>" "small_event ?ev"
    using sealed_opens [OF assms(1-3,7) to] by blast
  have "ulen (sanitize_text body) \<le> MAX_BODY_LEN" using assms(12) sanitize_ulen le_trans by blast
  then have parse: "parse_payload X (utf8_encode (o_envelope_json item)) = Some \<lparr>pp_ts = t, pp_payload = Text i (sanitize_text body)\<rparr>"
    unfolding json using parse_serialized [OF assms(1) _ assms(13), of "Text i body"] assms(9-11) by (simp add: payload_wf_def)
  let ?ack = "outbox_item_new p (serialize_payload X (DeliveryAck [i]) (now_ms E2 2))"
  have queued: "outbox mb' = [?ack]"
    using ingest_one_text(3) [OF _ _ blob(2), of "\<lparr>pr_events = [?ev], pr_cursor = c\<rparr>" ?ev t i "sanitize_text body" mb mb' E2]
      assms(5,14,15,16,19) blob(1,3) parse by (auto simp: takes_text_def)
  have frame: "ingest_frame mb mb'" unfolding assms(19) by (rule ingest_poll_frame)
  have bob: "\<not> flushing mb'" "\<not> kv_load_failed mb'" "identity_of X mb' = Some bob" "token mb' = token mb"
    "flush_paused_until mb' = flush_paused_until mb"
    using assms(14,17) ingest_frame_fields [OF frame]
    by (simp_all add: takes_text_def identity_of_def)
  obtain tok where tok: "token mb' = Some tok" using assms(18) bob(4) by auto
  obtain u a e' es th where post: "HttpPost u a (SendBatch (e' # es)) th \<in> set (snd (flush_next X E3 mb'))"
    and sealed: "sealed X bob ?ack e'"
    using flush_sends_head [OF bob(1,2) _ bob(3) tok _ queued, of E3] assms(4,20,21) bob(5) by auto
  have to': "o_recipient ?ack = public_key_hex X alice" "to e' = p"
    using sealed assms(5) by (simp_all add: sealed_def outbox_item_new_def)
  let ?ev' = "\<lparr>pe_encrypted_blob = encrypted_blob e'\<rparr>"
  obtain blob' where blob': "hex_decode X (encrypted_blob e') = Some blob'"
    "decrypt X alice blob' = Ok \<lparr>plaintext = utf8_encode (o_envelope_json ?ack), sender_hex = public_key_hex X bob\<rparr>" "small_event ?ev'"
    using sealed_opens [OF assms(1,3,2) sealed to'(1)] by blast
  have parse': "parse_payload X (utf8_encode (o_envelope_json ?ack)) = Some \<lparr>pp_ts = now_ms E2 2, pp_payload = DeliveryAck [i]\<rparr>"
    using parse_serialized [OF assms(1) _ in_i64_now, of "DeliveryAck [i]" E2 2] assms(9,11)
    by (simp add: payload_wf_def outbox_item_new_def size_caps)
  have mark: "map (mark_delivered (set [i])) l = map (\<lambda>x. if m_outgoing x \<and> m_id x = i then x\<lparr>m_delivered := True\<rparr> else x) l"
    by (rule map_cong [OF refl]) (auto simp: mark_delivered_def)
  have "bt_get (messages (fst (ingest_poll X E4 \<lparr>pr_events = [?ev'], pr_cursor = c'\<rparr> ma))) q = Some (map (mark_delivered (set [i])) l)" for c'
    using ingest_one_ack [OF assms(22) _ _ blob'(2), of "\<lparr>pr_events = [?ev'], pr_cursor = c'\<rparr>" ?ev' "now_ms E2 2" "[i]" ma l]
      parse' blob'(1,3) assms(6,23-28) by simp
  with post to'(2) mark show ?thesis by fastforce
qed

section \<open>A concrete round trip\<close>

definition ref_receipt :: outbox_item where
  "ref_receipt = outbox_item_new ref_sender (serialize_payload ref_app_ext (DeliveryAck [lit ''u'']) 1000)"

lemma ref_receipt_usable: "encrypt_for ref_app_ext r (ref_identity b) ref_receipt \<noteq> None"
proof -
  have "payload_value (DeliveryAck [lit ''u'']) 1000 = ref_json_ack" by (simp only: ref_json_ack_def)
  then have "serialize_payload ref_app_ext (DeliveryAck [lit ''u'']) 1000 = [67]"
    by (simp add: serialize_payload_def ref_json_print_def ref_json_ack_other del: payload_value.simps)
  then have "o_envelope_json ref_receipt = [67]" "o_recipient ref_receipt = ref_sender"
    by (simp_all add: ref_receipt_def outbox_item_new_def)
  moreover have "hex_decode ref_crypto_ext ref_sender = Some (replicate 32 1)"
    by (simp add: ref_sender_def public_key_hex_def ref_identity_key ref_crypto_ext_def ref_hex_roundtrip)
  ultimately show ?thesis
    using ref_app_encrypt [of "[67]" r b 1] by (auto simp: encrypt_for_def utf8_char_def size_caps)
qed

definition ref_friend :: model where
  "ref_friend = ref_inbox\<lparr>contacts := [(ref_sender, contact_new ref_sender [] 0)], token := Some (lit ''t'')\<rparr>"

definition ref_author :: model where
  "ref_author = ref_alice\<lparr>my_pubkey := ref_sender,
     messages := [(ref_peer, [\<lparr>m_id = lit ''u'', m_body = lit ''hi'', m_ts = 1000, m_outgoing = True, m_delivered = False\<rparr>])]\<rparr>"

lemma ref_keys_differ: "ref_sender \<noteq> ref_peer"
  using ref_sender_open by (auto simp: shut_out_def)

lemma ref_friend_takes: "takes_text ref_app_ext (ref_identity 2) ref_sender (lit ''u'') ref_friend"
  using ref_keys_differ
  by (simp add: takes_text_def ref_friend_def shut_out_def blocked_def is_some_and_def bt_get_def contact_new_def or_default_def
      identity_of_def ref_inbox_def model_default_def ref_app_from_secret)

lemma usable_sealed:
  assumes "encrypt_for X r sender i \<noteq> None"
  shows "\<exists>e. sealed X sender i e"
proof -
  obtain blob where "encrypt_for X r sender i = Some blob" using assms by blast
  then have "sealed X sender i \<lparr>to = o_recipient i, encrypted_blob = hex_encode X blob\<rparr>" by (auto simp: sealed_def)
  then show ?thesis by blast
qed

theorem receipt_reaches_author_witness:
  "\<exists>mb' e'. (\<exists>u a es th. HttpPost u a (SendBatch (e' # es)) th \<in> set (snd (update ref_app_ext ref_env StartFlush mb'))) \<and>
     bt_get (messages (fst (ingest_poll ref_app_ext ref_env \<lparr>pr_events = [\<lparr>pe_encrypted_blob = encrypted_blob e'\<rparr>], pr_cursor = 9\<rparr> ref_author))) ref_peer =
       Some [\<lparr>m_id = lit ''u'', m_body = lit ''hi'', m_ts = 1000, m_outgoing = True, m_delivered = True\<rparr>]"
proof -
  obtain e where e: "sealed ref_app_ext (ref_identity 1) ref_text e" using usable_sealed [OF ref_text_usable] by blast
  have item: "ref_text = outbox_item_new ref_peer (serialize_payload ref_app_ext (Text (lit ''u'') (lit ''hi'')) 1000)"
    by (simp add: ref_text_def)
  have keys: "ref_sender = public_key_hex ref_app_ext (ref_identity 1)" "ref_peer = public_key_hex ref_app_ext (ref_identity 2)"
    by (simp_all add: ref_sender_def ref_peer_key)
  have author: "identity_of ref_app_ext ref_author = Some (ref_identity 1)" "\<not> kv_load_failed ref_author" "contacts ref_author = []"
    "\<not> shut_out ref_author ref_peer"
    "bt_get (messages ref_author) ref_peer = Some [\<lparr>m_id = lit ''u'', m_body = lit ''hi'', m_ts = 1000, m_outgoing = True, m_delivered = False\<rparr>]"
    using ref_keys_differ
    by (auto simp: ref_author_def ref_alice_def model_default_def identity_of_def ref_app_from_secret shut_out_def blocked_def
        is_some_and_def bt_get_def)
  have friend: "bt_get (contacts ref_friend) ref_sender \<noteq> None" "outbox ref_friend = []" "\<not> flushing ref_friend" "token ref_friend \<noteq> None"
    "flush_paused_until ref_friend = 0"
    by (simp_all add: ref_friend_def ref_inbox_def model_default_def bt_get_def)
  have t: "in_i64 1000" by (simp add: in_i64_def i64_min_def i64_max_def)
  have ack: "encrypt_for ref_app_ext r (ref_identity 2)
      (outbox_item_new ref_sender (serialize_payload ref_app_ext (DeliveryAck [lit ''u'']) (now_ms ref_env 2))) \<noteq> None" for r
    using ref_receipt_usable [of r 2] by (simp add: ref_receipt_def)
  note round_trip = receipt_reaches_author [OF ref_app_ext_ok ref_app_identity_ok [of 1] ref_app_identity_ok [of 2] _ keys e item
      ref_strings(2,1,3,4) t ref_friend_takes friend(1-4) refl _ _ ref_env_ok _ author(1,2,4,5), of ref_env ref_env 9]
  show ?thesis using round_trip ack author(3) friend(5) by (fastforce simp: bt_get_def simp del: update.simps)
qed

end
