(* ===== verification/Broadcast.thy ===== *)
theory Broadcast
  imports Queue
begin

text \<open>
  Saving the profile: what the broadcast puts in the queue, behind the items that are already on the
  wire, and what it says to the contacts.
\<close>

section \<open>Superseding a pending profile\<close>

definition pending_profile :: "ustr \<Rightarrow> outbox_item \<Rightarrow> bool" where
  "pending_profile p i \<longleftrightarrow> is_profile i \<and> o_recipient i = p"

definition supersede :: "ustr \<Rightarrow> ustr \<Rightarrow> outbox_item list \<Rightarrow> outbox_item list" where
  "supersede pj p b =
     (case update_first (pending_profile p) (\<lambda>i. i\<lparr>o_envelope_json := pj\<rparr>) b of
        Some b' \<Rightarrow> b' | None \<Rightarrow> b @ [outbox_item_profile p pj])"

lemma update_first_None: "update_first P f xs = None \<longleftrightarrow> (\<forall>x\<in>set xs. \<not> P x)"
  by (induction xs) auto

lemma update_first_Some:
  "update_first P f xs = Some ys \<Longrightarrow> \<exists>us x vs. xs = us @ x # vs \<and> (\<forall>u\<in>set us. \<not> P u) \<and> P x \<and> ys = us @ f x # vs"
proof (induction xs arbitrary: ys)
  case (Cons a xs)
  show ?case
  proof (cases "P a")
    case True
    with Cons.prems show ?thesis by (intro exI [of _ "[]"]) auto
  next
    case False
    with Cons.prems obtain zs where zs: "update_first P f xs = Some zs" "ys = a # zs" by auto
    from Cons.IH [OF zs(1)] obtain us x vs where "xs = us @ x # vs" "\<forall>u\<in>set us. \<not> P u" "P x" "zs = us @ f x # vs" by blast
    with zs(2) False show ?thesis by (intro exI [of _ "a # us"]) auto
  qed
qed simp

lemma queue_profile_behind:
  assumes "live \<le> length q"
  shows "queue_profile live pj p q = take live q @ supersede pj p (drop live q)"
  using assms
  by (simp add: queue_profile_def supersede_def pending_profile_def [abs_def] split: option.split)

lemma broadcast_behind:
  "live \<le> length q \<Longrightarrow> fold (queue_profile live pj) ps q = take live q @ fold (supersede pj) ps (drop live q)"
proof (induction ps arbitrary: q)
  case (Cons p ps)
  then have "live \<le> length (take live q @ supersede pj p (drop live q))" by simp
  from Cons.IH [OF this] Cons.prems show ?case by (simp add: queue_profile_behind)
qed simp

lemma supersede_cases:
  obtains (rewritten) us x vs where "b = us @ x # vs" "\<forall>u\<in>set us. \<not> pending_profile p u" "pending_profile p x"
      "supersede pj p b = us @ x\<lparr>o_envelope_json := pj\<rparr> # vs"
  | (appended) "\<forall>i\<in>set b. \<not> pending_profile p i" "supersede pj p b = b @ [outbox_item_profile p pj]"
proof (cases "update_first (pending_profile p) (\<lambda>i. i\<lparr>o_envelope_json := pj\<rparr>) b")
  case None
  then have "\<forall>i\<in>set b. \<not> pending_profile p i" "supersede pj p b = b @ [outbox_item_profile p pj]"
    using None [unfolded update_first_None] by (simp_all add: supersede_def None)
  then show thesis by (rule appended)
next
  case (Some b')
  from update_first_Some [OF this] obtain us x vs where u: "b = us @ x # vs" "\<forall>u\<in>set us. \<not> pending_profile p u"
    "pending_profile p x" "b' = us @ x\<lparr>o_envelope_json := pj\<rparr> # vs" by blast
  then show thesis using rewritten [of us x vs] Some by (simp add: supersede_def)
qed

lemma pending_profile_simps [simp]:
  "pending_profile r (i\<lparr>o_envelope_json := pj\<rparr>) = pending_profile r i"
  "pending_profile r (outbox_item_profile p pj) = (p = r)"
  "is_profile (i\<lparr>o_envelope_json := pj\<rparr>) = is_profile i" "is_profile (outbox_item_profile p pj)"
  by (auto simp: pending_profile_def is_profile_def outbox_item_profile_def outbox_item_new_def)

definition told :: "ustr \<Rightarrow> ustr \<Rightarrow> outbox_item list \<Rightarrow> bool" where
  "told pj p b \<longleftrightarrow> (\<exists>i\<in>set b. pending_profile p i \<and> o_envelope_json i = pj)"

definition pendings :: "ustr \<Rightarrow> outbox_item list \<Rightarrow> nat" where
  "pendings p b = length (filter (pending_profile p) b)"

lemma told_simps [simp]:
  "told pj r (a @ b) \<longleftrightarrow> told pj r a \<or> told pj r b" "\<not> told pj r []"
  "told pj r (i # b) \<longleftrightarrow> pending_profile r i \<and> o_envelope_json i = pj \<or> told pj r b"
  by (auto simp: told_def)

lemma profile_item_json [simp]: "o_envelope_json (outbox_item_profile p pj) = pj"
  by (simp add: outbox_item_profile_def outbox_item_new_def)

lemma supersede_told: "told pj p (supersede pj p b)" "told pj r b \<Longrightarrow> told pj r (supersede pj p b)"
proof -
  show "told pj p (supersede pj p b)"
    by (cases rule: supersede_cases [of b p pj]) simp_all
  show "told pj r (supersede pj p b)" if "told pj r b"
    using that by (cases rule: supersede_cases [of b p pj]) auto
qed

lemma supersede_pendings: "pendings r (supersede pj p b) = (if r = p then max 1 (pendings r b) else pendings r b)"
proof (cases rule: supersede_cases [of b p pj])
  case (rewritten us x vs)
  then show ?thesis by (auto simp: pendings_def)
next
  case appended
  then show ?thesis by (auto simp: pendings_def filter_empty_conv)
qed

lemma supersede_others: "filter (\<lambda>i. \<not> is_profile i) (supersede pj p b) = filter (\<lambda>i. \<not> is_profile i) b"
  by (cases rule: supersede_cases [of b p pj]) (auto simp: pending_profile_def)

lemma supersede_fold:
  "told pj r b \<or> r \<in> set ps \<Longrightarrow> told pj r (fold (supersede pj) ps b)"
  "pendings r (fold (supersede pj) ps b) = (if r \<in> set ps then max 1 (pendings r b) else pendings r b)"
  "filter (\<lambda>i. \<not> is_profile i) (fold (supersede pj) ps b) = filter (\<lambda>i. \<not> is_profile i) b"
proof -
  show "told pj r (fold (supersede pj) ps b)" if "told pj r b \<or> r \<in> set ps"
    using that by (induction ps arbitrary: b) (auto intro: supersede_told)
  show "pendings r (fold (supersede pj) ps b) = (if r \<in> set ps then max 1 (pendings r b) else pendings r b)"
    by (induction ps arbitrary: b) (auto simp: supersede_pendings)
  show "filter (\<lambda>i. \<not> is_profile i) (fold (supersede pj) ps b) = filter (\<lambda>i. \<not> is_profile i) b"
    by (induction ps arbitrary: b) (simp_all add: supersede_others)
qed

lemma open_recipient:
  assumes "contacts_ok m"
  shows "p \<in> set (profile_recipients m) \<longleftrightarrow> (\<exists>c. bt_get (contacts m) p = Some c \<and> \<not> c_blocked c)"
proof
  assume "p \<in> set (profile_recipients m)"
  then obtain k c where "(k, c) \<in> set (contacts m)" "\<not> c_blocked c" "p = c_pubkey c"
    by (auto simp: profile_recipients_def bt_values_def)
  with assms show "\<exists>c. bt_get (contacts m) p = Some c \<and> \<not> c_blocked c"
    by (metis bt_get_Some_iff contacts_ok_def)
next
  assume "\<exists>c. bt_get (contacts m) p = Some c \<and> \<not> c_blocked c"
  then obtain c where c: "bt_get (contacts m) p = Some c" "\<not> c_blocked c" by blast
  with assms have "(p, c) \<in> set (contacts m)" "c_pubkey c = p"
    by (auto simp: contacts_ok_def bt_get_Some_iff)
  with c(2) show "p \<in> set (profile_recipients m)" by (force simp: profile_recipients_def bt_values_def)
qed

text \<open>C20. Everyone the user has not blocked is told the new profile: an accepted save leaves the items on
  the wire and every queued text and acknowledgement as they are, queues no profile for anyone else, and
  for each contact that is not blocked there is, behind the items on the wire, a pending profile that a
  peer running this code parses to exactly the new one (less invisible characters); a profile that was
  pending is rewritten instead of a second one being queued.\<close>

theorem profile_reaches_contacts:
  assumes "protocol_ext_ok X" "queue_ok m"
    and "length name \<le> MAX_DISPLAY_NAME_LEN" "length bio \<le> MAX_BIO_LEN"
    and "\<forall>p. photo = Some p \<longrightarrow> ulen p \<le> MAX_PHOTO_LEN \<and> base64_ok X p \<and> list_all is_scalar p"
    and "list_all is_scalar name" "list_all is_scalar bio"
    and "m' = fst (update X E (SaveProfile name bio photo) m)" "live = in_flight_count m"
  shows "take live (outbox m') = take live (outbox m) \<and>
    filter (\<lambda>i. \<not> is_profile i) (outbox m') = filter (\<lambda>i. \<not> is_profile i) (outbox m) \<and>
    (\<forall>p. if \<exists>c. bt_get (contacts m) p = Some c \<and> \<not> c_blocked c
       then (\<exists>i\<in>set (drop live (outbox m')). is_profile i \<and> o_recipient i = p \<and>
              parse_payload X (utf8_encode (o_envelope_json i)) =
                Some \<lparr>pp_ts = now_ms E 0, pp_payload = Profile (Some (sanitize_text name)) (Some (sanitize_text bio)) photo\<rparr>) \<and>
            pendings p (drop live (outbox m')) = max 1 (pendings p (drop live (outbox m)))
       else pendings p (drop live (outbox m')) = pendings p (drop live (outbox m)))"
proof -
  define pj where "pj = serialize_payload X (Profile (Some name) (Some bio) photo) (now_ms E 0)"
  define ps where "ps = profile_recipients m"
  have recip: "p \<in> set ps \<longleftrightarrow> (\<exists>c. bt_get (contacts m) p = Some c \<and> \<not> c_blocked c)" for p
    using assms(2) by (simp add: ps_def open_recipient queue_ok_def)
  have live: "live \<le> length (outbox m)"
    using assms(2,9) by (auto simp: queue_ok_def flight_ok_def in_flight_count_def split: option.splits)
  let ?new = "m\<lparr>error := None, profile := \<lparr>op_display_name = name, op_bio = bio, op_photo = photo\<rparr>, page := Conversations\<rparr>"
  have "in_flight_count ?new = live" "profile_recipients ?new = ps"
    "serialize_payload X (own_profile_payload ?new) (now_ms E 0) = pj"
    using assms(9) by (simp_all add: in_flight_count_def profile_recipients_def ps_def own_profile_payload_def pj_def)
  moreover have "\<not> MAX_DISPLAY_NAME_LEN < length name" "\<not> MAX_BIO_LEN < length bio"
    "\<not> is_some_and photo (\<lambda>p. ulen p > MAX_PHOTO_LEN)" "\<not> is_some_and photo (\<lambda>p. \<not> base64_ok X p)"
    using assms(3-5) by (auto simp: is_some_and_def split: option.split)
  ultimately have "outbox m' = fold (queue_profile live pj) ps (outbox m)"
    using assms(8) by (simp add: on_save_profile_def broadcast_profile_def Let_def case_prod_unfold)
  then have q: "outbox m' = take live (outbox m) @ fold (supersede pj) ps (drop live (outbox m))"
    by (simp add: broadcast_behind [OF live])
  then have behind: "take live (outbox m') = take live (outbox m)" "drop live (outbox m') = fold (supersede pj) ps (drop live (outbox m))"
    using live by simp_all
  have other: "filter (\<lambda>i. \<not> is_profile i) (outbox m') = filter (\<lambda>i. \<not> is_profile i) (outbox m)"
    unfolding q filter_append supersede_fold(3) by (simp flip: filter_append)
  have "within_caps X (sanitize_payload (Profile (Some name) (Some bio) photo))"
    using assms(3-5) sanitize_length [of name] sanitize_length [of bio] by (auto simp: is_some_and_def split: option.split)
  moreover have "payload_wf (Profile (Some name) (Some bio) photo)"
    using assms(5-7) by (cases photo) (simp_all add: payload_wf_def List.map_filter_simps)
  ultimately have parse: "parse_payload X (utf8_encode pj) =
      Some \<lparr>pp_ts = now_ms E 0, pp_payload = Profile (Some (sanitize_text name)) (Some (sanitize_text bio)) photo\<rparr>"
    unfolding pj_def using parse_serialized [OF assms(1) _ in_i64_now] by simp
  have "\<exists>i\<in>set (drop live (outbox m')). is_profile i \<and> o_recipient i = p \<and>
      parse_payload X (utf8_encode (o_envelope_json i)) =
        Some \<lparr>pp_ts = now_ms E 0, pp_payload = Profile (Some (sanitize_text name)) (Some (sanitize_text bio)) photo\<rparr>" if "p \<in> set ps" for p
    using supersede_fold(1) [of pj p "drop live (outbox m)" ps] that parse unfolding behind(2)
    by (auto simp: told_def pending_profile_def)
  then show ?thesis
    using behind other by (simp add: supersede_fold(2) recip del: update.simps flip: recip)
qed

theorem profile_reaches_contacts_witness:
  "pendings ref_peer (outbox (fst (update ref_app_ext ref_env (SaveProfile (lit ''hi'') [] None)
     (model_default\<lparr>contacts := [(ref_peer, contact_new ref_peer [] 0)]\<rparr>)))) = 1"
proof -
  let ?m = "model_default\<lparr>contacts := [(ref_peer, contact_new ref_peer [] 0)]\<rparr>"
  have "queue_ok ?m"
    by (simp add: queue_ok_def contacts_ok_def clear_queue_def model_default_def bt_wf_def bt_keys_def bt_get_def)
  moreover have "length (lit ''hi'') \<le> MAX_DISPLAY_NAME_LEN" "list_all is_scalar (lit ''hi'')"
    by (simp_all add: size_caps lit_def is_scalar_def)
  ultimately show ?thesis
    using profile_reaches_contacts [OF ref_app_ext_ok, of ?m "lit ''hi''" "[]" None _ ref_env 0, OF _ _ _ _ _ _ refl,
        THEN conjunct2, THEN conjunct2, THEN spec, of ref_peer]
    by (simp add: bt_get_def in_flight_count_def model_default_def pendings_def contact_new_def del: update.simps)
qed

section \<open>Where the code and its comments part\<close>

text \<open>A profile without a picture leaves the picture its recipients hold.\<close>

lemma removed_photo_stays:
  assumes "op_photo (profile m) = None" "bt_get (contacts (i_model s)) peer = Some c"
    and "own_profile_payload m = Profile n b ph"
  shows "\<exists>c'. bt_get (contacts (i_model (ingest_profile peer ts now n b ph s))) peer = Some c' \<and> c_photo c' = c_photo c"
  using assms by (auto simp: own_profile_payload_def ingest_profile_def update_profile_def Let_def bt_get_simps)

text \<open>A profile saved while an older one is on the wire is queued beside it; when that send fails, the
  next save rewrites only the first of the two and leaves the older one behind it.\<close>

lemma two_profiles_pending:
  assumes "o_kind i = o_kind j" "is_profile i" "o_recipient i = p" "o_recipient j = p"
  shows "queue_profile 1 pj p [i] = [i, outbox_item_profile p pj]"
    and "queue_profile 0 pj p [i, j] = [i\<lparr>o_envelope_json := pj\<rparr>, j]"
  using assms by (simp_all add: queue_profile_def)

end
