(* ===== verification/Authorship.thy ===== *)
theory Authorship
  imports Receipts Broadcast
begin

text \<open>
  Agreement between two clients over whole sessions: what one shows as a text of the other was composed
  by the other's user, and what one shows as delivered was opened by the other's client. A client's
  sessions are run together with a diary of what it queued, composed and opened, and of what its storage
  made up. The relay is anything that cannot forge: a client's signature it hands on, that client made.
\<close>

section \<open>What a client signs\<close>

text \<open>The decrypted contents of a blob: the author's key, the signature, and the signed rest.\<close>

definition opened :: "'z crypto_ext_scheme \<Rightarrow> identity \<Rightarrow> bytes \<Rightarrow> bytes option" where
  "opened X reader blob =
     (let eph_pub = take 32 (drop 1 blob); nonce = take NONCE_LEN (drop 33 blob)
      in aead_decrypt X (derive_key X (x25519_mult X (id_x25519_priv reader) eph_pub) eph_pub (id_x25519_pub reader))
           nonce (aad (blob ! 0) eph_pub nonce (public_key reader)) (drop (33 + NONCE_LEN) blob))"

lemma decrypt_opened:
  assumes "decrypt X i blob = Ok d"
  obtains inner where "opened X i blob = Some inner" "open_inner X i inner = Ok d"
proof -
  have len: "\<not> length blob < MIN_BLOB_LEN" "blob \<noteq> []" using assms by (auto simp: decrypt_def size_caps split: if_splits)
  then have sl: "slice 1 33 blob = Ok (take 32 (drop 1 blob))" "slice 33 (33 + NONCE_LEN) blob = Ok (take NONCE_LEN (drop 33 blob))"
    "slice (33 + NONCE_LEN) (length blob) blob = Ok (drop (33 + NONCE_LEN) blob)"
    by (simp_all add: slice_def size_caps)
  show thesis
    by (rule that [of "the (opened X i blob)"])
      (use assms len sl in \<open>auto simp: decrypt_def opened_def x25519_def Let_def split: if_splits option.splits\<close>)
qed

lemma open_inner_parts:
  assumes "open_inner X i inner = Ok d"
  shows "sender_hex d = hex_encode X (take 32 inner)" "length (take 32 inner) = 32"
    "ed_verify_strict X (take 32 inner) (msg_signed (public_key i) (drop 96 inner)) (take 64 (drop 32 inner))"
    "decompress X (take (from_be32 (take 4 (drop 96 inner))) (drop 100 inner)) = Ok (plaintext d)"
  using assms by (auto simp: open_inner_def Let_def slice_def split: if_splits)

text \<open>A piece of mail is an outbox item without its retry bookkeeping: the recipient and the payload.
  \<open>seals_as\<close> is the message whose signature \<open>encrypt\<close> puts into a blob for it, whatever the padding.\<close>

type_synonym mail = "ustr \<times> ustr"

definition mail_of :: "outbox_item \<Rightarrow> mail" where
  "mail_of i = (o_recipient i, o_envelope_json i)"

definition mails :: "model \<Rightarrow> mail set" where
  "mails m = mail_of ` set (outbox m)"

definition seals_as :: "'z crypto_ext_scheme \<Rightarrow> mail \<Rightarrow> bytes \<Rightarrow> bool" where
  "seals_as X ml msg \<longleftrightarrow>
     (\<exists>rp c padding. hex_decode X (fst ml) = Some rp \<and> length rp = 32 \<and>
        length (utf8_encode (snd ml)) \<le> MAX_PLAINTEXT_LEN \<and> zstd_encode X (utf8_encode (snd ml)) = Some c \<and>
        msg = msg_signed rp (be32 (length c) @ c @ padding))"

definition signs :: "'z crypto_ext_scheme \<Rightarrow> mail set \<Rightarrow> bytes \<Rightarrow> bool" where
  "signs X Q msg \<longleftrightarrow> (\<exists>host challenge. msg = auth_message host challenge) \<or> (\<exists>ml\<in>Q. seals_as X ml msg)"

text \<open>What the relay hands to \<open>reader\<close> holds no forged signature of \<open>author\<close>.\<close>

definition unforged :: "'z crypto_ext_scheme \<Rightarrow> identity \<Rightarrow> mail set \<Rightarrow> identity \<Rightarrow> poll_event \<Rightarrow> bool" where
  "unforged X author Q reader ev \<longleftrightarrow>
     (\<forall>blob inner. hex_decode X (pe_encrypted_blob ev) = Some blob \<longrightarrow> opened X reader blob = Some inner \<longrightarrow>
        take 32 inner = public_key author \<longrightarrow>
        ed_verify_strict X (public_key author) (msg_signed (public_key reader) (drop 96 inner)) (take 64 (drop 32 inner)) \<longrightarrow>
        signs X Q (msg_signed (public_key reader) (drop 96 inner)))"

text \<open>An event that opens to a payload of the author is a queued piece of the author's mail, for this
  reader's key, with that payload.\<close>

lemma unforged_is_mail:
  assumes ok: "protocol_ext_ok X" "identity_ok X author" "identity_ok X reader"
    and ev: "unforged X author Q reader ev" "event_payload X reader ev (public_key_hex X author) p"
  shows "\<exists>ml\<in>Q. hex_decode X (fst ml) = Some (public_key reader) \<and>
    (\<exists>parsed. parse_payload X (utf8_encode (snd ml)) = Some parsed \<and> pp_payload parsed = p)"
proof -
  have c: "crypto_ext_ok X" using ok(1) by (simp add: protocol_ext_ok_def)
  obtain blob dec parsed where e: "hex_decode X (pe_encrypted_blob ev) = Some blob" "decrypt X reader blob = Ok dec"
    "sender_hex dec = public_key_hex X author" "parse_payload X (plaintext dec) = Some parsed" "pp_payload parsed = p"
    using ev(2) by (auto simp: event_payload_def)
  obtain inner where i: "opened X reader blob = Some inner" "open_inner X reader inner = Ok dec"
    using decrypt_opened [OF e(2)] .
  note parts = open_inner_parts [OF i(2)]
  have key: "take 32 inner = public_key author"
    using parts(1) e(3) ok_phonemic [OF c] by (metis phonemic_ext_ok_def option.inject public_key_hex_def)
  let ?rest = "drop 96 inner"
  have "signs X Q (msg_signed (public_key reader) ?rest)"
    using ev(1) e(1) i(1) key parts(3) by (auto simp: unforged_def)
  then obtain ml where ml: "ml \<in> Q" "seals_as X ml (msg_signed (public_key reader) ?rest)"
    by (auto simp: signs_def auth_and_message_signatures_differ [THEN not_sym])
  then obtain rp z padding where z: "hex_decode X (fst ml) = Some rp" "length rp = 32"
    "length (utf8_encode (snd ml)) \<le> MAX_PLAINTEXT_LEN" "zstd_encode X (utf8_encode (snd ml)) = Some z"
    "msg_signed (public_key reader) ?rest = msg_signed rp (be32 (length z) @ z @ padding)"
    by (auto simp: seals_as_def)
  have rest: "rp = public_key reader" "?rest = be32 (length z) @ z @ padding"
    using z(2,5) identity_lengths [OF ok(3)] by (auto simp: msg_signed_def)
  note small = zstd_small [OF c z(3,4)]
  have "drop 100 inner = z @ padding"
    using arg_cong [OF rest(2), of "drop 4"] by simp
  then have "decompress X z = Ok (plaintext dec)"
    using parts(4) rest(2) small(2) by (simp add: from_be32_be32)
  then have "plaintext dec = utf8_encode (snd ml)"
    using small(3) z(3) by (simp add: decompress_def)
  with ml(1) z(1) rest(1) e(4,5) show ?thesis by auto
qed

text \<open>The mail a client seals is not forged: the blob it makes opens to a signature of a message of that
  mail.\<close>

lemma encrypt_opens:
  assumes ok: "crypto_ext_ok X" "identity_ok X sender" "identity_ok X reader"
    and e: "encrypt X r sender (public_key reader) pt = Ok blob"
  shows "\<exists>c padding. length pt \<le> MAX_PLAINTEXT_LEN \<and> zstd_encode X pt = Some c \<and>
    (\<exists>sig. length sig = 64 \<and> opened X reader blob = Some (public_key sender @ sig @ be32 (length c) @ c @ padding))"
proof -
  let ?eph = "fst (fill_bytes 32 r)"
  let ?ep = "x25519_mult X ?eph (x25519_basepoint X)"
  from e obtain recip_x c padding nonce ct where
    p: "length pt \<le> MAX_PLAINTEXT_LEN" "ed25519_pk_to_x25519 X (public_key reader) = Ok recip_x"
    "zstd_encode X pt = Some c" "length nonce = 24" and
    ct: "aead_encrypt X (derive_key X (x25519_mult X ?eph recip_x) ?ep recip_x)
       nonce (aad WIRE_VERSION ?ep nonce (public_key reader))
       (public_key sender @
        ed_sign X (signing_seed sender) (msg_signed (public_key reader) (be32 (length c) @ c @ padding)) @
        be32 (length c) @ c @ padding) = Some ct" and
    b: "blob = WIRE_VERSION # ?ep @ nonce @ ct"
    by (rule encrypt_Ok_parts)
  have rx: "recip_x = id_x25519_pub reader"
    using p(2) identity_montgomery [OF ok(1,3)] by (auto simp: ed25519_pk_to_x25519_def split: if_splits)
  have "x25519_mult X ?eph recip_x = x25519_mult X (id_x25519_priv reader) ?ep"
    using ok(3) ok_agree [OF ok(1)] unfolding rx by (simp add: identity_ok_def)
  moreover have "take 32 (drop 1 blob) = ?ep" "take NONCE_LEN (drop 33 blob) = nonce" "drop (33 + NONCE_LEN) blob = ct"
    using b p(4) ok_mult [OF ok(1)] by (simp_all add: size_caps)
  ultimately have "opened X reader blob = Some (public_key sender @
      ed_sign X (signing_seed sender) (msg_signed (public_key reader) (be32 (length c) @ c @ padding)) @
      be32 (length c) @ c @ padding)"
    using ok_aead [OF ok(1) ct] b rx by (simp add: opened_def Let_def)
  then show ?thesis
    using p(1,3) ok_sign [OF ok(1) identity_lengths(1) [OF ok(2)]] by blast
qed

lemma sealed_unforged:
  assumes ok: "protocol_ext_ok X" "identity_ok X author" "identity_ok X reader"
    and i: "sealed X author i e" "o_recipient i = public_key_hex X reader" "mail_of i \<in> Q"
  shows "unforged X author Q reader \<lparr>pe_encrypted_blob = encrypted_blob e\<rparr>"
proof -
  have c: "crypto_ext_ok X" and hex: "hex_decode X (hex_encode X b) = Some b" for b
    using ok(1) by (simp_all add: protocol_ext_ok_def crypto_ext_ok_def phonemic_ext_ok_def)
  obtain r blob where b: "encrypt_for X r author i = Some blob" "encrypted_blob e = hex_encode X blob"
    using i(1) by (auto simp: sealed_def)
  have rp: "hex_decode X (o_recipient i) = Some (public_key reader)" "length (public_key reader) = 32"
    using hex identity_lengths [OF ok(3)] i(2) by (simp_all add: public_key_hex_def)
  then have "encrypt X r author (public_key reader) (utf8_encode (o_envelope_json i)) = Ok blob"
    using b(1) by (auto simp: encrypt_for_def split: outcome.splits)
  from encrypt_opens [OF c ok(2,3) this] obtain z padding sig where
    z: "length (utf8_encode (o_envelope_json i)) \<le> MAX_PLAINTEXT_LEN" "zstd_encode X (utf8_encode (o_envelope_json i)) = Some z"
    "length sig = 64" "opened X reader blob = Some (public_key author @ sig @ be32 (length z) @ z @ padding)" by blast
  have "seals_as X (mail_of i) (msg_signed (public_key reader) (be32 (length z) @ z @ padding))"
    using rp z(1,2) by (auto simp: seals_as_def mail_of_def)
  then show ?thesis
    using i(3) z(3,4) b(2) hex identity_lengths [OF ok(2)] by (auto simp: unforged_def signs_def)
qed

section \<open>The diary of a session\<close>

record diary =
  queued :: "mail set"
  foreign_mail :: "mail set"
  wrote :: "(ustr \<times> ustr \<times> ustr) set"
  opened_texts :: "(ustr \<times> ustr) set"

definition blank_diary :: diary where
  "blank_diary = \<lparr>queued = {}, foreign_mail = {}, wrote = {}, opened_texts = {}\<rparr>"

text \<open>The user pressed send on this text, with this id, in the chat with this peer.\<close>

definition composes :: "env \<Rightarrow> event \<Rightarrow> model \<Rightarrow> (ustr \<times> ustr \<times> ustr) set" where
  "composes E ev m =
     (case (ev, active_peer m) of (SendText, Some peer) \<Rightarrow> {(peer, uuid E, trim (compose m))} | _ \<Rightarrow> {})"

text \<open>Mail that storage returns although this client never queued it.\<close>

definition intrudes :: "'z app_ext_scheme \<Rightarrow> event \<Rightarrow> diary \<Rightarrow> mail set" where
  "intrudes X ev d =
     (case ev of LoadedOutbox res \<Rightarrow>
        (case parse_kv (de_outbox X) res of Inr (Some q) \<Rightarrow> mail_of ` set q - queued d | _ \<Rightarrow> {})
      | _ \<Rightarrow> {})"

text \<open>The texts of a page that open under the client's key: the peer who signed it, and the id.\<close>

definition page_texts :: "'z app_ext_scheme \<Rightarrow> identity \<Rightarrow> poll_resp \<Rightarrow> (ustr \<times> ustr) set" where
  "page_texts X ident pg = {(p, i). \<exists>e\<in>set (pr_events pg). \<exists>body. event_payload X ident e p (Text i body)}"

definition opens :: "'z app_ext_scheme \<Rightarrow> event \<Rightarrow> model \<Rightarrow> (ustr \<times> ustr) set" where
  "opens X ev m =
     (case ev of PollResult g (Inr resp) \<Rightarrow>
        (case (identity_of X m, de_poll X (take_body resp)) of
           (Some ident, Some pg) \<Rightarrow> page_texts X ident pg | _ \<Rightarrow> {})
      | _ \<Rightarrow> {})"

definition entry :: "'z app_ext_scheme \<Rightarrow> env \<Rightarrow> event \<Rightarrow> model \<Rightarrow> diary \<Rightarrow> diary" where
  "entry X E ev m d =
     \<lparr>queued = queued d \<union> mails (fst (update X E ev m)), foreign_mail = foreign_mail d \<union> intrudes X ev d,
      wrote = wrote d \<union> composes E ev m, opened_texts = opened_texts d \<union> opens X ev m\<rparr>"

text \<open>Every \<open>String\<close> a step reads holds Unicode scalar values, as the Rust type says.\<close>

definition unicode :: "env \<Rightarrow> event \<Rightarrow> model \<Rightarrow> bool" where
  "unicode E ev m \<longleftrightarrow>
     list_all is_scalar (uuid E) \<and> list_all is_scalar (compose m) \<and> payload_wf (own_profile_payload m) \<and>
     (case ev of SaveProfile n b ph \<Rightarrow> payload_wf (Profile (Some n) (Some b) ph) | _ \<Rightarrow> True)"

text \<open>A client's life: sessions one after the other, each a run, with one diary for them all.\<close>

inductive journal :: "'z app_ext_scheme \<Rightarrow> model \<Rightarrow> cmd multiset \<Rightarrow> diary \<Rightarrow> bool" for X where
  start: "journal X model_default {#} blank_diary"
| user: "journal X m P d \<Longrightarrow> from_shell ev \<Longrightarrow> unicode E ev m \<Longrightarrow>
    journal X (fst (update X E ev m)) (P + mset (snd (update X E ev m))) (entry X E ev m d)"
| answer: "journal X m (add_mset c P) d \<Longrightarrow> responds c ev \<Longrightarrow> unicode E ev m \<Longrightarrow>
    journal X (fst (update X E ev m)) (P + mset (snd (update X E ev m))) (entry X E ev m d)"
| lost: "journal X m (add_mset c P) d \<Longrightarrow> journal X m P d"
| restart: "journal X m P d \<Longrightarrow> journal X model_default {#} d"

lemma journal_reach: "journal X m P d \<Longrightarrow> \<exists>n. reach X n m P"
  by (induction rule: journal.induct) (auto intro: reach.intros)

section \<open>Where mail comes from\<close>

text \<open>A payload a client may queue for a recipient: a text its user composed for them, receipts for texts
  of theirs it opened, or its profile.\<close>

fun due_to :: "diary \<Rightarrow> ustr \<Rightarrow> payload \<Rightarrow> bool" where
  "due_to d r (Text i body) = ((r, i, body) \<in> wrote d)"
| "due_to d r (DeliveryAck ids) = (\<forall>i\<in>set ids. (r, i) \<in> opened_texts d)"
| "due_to d r (Profile n b ph) = True"

definition penned :: "'z app_ext_scheme \<Rightarrow> diary \<Rightarrow> mail \<Rightarrow> bool" where
  "penned X d ml \<longleftrightarrow>
     (\<exists>p ts. snd ml = serialize_payload X p ts \<and> payload_wf p \<and> in_i64 ts \<and> due_to d (fst ml) p)"

definition traced :: "'z app_ext_scheme \<Rightarrow> diary \<Rightarrow> mail \<Rightarrow> bool" where
  "traced X d ml \<longleftrightarrow> ml \<in> foreign_mail d \<or> penned X d ml"

lemma mails_simps [simp]:
  "outbox m = q @ new \<Longrightarrow> mails m = mail_of ` set q \<union> mail_of ` set new"
  "mail_of (outbox_item_new r e) = (r, e)" "mail_of (outbox_item_profile r e) = (r, e)"
  by (simp_all add: mails_def mail_of_def image_Un)

lemma penned_profile:
  "payload_wf (own_profile_payload m) \<Longrightarrow> in_i64 ts \<Longrightarrow> penned X d (r, serialize_payload X (own_profile_payload m) ts)"
  unfolding penned_def by (intro exI [of _ "own_profile_payload m"] exI [of _ ts]) (simp add: own_profile_payload_def)

subsection \<open>Receiving\<close>

definition pens_page :: "'z app_ext_scheme \<Rightarrow> diary \<Rightarrow> own_profile \<Rightarrow> ingest \<Rightarrow> bool" where
  "pens_page X d own s \<longleftrightarrow>
     (\<forall>ml\<in>mails (i_model s). traced X d ml) \<and> profile (i_model s) = own \<and>
     (\<forall>(p, ids)\<in>set (i_ack_targets s). \<forall>i\<in>set ids. list_all is_scalar i \<and> (p, i) \<in> opened_texts d)"

lemma set_bt_insert: "set (bt_insert k v m) \<subseteq> insert (k, v) (set m)"
  by (induction k v m rule: bt_insert.induct) auto

lemma pens_store:
  assumes "pens_page X d own s" "list_all is_scalar i" "(sender, i) \<in> opened_texts d"
  shows "pens_page X d own (store_text E sender ts i body s)"
proof -
  define ids where "ids = or_default [] (bt_get (i_ack_targets s) sender) @ [i]"
  have "\<forall>j\<in>set ids. list_all is_scalar j \<and> (sender, j) \<in> opened_texts d"
    using assms bt_get_in_set [of "i_ack_targets s" sender]
    by (cases "bt_get (i_ack_targets s) sender") (auto simp: ids_def or_default_def pens_page_def)
  then have "\<forall>(p, js)\<in>set (bt_insert sender ids (i_ack_targets s)). \<forall>j\<in>set js. list_all is_scalar j \<and> (p, j) \<in> opened_texts d"
    using assms(1) set_bt_insert [of sender ids "i_ack_targets s"] unfolding pens_page_def by blast
  then show ?thesis
    using assms(1) by (simp add: pens_page_def store_text_def mails_def Let_def flip: ids_def)
qed

lemma pens_greet:
  assumes "pens_page X d (profile m) s" "payload_wf (own_profile_payload m)" "in_i64 ts"
  shows "pens_page X d (profile m) (greet_stranger X sender ts s)"
proof -
  have "own_profile_payload (i_model s) = own_profile_payload m"
    using assms(1) by (simp add: pens_page_def own_profile_payload_def)
  then have "traced X d (sender, serialize_payload X (own_profile_payload (i_model s)) ts)"
    using penned_profile [OF assms(2,3), of X d sender] by (simp add: traced_def)
  with assms(1) show ?thesis by (auto simp: pens_page_def greet_stranger_def mails_def mail_of_def Let_def)
qed

lemma clamped_ts: "in_i64 t \<Longrightarrow> in_i64 (min (max t 0) (sat_add now d))"
  by (auto simp: in_i64_def sat_add_def sat_i64_def i64_min_def i64_max_def)

lemma pens_payload:
  assumes "pens_page X d (profile m) s" "payload_wf (own_profile_payload m)" "in_i64 (pp_ts parsed)"
    and "payload_wf (pp_payload parsed)" "\<And>i body. pp_payload parsed = Text i body \<Longrightarrow> (sender, i) \<in> opened_texts d"
  shows "pens_page X d (profile m) (ingest_payload X E now sender parsed s)"
  using assms(1)
proof (intro ingest_payload_invariant [where P = "pens_page X d (profile m)"]
    ingest_text_invariant [where P = "pens_page X d (profile m)"], goal_cases)
  case (3 ts i body s')
  then show ?case by (intro pens_greet assms(2)) (simp_all add: clamped_ts assms(3))
next
  case (4 ts i body s')
  then show ?case using assms(4,5) by (intro pens_store) (simp_all add: payload_wf_def)
next
  case (5 ts ids)
  then show ?case by (simp add: pens_page_def ingest_ack_def mails_def Let_def)
next
  case (6 ts n b ph)
  then show ?case by (auto simp: pens_page_def ingest_profile_def mails_def Let_def split: option.split)
qed auto

lemma pens_events:
  assumes "protocol_ext_ok X" "payload_wf (own_profile_payload m)" "page_texts X ident pg \<subseteq> opened_texts d"
    and "\<forall>ml\<in>mails m. traced X d ml"
  shows "pens_page X d (profile m) (ingest_events X E ident prev now (pr_events pg) (ingest_start m))"
proof (rule ingest_events_invariant [where P = "pens_page X d (profile m)"])
  fix s ev blob dec parsed
  assume s: "pens_page X d (profile m) s" and ev: "ev \<in> set (pr_events pg)" "hex_decode X (pe_encrypted_blob ev) = Some blob"
    "decrypt X ident blob = Ok dec" "parse_payload X (plaintext dec) = Some parsed"
  have "(sender_hex dec, i) \<in> opened_texts d" if "pp_payload parsed = Text i body" for i body
    using that ev assms(3) by (fastforce simp: page_texts_def event_payload_def)
  then show "pens_page X d (profile m) (ingest_payload X E now (sender_hex dec) parsed s)"
    using s parse_payload_bounds [OF ev(4)] parse_payload_wf [OF assms(1) ev(4)] by (intro pens_payload assms(2)) auto
qed (use assms(4) in \<open>simp_all add: pens_page_def ingest_start_def stop_page_def mails_def Let_def\<close>)

lemma ack_items_penned:
  assumes "\<forall>i\<in>set ids. list_all is_scalar i \<and> (p, i) \<in> opened_texts d" "in_i64 t" "a \<in> set (ack_items X t p ids)"
  shows "penned X d (mail_of a)"
proof -
  obtain b where b: "b \<in> set (chunks MAX_ACK_IDS ids)" "a = outbox_item_new p (serialize_payload X (DeliveryAck b) t)"
    using assms(3) by (auto simp: ack_items_def)
  have "set b \<subseteq> set (concat (chunks MAX_ACK_IDS ids))" using b(1) by auto
  also have "\<dots> = set ids" by (subst concat_chunks) (simp_all add: size_caps)
  finally have "payload_wf (DeliveryAck b)" "due_to d p (DeliveryAck b)"
    using assms(1) by (auto simp: payload_wf_def list_all_iff)
  then show ?thesis
    unfolding penned_def by (intro exI [of _ "DeliveryAck b"] exI [of _ t]) (use assms(2) b(2) in simp)
qed

lemma traced_ingest:
  assumes "protocol_ext_ok X" "payload_wf (own_profile_payload m)" "\<forall>ml\<in>mails m. traced X d ml"
    and "\<And>ident. identity_of X m = Some ident \<Longrightarrow> page_texts X ident pg \<subseteq> opened_texts d"
  shows "\<forall>ml\<in>mails (fst (ingest_poll X E pg m)). traced X d ml"
proof (cases X E pg m rule: ingest_poll_cases)
  case (page ident s)
  let ?m = "adopt_cursor E pg m"
  define s1 where "s1 = apply_acks E (now_ms E 1) (ingest_events X E ident (cursor m) (now_ms E 1) (pr_events pg) (ingest_start ?m))"
  have prof: "profile ?m = profile m" by (simp add: adopt_cursor_def Let_def)
  have "pens_page X d (profile ?m) (ingest_events X E ident (cursor m) (now_ms E 1) (pr_events pg) (ingest_start ?m))"
    using assms page(2) prof by (intro pens_events) (simp_all add: own_profile_payload_def mails_def)
  then have "pens_page X d (profile ?m) s1"
    unfolding s1_def
    by (rule apply_acks_invariant [where P = "pens_page X d (profile ?m)"])
      (auto simp: pens_page_def apply_ack_def mails_def Let_def)
  then have "\<forall>ml\<in>mails (i_model s1). traced X d ml"
    "a \<in> set (ack_items X (now_ms E 2) p ids) \<Longrightarrow> (p, ids) \<in> set (i_ack_targets s1) \<Longrightarrow> traced X d (mail_of a)" for a p ids
    using ack_items_penned [of ids p d "now_ms E 2" a X] by (auto simp: pens_page_def traced_def)
  then show ?thesis
    unfolding page(5) page(3) ingest_page_def Let_def s1_def [symmetric]
    by (auto simp: queue_acks_def mails_def Let_def)
qed (use assms(3) in \<open>simp_all add: mails_def\<close>)

subsection \<open>Sending and composing\<close>

lemma mails_unstamped: "mail_of ` set q = mail_of ` set (map unstamped q)"
  by (force simp: mail_of_def unstamped_def image_image)

lemma mails_flush: "mails (fst (flush_next X E m)) \<subseteq> mails m"
proof -
  obtain q where q: "subseq q (outbox m)" "map unstamped (outbox (fst (flush_next X E m))) = map unstamped q"
    using flush_queue by blast
  have "mails (fst (flush_next X E m)) = mail_of ` set q"
    using mails_unstamped q(2) unfolding mails_def by metis
  moreover have "set q \<subseteq> set (outbox m)" using q(1) by (auto elim: list_emb_set)
  ultimately show ?thesis by (auto simp: mails_def)
qed

lemma mails_charge: "mail_of ` set (snd (charge_batch now n q)) \<subseteq> mail_of ` set q"
  by (induction now n q rule: charge_batch.induct) (auto simp: Let_def case_prod_unfold mail_of_def)

lemma mails_retry: "mails (fst (retry_batch X E bt m)) \<subseteq> mails m"
proof (cases bt)
  case (Some f)
  obtain k kept where ck: "charge_batch (now_ms E 0) (f_count f) (outbox m) = (k, kept)" by fastforce
  have kept: "mail_of ` set kept \<subseteq> mails m" using mails_charge [of "now_ms E 0" "f_count f" "outbox m"] ck by (simp add: mails_def)
  have "mails (fst (flush_next X E' (m\<lparr>outbox := kept, error := e\<rparr>))) \<subseteq> mails m" for E' e
    using mails_flush [of X E' "m\<lparr>outbox := kept, error := e\<rparr>"] kept by (simp add: mails_def)
  then show ?thesis
    using Some ck kept by (cases "k = 0") (simp_all add: retry_batch_def case_prod_unfold Let_def, simp add: mails_def)
qed (simp add: retry_batch_def)

lemma mails_finished: "mails (fst (on_send_finished X E bt m)) \<subseteq> mails m"
proof -
  have "mails (fst (flush_next X E (m\<lparr>send_retries := 0, outbox := drop n (outbox m)\<rparr>))) \<subseteq> mails m" for n
    using mails_flush [of X E "m\<lparr>send_retries := 0, outbox := drop n (outbox m)\<rparr>"] set_drop_subset [of n "outbox m"]
    by (auto simp: mails_def)
  moreover have "mails (m\<lparr>send_retries := 0, error := e\<rparr>) = mails m" for e by (simp add: mails_def)
  ultimately show ?thesis by (simp add: on_send_finished_def case_prod_unfold Let_def)
qed

lemma mails_send:
  "mails (fst (on_send_response X E g resp m)) \<subseteq> mails m" "mails (fst (on_send_error X E g m)) \<subseteq> mails m"
  "mails (fst (on_flush_watchdog X E g m)) \<subseteq> mails m"
proof -
  have same: "mails (m\<lparr>flushing := False, in_flight := None\<rparr>) = mails m" by (simp add: mails_def)
  have "mails (fst (on_rate_limited E resp m1)) = mails m1" for m1
    by (simp add: on_rate_limited_def mails_def split: option.split)
  moreover have "mails (fst (flush_next X E (m\<lparr>flushing := False, in_flight := None, send_batch_budget := b\<rparr>))) \<subseteq> mails m" for b
    using mails_flush [of X E "m\<lparr>flushing := False, in_flight := None, send_batch_budget := b\<rparr>"] by (simp add: mails_def)
  ultimately show "mails (fst (on_send_response X E g resp m)) \<subseteq> mails m"
    using mails_retry [of X E "in_flight m" "m\<lparr>flushing := False, in_flight := None\<rparr>"]
      mails_finished [of X E "in_flight m" "m\<lparr>flushing := False, in_flight := None\<rparr>"]
    by (simp add: on_send_response_def Let_def same) (simp add: mails_def)
  show "mails (fst (on_send_error X E g m)) \<subseteq> mails m"
    using mails_retry [of X E "in_flight m" "m\<lparr>flushing := False, in_flight := None\<rparr>"] by (simp add: on_send_error_def same)
  show "mails (fst (on_flush_watchdog X E g m)) \<subseteq> mails m"
    using mails_flush [of X E "abandon_flush m"] by (simp add: on_flush_watchdog_def) (simp add: mails_def abandon_flush_def)
qed

lemma mails_queue_profile:
  "mail_of ` set (queue_profile live pj p q) \<subseteq> mail_of ` set q \<union> {(p, pj)}"
proof (cases "update_first (\<lambda>i. is_profile i \<and> o_recipient i = p) (\<lambda>i. i\<lparr>o_envelope_json := pj\<rparr>) (drop live q)")
  case (Some behind)
  from update_first_Some [OF Some] obtain us x vs where u: "drop live q = us @ x # vs" "o_recipient x = p"
    "behind = us @ x\<lparr>o_envelope_json := pj\<rparr> # vs" by blast
  have "set (us @ x # vs) \<subseteq> set q" using u(1) set_drop_subset [of live q] by simp
  then show ?thesis using Some u(2,3) set_take_subset [of live q] by (auto simp: queue_profile_def mail_of_def)
qed (auto simp: queue_profile_def)

lemma mails_broadcast:
  "mails (broadcast_profile X ts m) \<subseteq> mails m \<union> range (\<lambda>r. (r, serialize_payload X (own_profile_payload m) ts))"
proof -
  have "mail_of ` set (fold (queue_profile live pj) ps q) \<subseteq> mail_of ` set q \<union> range (\<lambda>r. (r, pj))" for live pj ps q
  proof (induction ps arbitrary: q)
    case (Cons p ps)
    have "mail_of ` set q \<union> {(p, pj)} \<union> range (\<lambda>r. (r, pj)) = mail_of ` set q \<union> range (\<lambda>r. (r, pj))" by blast
    then show ?case
      using Cons.IH [of "queue_profile live pj p q"] mails_queue_profile [of live pj p q] by (simp del: Un_insert_right) blast
  qed simp
  then show ?thesis by (simp add: broadcast_profile_def Let_def mails_def)
qed

subsection \<open>Every event\<close>

lemma traced_mono:
  assumes "traced X d ml" "foreign_mail d \<subseteq> foreign_mail d'" "wrote d \<subseteq> wrote d'" "opened_texts d \<subseteq> opened_texts d'"
  shows "traced X d' ml"
proof -
  have "due_to d r p \<Longrightarrow> due_to d' r p" for r p
    using assms(3,4) by (cases p) auto
  with assms(1,2) show ?thesis unfolding traced_def penned_def by blast
qed

lemma trim_scalar: "list_all is_scalar s \<Longrightarrow> list_all is_scalar (trim s)"
  unfolding trim_def list_all_iff by (auto dest!: set_dropWhileD)

lemma traced_send_text:
  assumes "unicode E SendText m" "\<forall>ml\<in>mails m. traced X d ml" "composes E SendText m \<subseteq> wrote d"
  shows "\<forall>ml\<in>mails (fst (send_text X E m)). traced X d ml"
proof (cases "active_peer m")
  case (Some peer)
  have "penned X d (peer, serialize_payload X (Text (uuid E) (trim (compose m))) (now_ms E 0))"
    unfolding penned_def
    by (intro exI [of _ "Text (uuid E) (trim (compose m))"] exI [of _ "now_ms E 0"])
      (use assms(1,3) Some trim_scalar in \<open>simp add: unicode_def composes_def payload_wf_def\<close>)
  moreover have "penned X d (peer, serialize_payload X (own_profile_payload m) (now_ms E 0))"
    using assms(1) by (intro penned_profile) (simp_all add: unicode_def)
  ultimately show ?thesis
    using assms(2) Some
    by (auto simp: send_text_def compose_text_def own_profile_payload_def err_def mails_def mail_of_def traced_def Let_def case_prod_unfold)
qed (use assms(2) in \<open>simp add: send_text_def\<close>)

lemma traced_save_profile:
  assumes "\<forall>ml\<in>mails m. traced X d ml" "payload_wf (Profile (Some n) (Some b) ph)"
  shows "\<forall>ml\<in>mails (fst (on_save_profile X E n b ph m)). traced X d ml"
proof -
  define m2 where "m2 = m\<lparr>error := None, profile := \<lparr>op_display_name = n, op_bio = b, op_photo = ph\<rparr>, page := Conversations\<rparr>"
  have "traced X d (r, serialize_payload X (own_profile_payload m2) (now_ms E 0))" for r
    using penned_profile [of m2 "now_ms E 0" X d r] assms(2) by (simp add: traced_def m2_def own_profile_payload_def)
  moreover have "mails m2 = mails m" by (simp add: m2_def mails_def)
  ultimately have "\<forall>ml\<in>mails (broadcast_profile X (now_ms E 0) m2). traced X d ml"
    using mails_broadcast [of X "now_ms E 0" m2] assms(1) by blast
  then show ?thesis
    using assms(1) by (simp add: on_save_profile_def err_def mails_def case_prod_unfold Let_def flip: m2_def)
qed

lemma update_traced:
  assumes "protocol_ext_ok X" "unicode E ev m" "\<forall>ml\<in>queued d0. traced X d0 ml" "mails m \<subseteq> queued d0"
    and "d = entry X E ev m d0"
  shows "\<forall>ml\<in>mails (fst (update X E ev m)). traced X d ml"
proof -
  have known: "\<forall>ml\<in>queued d0. traced X d ml"
    using assms(3,5) by (auto simp: entry_def intro: traced_mono)
  then have old: "\<forall>ml\<in>mails m. traced X d ml" using assms(4) by blast
  have same: "\<forall>ml\<in>mails m'. traced X d ml" if "mails m' \<subseteq> mails m" for m' using old that by blast
  show ?thesis
  proof (cases ev)
    case (LoadedOutbox r)
    have "ml \<in> queued d0 \<or> ml \<in> foreign_mail d" if "parse_kv (de_outbox X) r = Inr (Some q)" "ml \<in> mail_of ` set q" for q ml
      using that LoadedOutbox assms(5) by (auto simp: entry_def intrudes_def)
    with known have new: "traced X d (mail_of i)" if "parse_kv (de_outbox X) r = Inr (Some q)" "i \<in> set q" for q i
      using that unfolding traced_def by blast
    then show ?thesis
      using LoadedOutbox old
      by (auto simp: on_loaded_outbox_def then_startup_done_def startup_done_def startup_load_done_def load_failed_def err_def
          mails_def Let_def case_prod_unfold split: sum.splits option.splits if_splits)
  next
    case (SaveProfile n b ph)
    then have "payload_wf (Profile (Some n) (Some b) ph)" using assms(2) by (simp add: unicode_def)
    from traced_save_profile [OF old this] SaveProfile show ?thesis by simp
  next
    case SendText
    then show ?thesis using traced_send_text [OF _ old] assms(2,5) by (simp add: entry_def)
  next
    case (SendResult g r)
    then show ?thesis using same [OF mails_send(1)] same [OF mails_send(2)] by (cases r) simp_all
  next
    case (PollResult g r)
    have "\<forall>ml\<in>mails (fst (ingest_poll X E pg (m\<lparr>polling := False, poll_retries := 0\<rparr>))). traced X d ml"
      if "r = Inr resp" "de_poll X (take_body resp) = Some pg" for resp pg
      using that assms(2,5) old PollResult
      by (intro traced_ingest [OF assms(1)])
        (auto simp: unicode_def own_profile_payload_def mails_def identity_of_def entry_def opens_def)
    then show ?thesis
      using PollResult old
      by (auto simp: on_poll_result_def on_poll_page_def backoff_poll_def err_def Let_def case_prod_unfold mails_def
          split: sum.split option.split)
  qed (use same [OF mails_flush] same [OF mails_send(3)] in \<open>simp_all\<close>,
      use old in \<open>simp_all add: handler_unfold next_gen_defs Let_def case_prod_unfold mails_def
        split: option.split outcome.split sum.split\<close>)
qed

lemma opens_hex: "(p, i) \<in> opens X ev m \<Longrightarrow> \<exists>k. p = hex_encode X k"
proof -
  assume "(p, i) \<in> opens X ev m"
  then obtain ident e body where "event_payload X ident e p (Text i body)"
    by (auto simp: opens_def page_texts_def split: event.splits sum.splits option.splits)
  then obtain blob dec where "decrypt X ident blob = Ok dec" "sender_hex dec = p" by (auto simp: event_payload_def)
  then show ?thesis using decrypt_opened open_inner_parts(1) by metis
qed

lemma journal_entry:
  assumes "protocol_ext_ok X"
    and "mails m \<subseteq> queued d \<and> (\<forall>ml\<in>queued d. traced X d ml) \<and> (\<forall>(p, i)\<in>opened_texts d. \<exists>k. p = hex_encode X k)"
    and "unicode E ev m"
  shows "mails (fst (update X E ev m)) \<subseteq> queued (entry X E ev m d) \<and> (\<forall>ml\<in>queued (entry X E ev m d). traced X (entry X E ev m d) ml) \<and>
    (\<forall>(p, i)\<in>opened_texts (entry X E ev m d). \<exists>k. p = hex_encode X k)"
proof -
  have "\<forall>ml\<in>mails (fst (update X E ev m)). traced X (entry X E ev m d) ml"
    using assms(2) by (intro update_traced [OF assms(1,3) _ _ refl]) blast+
  moreover have "\<forall>ml\<in>queued d. traced X (entry X E ev m d) ml"
    using assms(2) by (auto simp: entry_def intro: traced_mono)
  moreover have "\<forall>(p, i)\<in>opened_texts (entry X E ev m d). \<exists>k. p = hex_encode X k"
    using assms(2) opens_hex [of _ _ X ev m] by (fastforce simp: entry_def)
  ultimately show ?thesis by (simp add: entry_def ball_Un del: update.simps)
qed

text \<open>All mail a client ever queued was penned or made up by its storage; the texts it opened carry the
  spelling of a key.\<close>

lemma journal_traced:
  assumes "protocol_ext_ok X"
  shows "journal X m P d \<Longrightarrow> mails m \<subseteq> queued d \<and> (\<forall>ml\<in>queued d. traced X d ml) \<and>
    (\<forall>(p, i)\<in>opened_texts d. \<exists>k. p = hex_encode X k)"
proof (induction rule: journal.induct)
  case start
  show ?case by (simp add: blank_diary_def mails_def model_default_def)
next
  case (user m P d ev E)
  show ?case by (rule journal_entry [OF assms user.IH user.hyps(3)])
next
  case (answer m c P d ev E)
  show ?case by (rule journal_entry [OF assms answer.IH answer.hyps(3)])
qed (simp_all add: mails_def model_default_def)

text \<open>The diary leaves no signature out: what a step puts on the wire is sealed from mail it lists, and
  apart from mail a client signs challenges only.\<close>

lemma posted_is_queued:
  assumes "HttpPost u a (SendBatch es) t \<in> set (snd (update X E ev m))" "e \<in> set es"
  shows "\<exists>sender i. sealed X sender i e \<and> mail_of i \<in> queued (entry X E ev m d)"
proof -
  let ?m = "fst (update X E ev m)"
  obtain sender where s: "list_all2 (sealed X sender) (take (length es) (outbox ?m)) es"
    using posts_fit_update [of X E ev m] assms(1) unfolding posts_fit_def carries_def by blast
  obtain j where j: "j < length es" "es ! j = e" using assms(2) by (auto simp: in_set_conv_nth)
  have "sealed X sender (outbox ?m ! j) e" "outbox ?m ! j \<in> set (outbox ?m)"
    using s j by (auto simp: list_all2_conv_all_nth)
  then show ?thesis by (auto simp: entry_def mails_def simp del: update.simps)
qed

section \<open>Agreement\<close>

lemma mail_traced:
  assumes "protocol_ext_ok X" "identity_ok X author" "identity_ok X reader" "journal X m P d"
    and "unforged X author (queued d) reader ev" "event_payload X reader ev (public_key_hex X author) p"
  shows "\<exists>r json parsed. hex_decode X r = Some (public_key reader) \<and>
    parse_payload X (utf8_encode json) = Some parsed \<and> pp_payload parsed = p \<and>
    ((r, json) \<in> foreign_mail d \<or> (\<exists>q. p = sanitize_payload q \<and> due_to d r q))"
proof -
  obtain r json parsed where ml: "(r, json) \<in> queued d" "hex_decode X r = Some (public_key reader)"
    "parse_payload X (utf8_encode json) = Some parsed" "pp_payload parsed = p"
    using unforged_is_mail [OF assms(1-3,5,6)] by fastforce
  have "traced X d (r, json)" using journal_traced [OF assms(1,4)] ml(1) by blast
  moreover have "\<exists>q. p = sanitize_payload q \<and> due_to d r q" if pen: "penned X d (r, json)"
  proof -
    obtain q ts where "json = serialize_payload X q ts" "payload_wf q" "in_i64 ts" "due_to d r q"
      using pen by (auto simp: penned_def)
    then show ?thesis using parse_serialized [OF assms(1), of q ts] ml(3,4) by (auto split: if_splits)
  qed
  ultimately show ?thesis using ml(2-4) unfolding traced_def by blast
qed

text \<open>C2. Every text shown was written: if the relay cannot forge a client's signature, every message that
  receiving adds to the conversation with a peer was composed by that peer's user, under the same id, in
  a chat with this client's key, in this or an earlier session, and shows their text less invisible
  characters; only mail the peer's storage returned to it without its having queued it is no better than
  that storage. Replaying, reordering or redirecting mail and choosing login challenges do not help.\<close>

theorem texts_are_authored:
  assumes "protocol_ext_ok X" "identity_ok X alice" "identity_ok X bob" "journal X ma P d" "identity_of X mb = Some bob"
    and "p = public_key_hex X alice" "mb' = fst (ingest_poll X E pg mb)"
    and "\<forall>ev\<in>set (pr_events pg). unforged X alice (queued d) bob ev"
    and "bt_get (messages mb') p = Some l" "x \<in> set l" "\<not> m_outgoing x" "x \<notin> set (or_default [] (bt_get (messages mb) p))"
  shows "\<exists>peer. hex_decode X peer = Some (public_key bob) \<and>
    ((\<exists>body. (peer, m_id x, body) \<in> wrote d \<and> m_body x = sanitize_text body) \<or>
     (\<exists>json parsed. (peer, json) \<in> foreign_mail d \<and> parse_payload X (utf8_encode json) = Some parsed \<and>
        pp_payload parsed = Text (m_id x) (m_body x)))"
proof -
  obtain ev where ev: "ev \<in> set (pr_events pg)" "event_payload X bob ev p (Text (m_id x) (m_body x))"
    using ingest_authentic_page [OF assms(5,7,9,10)] assms(11,12) by auto
  have "\<exists>body. (r, m_id x, body) \<in> wrote d \<and> m_body x = sanitize_text body"
    if "Text (m_id x) (m_body x) = sanitize_payload q" "due_to d r q" for q r
    using that by (cases q) auto
  then show ?thesis
    using mail_traced [OF assms(1-4) _ ev(2) [unfolded assms(6)]] assms(8) ev(1) by metis
qed

text \<open>C3. Delivered means delivered: under the same assumption, a message that receiving marks delivered was
  opened by the peer's client, in this or an earlier session, as a text signed by this client under that
  id; with the same exception for mail that only the peer's storage made up.\<close>

theorem receipts_are_honest:
  assumes "protocol_ext_ok X" "identity_ok X bob" "identity_ok X alice" "journal X mb P d" "identity_of X ma = Some alice"
    and "q = public_key_hex X bob" "ma' = fst (ingest_poll X E pg ma)"
    and "\<forall>ev\<in>set (pr_events pg). unforged X bob (queued d) alice ev"
    and "bt_get (messages ma') q = Some l" "x \<in> set l" "m_outgoing x" "x \<notin> set (or_default [] (bt_get (messages ma) q))"
  shows "m_delivered x \<and> ((public_key_hex X alice, m_id x) \<in> opened_texts d \<or>
    (\<exists>peer json parsed ids. (peer, json) \<in> foreign_mail d \<and> hex_decode X peer = Some (public_key alice) \<and>
       parse_payload X (utf8_encode json) = Some parsed \<and> pp_payload parsed = DeliveryAck ids \<and> m_id x \<in> set ids))"
proof -
  obtain ev ids where ev: "ev \<in> set (pr_events pg)" "event_payload X alice ev q (DeliveryAck ids)" "m_id x \<in> set ids" "m_delivered x"
    using ingest_authentic_page [OF assms(5,7,9,10)] assms(11,12) by auto
  obtain r json parsed where r: "hex_decode X r = Some (public_key alice)" "parse_payload X (utf8_encode json) = Some parsed"
    "pp_payload parsed = DeliveryAck ids" "(r, json) \<in> foreign_mail d \<or> (\<exists>p. DeliveryAck ids = sanitize_payload p \<and> due_to d r p)"
    using mail_traced [OF assms(1-4) _ ev(2) [unfolded assms(6)]] assms(8) ev(1) by metis
  have "(public_key_hex X alice, m_id x) \<in> opened_texts d" if "DeliveryAck ids = sanitize_payload p" "due_to d r p" for p
  proof -
    have o: "(r, m_id x) \<in> opened_texts d" using that ev(3) by (cases p) auto
    then obtain k where "r = hex_encode X k" using journal_traced [OF assms(1,4)] by blast
    then have "r = public_key_hex X alice"
      using r(1) assms(1) by (simp add: protocol_ext_ok_def crypto_ext_ok_def phonemic_ext_ok_def public_key_hex_def)
    with o show ?thesis by simp
  qed
  with r ev(3,4) show ?thesis by blast
qed

section \<open>Concrete lives\<close>

lemma ref_sealed_event:
  "sealed ref_app_ext (ref_identity 1) ref_text \<lparr>to = ref_peer, encrypted_blob = pe_encrypted_blob ref_event\<rparr>"
proof -
  have "serialize_payload ref_app_ext (Text (lit ''u'') (lit ''hi'')) 1000 = [66]"
    by (simp add: serialize_payload_def ref_json_print_def ref_json_value_def del: payload_value.simps)
  then have "encrypt_for ref_app_ext (\<lambda>_. 0) (ref_identity 1) ref_text = Some ref_blob"
    using ref_encrypted by (simp add: encrypt_for_def ref_text_def outbox_item_new_def ref_hex_decode_peer ref_identity_key utf8_char_def)
  then show ?thesis unfolding sealed_def by (auto simp: ref_text_def ref_event_def)
qed

lemma ref_plain: "unicode ref_env ev m" if "plain_step ev m"
  using that by (auto simp: unicode_def plain_step_def own_profile_payload_def own_profile_default_def payload_wf_def
      List.map_filter_simps lit_def is_scalar_def split: event.split)

text \<open>The author opens a chat, writes a text and presses send.\<close>

lemma ref_author_journal:
  "\<exists>m P d. journal ref_app_ext m P d \<and> mail_of ref_text \<in> queued d \<and> foreign_mail d = {}"
proof -
  let ?u = "update ref_app_ext ref_env"
  define m1 where "m1 = fst (?u (OpenChat ref_peer) model_default)"
  define m2 where "m2 = fst (?u (ComposeChanged (lit ''hi'')) m1)"
  have m1: "m1 = model_default\<lparr>active_peer := Some ref_peer, page := Chat, error := None\<rparr>"
    by (simp add: m1_def on_open_chat_def show_page_def)
  have m2: "m2 = m1\<lparr>compose := lit ''hi''\<rparr>" by (simp add: m2_def on_compose_changed_def)
  have plain: "unicode ref_env (OpenChat ref_peer) model_default" "unicode ref_env (ComposeChanged (lit ''hi'')) m1"
    by (rule ref_plain, simp add: plain_step_def replaces_tables_def m1 model_default_def)+
  have uni: "unicode ref_env SendText m2"
    using plain(2) ref_strings(1) by (simp add: unicode_def m2 own_profile_payload_def)
  obtain P1 d1 where r1: "journal ref_app_ext m1 P1 d1" "foreign_mail d1 = {}"
    using journal.user [OF journal.start _ plain(1)] by (fastforce simp: m1_def entry_def intrudes_def blank_diary_def)
  obtain P2 d2 where r2: "journal ref_app_ext m2 P2 d2" "foreign_mail d2 = {}"
    using journal.user [OF r1(1) _ plain(2)] r1(2) by (fastforce simp: m2_def entry_def intrudes_def)
  have f: "active_peer m2 = Some ref_peer" "compose m2 = lit ''hi''" "contacts m2 = []" "outbox m2 = []"
    "lit ''hi'' \<noteq> []" "\<not> MAX_BODY_LEN < ulen (lit ''hi'')" "\<not> MAX_CONTACTS \<le> 0"
    using ref_strings(4) by (simp_all add: m2 m1 model_default_def lit_def size_caps)
  then have "mail_of ref_text \<in> mails (fst (?u SendText m2))"
    by (simp add: send_text_def compose_text_def ref_trim is_some_and_def mails_def mail_of_def ref_text_def Let_def
        case_prod_unfold del: ulen_def)
  with journal.user [OF r2(1) _ uni] r2(2) show ?thesis by (fastforce simp: entry_def intrudes_def simp del: update.simps)
qed

theorem texts_are_authored_witness:
  "\<exists>m P d peer body. journal ref_app_ext m P d \<and> (peer, lit ''u'', body) \<in> wrote d \<and>
     hex_decode ref_app_ext peer = Some (replicate 32 2) \<and> lit ''hi'' = sanitize_text body"
proof -
  obtain m P d where j: "journal ref_app_ext m P d" "mail_of ref_text \<in> queued d" "foreign_mail d = {}"
    using ref_author_journal by blast
  have "o_recipient ref_text = public_key_hex ref_app_ext (ref_identity 2)" by (simp add: ref_text_def ref_peer_key)
  from sealed_unforged [OF ref_app_ext_ok ref_app_identity_ok ref_app_identity_ok ref_sealed_event this j(2)]
  have "\<forall>ev\<in>set (pr_events ref_page). unforged ref_app_ext (ref_identity 1) (queued d) (ref_identity 2) ev"
    by (simp add: ref_page_def ref_event_def)
  from texts_are_authored [OF ref_app_ext_ok ref_app_identity_ok ref_app_identity_ok j(1) ref_inbox_simps(1) ref_sender_def refl
      this ref_page_stores, of ref_msg_in] j(3)
  have "\<exists>peer body. hex_decode ref_app_ext peer = Some (replicate 32 2) \<and> (peer, lit ''u'', body) \<in> wrote d \<and>
      lit ''hi'' = sanitize_text body"
    by (simp add: ref_msg_in_def or_default_def ref_identity_key)
  with j(1) show ?thesis by blast
qed

text \<open>The reader logs in, polls, and is handed the page.\<close>

lemma journal_answer:
  assumes "journal X m P d" "c \<in># P" "responds c ev" "unicode E ev m"
  shows "journal X (fst (update X E ev m)) (P - {#c#} + mset (snd (update X E ev m))) (entry X E ev m d)"
  using assms journal.answer [of X m c "P - {#c#}" d ev E] by simp

lemma ref_reads_page:
  assumes "ref_online 2 m"
  shows "ref_receipt \<in> set (outbox (fst (on_poll_result ref_app_ext ref_env (poll_gen m)
    (Inr \<lparr>r_status = 200, r_retry_after = None, r_body = Some ref_blob\<rparr>) m)))"
proof -
  have s: "sender_hex ref_dec = ref_sender" by (simp add: ref_dec_def)
  let ?m = "m\<lparr>polling := False, poll_retries := 0\<rparr>"
  have "length ref_blob \<le> MAX_POLL_RESPONSE_BYTES"
    using encrypt_blob_length [OF ref_app_crypto_ok ref_app_identity_ok ref_encrypted] by (auto simp: size_caps)
  moreover have "ref_page = \<lparr>pr_events = [\<lparr>pe_encrypted_blob = hex_encode ref_app_ext ref_blob\<rparr>], pr_cursor = 500\<rparr>"
    by (simp add: ref_page_def ref_event_def)
  moreover have "outbox_item_new (sender_hex ref_dec) (serialize_payload ref_app_ext (DeliveryAck [lit ''u'']) (now_ms ref_env 2))
      \<in> set (outbox (fst (ingest_poll ref_app_ext ref_env ref_page ?m)))"
    by (rule ingest_one_text(7) [OF _ ref_event_reads _ _ _ _ _ _ refl])
      (use assms ref_keys_differ in \<open>simp_all add: ref_page_def s ref_online_def shut_out_def blocked_def is_some_and_def identity_of_def
        ref_app_from_secret ref_peer_key or_default_def size_caps\<close>)
  ultimately show ?thesis
    using assms
    by (simp add: on_poll_result_def on_poll_page_def take_body_def ref_online_def ref_receipt_def s Let_def case_prod_unfold)
qed

text \<open>A life whose storage makes nothing up.\<close>

definition ref_life :: "model \<Rightarrow> cmd multiset \<Rightarrow> mail set \<Rightarrow> bool" where
  "ref_life m P Q \<longleftrightarrow> (\<exists>d. journal ref_app_ext m P d \<and> foreign_mail d = {} \<and> Q \<subseteq> queued d)"

lemma ref_life_entry:
  assumes "journal ref_app_ext m' P' (entry ref_app_ext ref_env ev m d)" "foreign_mail d = {}" "plain_step ev m"
    and "m' = fst (update ref_app_ext ref_env ev m)"
  shows "ref_life m' P' (mails m')"
proof -
  have "intrudes ref_app_ext ev d = {}"
    using assms(3) by (cases ev) (simp_all add: intrudes_def plain_step_def replaces_tables_def)
  then have "foreign_mail (entry ref_app_ext ref_env ev m d) = {}" "mails m' \<subseteq> queued (entry ref_app_ext ref_env ev m d)"
    using assms(2,4) by (simp_all add: entry_def)
  with assms(1) show ?thesis unfolding ref_life_def by blast
qed

lemma ref_life_steps:
  assumes "ref_life m P Q" "plain_step ev m" "m' = fst (update ref_app_ext ref_env ev m)"
  shows "from_shell ev \<Longrightarrow> ref_life m' (P + mset (snd (update ref_app_ext ref_env ev m))) (mails m')"
    and "c \<in># P \<Longrightarrow> responds c ev \<Longrightarrow> ref_life m' (P - {#c#} + mset (snd (update ref_app_ext ref_env ev m))) (mails m')"
proof -
  obtain d where d: "journal ref_app_ext m P d" "foreign_mail d = {}" using assms(1) by (auto simp: ref_life_def)
  show "ref_life m' (P + mset (snd (update ref_app_ext ref_env ev m))) (mails m')" if "from_shell ev"
    using ref_life_entry [OF _ d(2) assms(2,3)] journal.user [OF d(1) that ref_plain [OF assms(2)]] unfolding assms(3) by blast
  show "ref_life m' (P - {#c#} + mset (snd (update ref_app_ext ref_env ev m))) (mails m')" if "c \<in># P" "responds c ev"
    using ref_life_entry [OF _ d(2) assms(2,3)] journal_answer [OF d(1) that ref_plain [OF assms(2)]] unfolding assms(3) by blast
qed

lemma ref_life_mono: "ref_life m P Q \<Longrightarrow> Q' \<subseteq> Q \<Longrightarrow> ref_life m P Q'"
  unfolding ref_life_def by blast

lemma ref_reader_journal:
  "\<exists>m P d. journal ref_app_ext m P d \<and> mail_of ref_receipt \<in> queued d \<and> foreign_mail d = {}"
proof -
  let ?u = "update ref_app_ext ref_env"
  have "\<exists>m P. ref_life m P {} \<and> ref_online 2 m \<and> Emit Poll \<in># P"
  proof (rule ref_session_run [where R = "\<lambda>n m P. ref_life m P {}"], goal_cases)
    case 1
    show ?case using journal.start [of ref_app_ext] by (auto simp: ref_life_def blank_diary_def)
  next
    case (2 n m P ev)
    from ref_life_steps(1) [OF 2(1,3) refl 2(2)] show ?case by (rule ref_life_mono) simp
  next
    case (3 n m P c ev)
    from ref_life_steps(2) [OF 3(1,4) refl 3(2,3)] show ?case by (rule ref_life_mono) simp
  qed
  then obtain m P where r: "ref_life m P {}" and on: "ref_online 2 m" and e: "Emit Poll \<in># P" by blast
  let ?m = "m\<lparr>polling := True, poll_gen := poll_gen m + 1\<rparr>" and ?g = "poll_gen m + 1"
  let ?ev = "PollResult ?g (Inr \<lparr>r_status = 200, r_retry_after = None, r_body = Some ref_blob\<rparr>)"
  have p: "?m = fst (?u Poll m)" "\<exists>u a b. HttpPost u a b (ThenPollResult ?g) \<in> set (snd (?u Poll m))"
    using on by (auto simp: ref_online_def on_poll_def next_poll_gen_def Let_def)
  then obtain u a b where post: "HttpPost u a b (ThenPollResult ?g) \<in> set (snd (?u Poll m))" by blast
  have plain: "plain_step Poll m" "plain_step ?ev ?m"
    using on by (simp_all add: ref_online_def plain_step_def replaces_tables_def)
  have resp: "responds (HttpPost u a b (ThenPollResult ?g)) ?ev"
    using responds.http [of u a b "ThenPollResult ?g"] by simp
  note r6 = ref_life_steps(2) [OF r plain(1) p(1) e responds.emitted]
  note r7 = ref_life_steps(2) [OF r6 plain(2) refl _ resp]
  have "ref_online 2 (?m\<lparr>polling := False\<rparr>)" using on by (simp add: ref_online_def)
  from ref_reads_page [OF this] have "ref_receipt \<in> set (outbox (fst (?u ?ev ?m)))" by (simp add: on_poll_result_def Let_def)
  then have "mail_of ref_receipt \<in> mails (fst (?u ?ev ?m))" unfolding mails_def by blast
  moreover have "HttpPost u a b (ThenPollResult ?g) \<in># P - {#Emit Poll#} + mset (snd (?u Poll m))" using post by simp
  ultimately show ?thesis using r7 unfolding ref_life_def by blast
qed

lemma ref_receipt_marks:
  assumes "sealed ref_app_ext (ref_identity 2) ref_receipt e"
  shows "bt_get (messages (fst (ingest_poll ref_app_ext ref_env \<lparr>pr_events = [\<lparr>pe_encrypted_blob = encrypted_blob e\<rparr>], pr_cursor = c\<rparr> ref_author)))
    ref_peer = Some [\<lparr>m_id = lit ''u'', m_body = lit ''hi'', m_ts = 1000, m_outgoing = True, m_delivered = True\<rparr>]"
proof -
  have to: "o_recipient ref_receipt = public_key_hex ref_app_ext (ref_identity 1)" by (simp add: ref_receipt_def ref_sender_def)
  obtain blob where b: "hex_decode ref_app_ext (encrypted_blob e) = Some blob"
    "decrypt ref_app_ext (ref_identity 1) blob = Ok \<lparr>plaintext = utf8_encode (o_envelope_json ref_receipt), sender_hex = ref_peer\<rparr>"
    "small_event \<lparr>pe_encrypted_blob = encrypted_blob e\<rparr>"
    using sealed_opens [OF ref_app_ext_ok ref_app_identity_ok ref_app_identity_ok assms to] ref_peer_key by auto
  have parse: "parse_payload ref_app_ext (utf8_encode (o_envelope_json ref_receipt)) =
      Some \<lparr>pp_ts = 1000, pp_payload = DeliveryAck [lit ''u'']\<rparr>"
    using parse_serialized [OF ref_app_ext_ok _ in_i64_now, of "DeliveryAck [lit ''u'']" ref_env 2] ref_strings(2,3)
    by (simp add: payload_wf_def ref_receipt_def outbox_item_new_def size_caps del: ulen_def)
  let ?l = "[\<lparr>m_id = lit ''u'', m_body = lit ''hi'', m_ts = 1000, m_outgoing = True, m_delivered = False\<rparr>]"
  let ?pg = "\<lparr>pr_events = [\<lparr>pe_encrypted_blob = encrypted_blob e\<rparr>], pr_cursor = c\<rparr>"
  have "bt_get (messages (fst (ingest_poll ref_app_ext ref_env ?pg ref_author)))
      (sender_hex \<lparr>plaintext = utf8_encode (o_envelope_json ref_receipt), sender_hex = ref_peer\<rparr>) =
      Some (map (mark_delivered (set [lit ''u''])) ?l)"
    by (rule ingest_one_ack [OF ref_env_ok _ _ b(2)])
      (use b(1,3) parse ref_keys_differ in \<open>auto simp: ref_author_def ref_alice_def model_default_def identity_of_def
        ref_app_from_secret shut_out_def blocked_def is_some_and_def bt_get_def\<close>)
  then show ?thesis by (simp add: mark_delivered_def)
qed

theorem receipts_are_honest_witness:
  "\<exists>m P d. journal ref_app_ext m P d \<and> (ref_sender, lit ''u'') \<in> opened_texts d"
proof -
  obtain m P d where j: "journal ref_app_ext m P d" "mail_of ref_receipt \<in> queued d" "foreign_mail d = {}"
    using ref_reader_journal by blast
  obtain e where e: "sealed ref_app_ext (ref_identity 2) ref_receipt e" using usable_sealed [OF ref_receipt_usable] by blast
  let ?pg = "\<lparr>pr_events = [\<lparr>pe_encrypted_blob = encrypted_blob e\<rparr>], pr_cursor = 9\<rparr>"
  have "o_recipient ref_receipt = public_key_hex ref_app_ext (ref_identity 1)" by (simp add: ref_receipt_def ref_sender_def)
  from sealed_unforged [OF ref_app_ext_ok ref_app_identity_ok ref_app_identity_ok e this j(2)]
  have unf: "\<forall>ev\<in>set (pr_events ?pg). unforged ref_app_ext (ref_identity 2) (queued d) (ref_identity 1) ev" by simp
  have author: "identity_of ref_app_ext ref_author = Some (ref_identity 1)"
    "or_default [] (bt_get (messages ref_author) ref_peer) =
       [\<lparr>m_id = lit ''u'', m_body = lit ''hi'', m_ts = 1000, m_outgoing = True, m_delivered = False\<rparr>]"
    by (simp_all add: ref_author_def ref_alice_def model_default_def identity_of_def ref_app_from_secret bt_get_def or_default_def)
  from receipts_are_honest [OF ref_app_ext_ok ref_app_identity_ok ref_app_identity_ok j(1) author(1) ref_peer_key [symmetric] refl
      unf ref_receipt_marks [OF e]] author(2) j(3)
  have "(ref_sender, lit ''u'') \<in> opened_texts d" by (simp add: ref_sender_def)
  with j(1) show ?thesis by blast
qed

end
