(* ===== verification/Watchdogs.thy ===== *)
theory Watchdogs
  imports Sessions
begin

text \<open>
  Why the client never hangs: every guard that is up has the timer that takes it down on its way, and
  a session that has loaded its state always has something on its way that brings it back to the relay,
  whatever answers the network loses.
\<close>

section \<open>Every guard is watched\<close>

text \<open>The contract of a request guard that has a watchdog: an event that leaves the guard up either
  starts the timer of the generation it leaves, or leaves the generation alone, is not its timer, and
  found the guard up or is its result; and the timer of the current generation retires it.\<close>

locale watched_slot = request_slot X res busy gen
  for X :: "'z app_ext_scheme" and res :: "event \<Rightarrow> gen option" and busy :: "model \<Rightarrow> bool" and gen :: "model \<Rightarrow> gen" +
  fixes watchdog :: "gen \<Rightarrow> event" and period :: nat
  assumes arms: "busy (fst (update X E ev m)) \<Longrightarrow>
      NotifyAfter period (watchdog (gen (fst (update X E ev m)))) \<in> set (snd (update X E ev m)) \<or>
      gen (fst (update X E ev m)) = gen m \<and> ev \<noteq> watchdog (gen m) \<and> (busy m \<or> res ev = Some (gen m))"
    and idle: "\<not> busy model_default"
begin

lemma idle_unanswered:
  assumes "reach X n m (add_mset c P)" "2 * n < 2 ^ 64" "responds c ev" "res ev = Some (gen m)"
  shows "busy m"
proof (rule ccontr)
  assume "\<not> busy m"
  moreover have "gen m \<in># pending res (add_mset c P)"
    using echoed [OF assms(3)] assms(4) by simp
  ultimately show False
    using reachable [OF assms(1,2)]
    by (simp add: slot_ok_def slot_of_def del: pending_simps flip: count_greater_zero_iff)
qed

lemma watched:
  assumes "patient X n m P" "2 * n < 2 ^ 64" "busy m"
  shows "NotifyAfter period (watchdog (gen m)) \<in># P"
  using assms
proof (induction rule: patient.induct)
  case start
  then show ?case by (simp add: idle)
next
  case (user n m P ev E)
  then show ?case using arms [OF user.prems(2)] unforged [OF user.hyps(2)] by auto
next
  case (answer n m c P ev E)
  have n: "2 * n < 2 ^ 64" using answer.prems by simp
  from arms [OF answer.prems(2)] show ?case
  proof
    assume keep: "gen (fst (update X E ev m)) = gen m \<and> ev \<noteq> watchdog (gen m) \<and> (busy m \<or> res ev = Some (gen m))"
    then have "busy m" using idle_unanswered [OF patient_reach [OF answer.hyps(1)] n answer.hyps(2)] by blast
    then have "NotifyAfter period (watchdog (gen m)) \<in># add_mset c P" by (rule answer.IH [OF n])
    moreover have "c \<noteq> NotifyAfter period (watchdog (gen m))"
      using answer.hyps(2) keep by (auto simp: responds_simps)
    ultimately show ?thesis using keep by simp
  qed simp
next
  case (lost n m c P)
  then show ?case by auto
qed

end

lemma poll_arms:
  assumes "polling (fst (update X E ev m))"
  shows "NotifyAfter POLL_WATCHDOG_MS (PollWatchdog (poll_gen (fst (update X E ev m)))) \<in> set (snd (update X E ev m)) \<or>
    poll_gen (fst (update X E ev m)) = poll_gen m \<and> ev \<noteq> PollWatchdog (poll_gen m) \<and>
      (polling m \<or> poll_result ev = Some (poll_gen m))"
proof -
  consider u where "ev = SetServerUrl u" | "ev = Poll" | g r where "ev = PollResult g r" | g where "ev = PollWatchdog g"
    | "\<And>u. ev \<noteq> SetServerUrl u" "ev \<noteq> Poll" "\<And>g r. ev \<noteq> PollResult g r" "\<And>g. ev \<noteq> PollWatchdog g"
    by blast
  then show ?thesis
  proof cases
    case 5
    with poll_frame [OF 5, of X E m] assms show ?thesis by auto
  qed (use assms in \<open>auto simp: handler_unfold next_gen_defs ingest_poll_fields poll_result_def Let_def case_prod_unfold
      split: option.splits sum.splits if_splits\<close>)
qed

lemma auth_arms:
  assumes "authenticating (fst (update X E ev m))"
  shows "NotifyAfter AUTH_WATCHDOG_MS (AuthWatchdog (auth_gen (fst (update X E ev m)))) \<in> set (snd (update X E ev m)) \<or>
    auth_gen (fst (update X E ev m)) = auth_gen m \<and> ev \<noteq> AuthWatchdog (auth_gen m) \<and>
      (authenticating m \<or> auth_result ev = Some (auth_gen m))"
proof -
  consider "ev = Connect" | "ev = Authenticate" | g r where "ev = ChallengeResult g r" | g r where "ev = VerifyResult g r"
    | g where "ev = AuthWatchdog g"
    | "ev \<noteq> Connect" "ev \<noteq> Authenticate" "\<And>g r. ev \<noteq> ChallengeResult g r" "\<And>g r. ev \<noteq> VerifyResult g r"
      "\<And>g. ev \<noteq> AuthWatchdog g"
    by blast
  then show ?thesis
  proof cases
    case 6
    with auth_frame [OF 6, of X E m] assms show ?thesis by auto
  qed (use assms in \<open>auto simp: handler_unfold next_gen_defs auth_result_def Let_def
      split: option.splits sum.splits outcome.splits if_splits\<close>)
qed

text \<open>A handler that leaves a send in flight has started its timer.\<close>

definition flush_armed :: "model \<times> cmd list \<Rightarrow> bool" where
  "flush_armed r \<longleftrightarrow> (flushing (fst r) \<longrightarrow> NotifyAfter FLUSH_WATCHDOG_MS (FlushWatchdog (flush_gen (fst r))) \<in> set (snd r))"

lemma flush_armed_next: "\<not> flushing m \<Longrightarrow> flush_armed (flush_next X E m)"
  by (cases X E m rule: flush_next_cases) (simp_all add: flush_armed_def)

lemma flush_armed_after:
  "\<not> flushing m \<Longrightarrow> set (snd (flush_next X E m)) \<subseteq> set cs \<Longrightarrow> flush_armed (fst (flush_next X E m), cs)"
  using flush_armed_next [of m X E] by (auto simp: flush_armed_def)

lemma flush_armed_idle: "\<not> flushing m \<Longrightarrow> flush_armed (m, c)"
  by (simp add: flush_armed_def)

lemma flush_armed_send:
  assumes "\<not> flushing m"
  shows "flush_armed (retry_batch X E bt m)" "flush_armed (on_send_finished X E bt m)" "flush_armed (on_rate_limited E resp m)"
proof -
  show "flush_armed (retry_batch X E bt m)"
    using assms
    by (auto simp: retry_batch_def case_prod_unfold Let_def flush_armed_idle
        intro!: flush_armed_after split: option.split)
  show "flush_armed (on_send_finished X E bt m)"
    using assms by (auto simp: on_send_finished_def case_prod_unfold Let_def flush_armed_idle intro!: flush_armed_after)
  show "flush_armed (on_rate_limited E resp m)"
    using assms by (auto simp: on_rate_limited_def flush_armed_idle split: option.split)
qed

lemma flush_arms:
  assumes "flushing (fst (update X E ev m))"
  shows "NotifyAfter FLUSH_WATCHDOG_MS (FlushWatchdog (flush_gen (fst (update X E ev m)))) \<in> set (snd (update X E ev m)) \<or>
    flush_gen (fst (update X E ev m)) = flush_gen m \<and> ev \<noteq> FlushWatchdog (flush_gen m) \<and>
      (flushing m \<or> send_result ev = Some (flush_gen m))"
proof -
  have armed: ?thesis if "flush_armed (update X E ev m)"
    using that assms by (simp add: flush_armed_def)
  consider u where "ev = SetServerUrl u" | "ev = StartFlush" | g r where "ev = SendResult g r" | g where "ev = FlushWatchdog g"
    | "\<And>u. ev \<noteq> SetServerUrl u" "ev \<noteq> StartFlush" "\<And>g r. ev \<noteq> SendResult g r" "\<And>g. ev \<noteq> FlushWatchdog g"
    by blast
  then show ?thesis
  proof cases
    case 1
    then show ?thesis using assms by (auto simp: handler_unfold Let_def case_prod_unfold split: option.splits if_splits)
  next
    case 2
    show ?thesis
    proof (cases "flushing m")
      case True
      then show ?thesis using 2 by (simp add: flush_next_def)
    next
      case False
      then show ?thesis using 2 armed flush_armed_next [of m X E] by simp
    qed
  next
    case (3 g r)
    show ?thesis
    proof (cases "g = flush_gen m")
      case True
      let ?m1 = "m\<lparr>flushing := False, in_flight := None\<rparr>"
      have "flush_armed (on_send_response X E g resp m)" "flush_armed (on_send_error X E g m)" for resp
        using True flush_armed_send [of ?m1] flush_armed_next
        by (auto simp: on_send_response_def on_send_error_def Let_def flush_armed_idle intro!: flush_armed_next)
      then show ?thesis using 3 armed by (cases r) simp_all
    next
      case False
      then show ?thesis using 3 assms
        by (cases r) (simp_all add: on_send_response_def on_send_error_def)
    qed
  next
    case (4 g)
    show ?thesis
    proof (cases "g = flush_gen m \<and> flushing m")
      case True
      then show ?thesis using 4 armed flush_armed_next [of "abandon_flush m" X E]
        by (simp add: on_flush_watchdog_def abandon_flush_def)
    next
      case False
      then show ?thesis using 4 assms by (auto simp: on_flush_watchdog_def)
    qed
  next
    case 5
    with flush_frame [OF 5, of X E m] assms show ?thesis by auto
  qed
qed

interpretation poll_watch: watched_slot X poll_result polling poll_gen PollWatchdog POLL_WATCHDOG_MS for X
  by unfold_locales (rule poll_arms, assumption, simp add: model_default_def)

interpretation auth_watch: watched_slot X auth_result authenticating auth_gen AuthWatchdog AUTH_WATCHDOG_MS for X
  by unfold_locales (rule auth_arms, assumption, simp add: model_default_def)

interpretation flush_watch: watched_slot X send_result flushing flush_gen FlushWatchdog FLUSH_WATCHDOG_MS for X
  by unfold_locales (rule flush_arms, assumption, simp add: model_default_def)

text \<open>C14. No guard stays up for good: in every state a patient shell can reach, whichever answers are
  lost, each of the three guards that is up has the timer of its own generation still to fire, and when
  that timer fires it opens the way again: polling and authenticating start over at once, and sending
  gives up the batch in flight and goes back to the queue under a new generation.\<close>

theorem guards_are_watched:
  assumes "patient X n m P" "2 * n < 2 ^ 64"
  shows "(polling m \<longrightarrow> NotifyAfter POLL_WATCHDOG_MS (PollWatchdog (poll_gen m)) \<in># P \<and>
       update X E (PollWatchdog (poll_gen m)) m = (abandon_poll m, [Emit Poll])) \<and>
    (authenticating m \<longrightarrow> NotifyAfter AUTH_WATCHDOG_MS (AuthWatchdog (auth_gen m)) \<in># P \<and>
       update X E (AuthWatchdog (auth_gen m)) m = (abandon_auth m, [Emit Authenticate])) \<and>
    (flushing m \<longrightarrow> NotifyAfter FLUSH_WATCHDOG_MS (FlushWatchdog (flush_gen m)) \<in># P \<and>
       update X E (FlushWatchdog (flush_gen m)) m = flush_next X E (abandon_flush m))"
  using poll_watch.watched [OF assms] auth_watch.watched [OF assms] flush_watch.watched [OF assms]
  by (simp add: on_poll_watchdog_def on_auth_watchdog_def on_flush_watchdog_def)

theorem guards_are_watched_witness:
  "\<exists>m P. patient ref_app_ext 3 m P \<and> authenticating m \<and> NotifyAfter AUTH_WATCHDOG_MS (AuthWatchdog (auth_gen m)) \<in># P"
proof -
  obtain m P where r: "patient ref_app_ext 3 m P" and "authenticating m"
    using ref_patient_authenticating by blast
  then show ?thesis using guards_are_watched [OF r] by auto
qed

section \<open>The session keeps going\<close>

text \<open>The events that bring a session back to the relay, and a command that delivers one.\<close>

definition wakes :: "event \<Rightarrow> bool" where
  "wakes ev \<longleftrightarrow> ev = Poll \<or> ev = Authenticate \<or> ev = Connect"

definition alarm :: "cmd \<Rightarrow> bool" where
  "alarm c = (case c of Emit ev \<Rightarrow> wakes ev | NotifyAfter d ev \<Rightarrow> wakes ev | _ \<Rightarrow> False)"

lemma alarm_simps [simp]:
  "alarm (Emit ev) = wakes ev" "alarm (NotifyAfter d ev) = wakes ev" "\<not> alarm Render" "\<not> alarm (HttpPost u a b t)"
  "\<not> alarm (KvGet k kt)" "\<not> alarm (KvSet k v kt)" "\<not> alarm (KvDelete k kt)"
  by (simp_all add: alarm_def)

definition driven :: "model \<Rightarrow> cmd multiset \<Rightarrow> bool" where
  "driven m P \<longleftrightarrow> polling m \<or> authenticating m \<or> (\<exists>c\<in>#P. alarm c)"

text \<open>A session whose state is loaded: it has an identity, its reads are answered and none failed.\<close>

definition loaded :: "model \<Rightarrow> bool" where
  "loaded m \<longleftrightarrow> secret_key m \<noteq> None \<and> loads_pending m = 0 \<and> \<not> kv_load_failed m"

definition key_ok :: "'z app_ext_scheme \<Rightarrow> model \<Rightarrow> bool" where
  "key_ok X m \<longleftrightarrow> (secret_key m \<noteq> None \<longrightarrow> identity_of X m \<noteq> None)"

text \<open>What an event does to a session: a loaded session is driven, or it was loaded, nothing drove it
  and the event was none that could have.\<close>

definition keeps_going :: "event \<Rightarrow> model \<Rightarrow> model \<times> cmd list \<Rightarrow> bool" where
  "keeps_going ev m r \<longleftrightarrow>
     (loaded (fst r) \<longrightarrow> polling (fst r) \<or> authenticating (fst r) \<or> (\<exists>c\<in>set (snd r). alarm c) \<or>
        loaded m \<and> \<not> polling m \<and> \<not> authenticating m \<and> \<not> wakes ev)"

definition same_session :: "model \<Rightarrow> model \<Rightarrow> bool" where
  "same_session m m' \<longleftrightarrow>
     secret_key m' = secret_key m \<and> loads_pending m' = loads_pending m \<and> kv_load_failed m' = kv_load_failed m \<and>
     polling m' = polling m \<and> authenticating m' = authenticating m"

lemma same_session_send:
  assumes "ev = SendResult g r \<or> ev = FlushWatchdog g \<or> ev = StartFlush"
  shows "same_session m (fst (update X E ev m))"
proof -
  have flush: "same_session m (fst (flush_next X E m1))" if "same_session m m1" for m1 E
    using that by (simp add: same_session_def)
  have retry: "same_session m (fst (retry_batch X E bt m1))" if "same_session m m1" for bt m1
    using that by (cases bt) (auto simp: retry_batch_def case_prod_unfold Let_def same_session_def)
  have finished: "same_session m (fst (on_send_finished X E bt m1))" if "same_session m m1" for bt m1
    using that by (auto simp: on_send_finished_def case_prod_unfold Let_def same_session_def)
  have limited: "same_session m (fst (on_rate_limited E resp m1))" if "same_session m m1" for resp m1
    using that by (auto simp: on_rate_limited_def same_session_def split: option.split)
  have same: "same_session m m1" if "\<exists>f i b t g. m1 = m\<lparr>flushing := f, in_flight := i, send_batch_budget := b, token := t, flush_gen := g\<rparr>" for m1
    using that by (auto simp: same_session_def)
  have [simp]: "same_session m m" "same_session m (m\<lparr>flushing := f, in_flight := i\<rparr>)"
    "same_session m (m\<lparr>flushing := f, in_flight := i, token := t\<rparr>)" "same_session m (m\<lparr>flushing := f, in_flight := i, flush_gen := g\<rparr>)"
    "same_session m (m\<lparr>flushing := f, in_flight := i, send_batch_budget := b\<rparr>)" for f i t g b
    by (simp_all add: same_session_def)
  show ?thesis
    using assms
    by (auto simp: on_send_response_def on_send_error_def on_flush_watchdog_def abandon_flush_def Let_def
        intro!: flush retry finished limited split: sum.split)
qed

lemma update_keeps_going:
  assumes "key_ok X m"
  shows "keeps_going ev m (update X E ev m)"
proof -
  have frame: ?thesis if "same_session m (fst (update X E ev m))" "\<not> wakes ev"
    using that by (auto simp: keeps_going_def same_session_def loaded_def)
  consider (send) g r where "ev = SendResult g r \<or> ev = FlushWatchdog g \<or> ev = StartFlush"
    | (challenge) g r where "ev = ChallengeResult g r" | (page) g r where "ev = PollResult g r"
    | (other) "\<And>g r. ev \<noteq> SendResult g r" "\<And>g. ev \<noteq> FlushWatchdog g" "ev \<noteq> StartFlush"
      "\<And>g r. ev \<noteq> ChallengeResult g r" "\<And>g r. ev \<noteq> PollResult g r"
    by blast
  then show ?thesis
  proof cases
    case (send g r)
    then show ?thesis using frame [OF same_session_send [OF send]] by (auto simp: wakes_def simp del: update.simps)
  next
    case (challenge g r)
    have id: "identity_of X (m\<lparr>authenticating := False\<rparr>) = identity_of X m" by (simp add: identity_of_def)
    show ?thesis
      using challenge assms
      by (auto simp: keeps_going_def loaded_def key_ok_def wakes_def on_challenge_result_def schedule_reconnect_def err_def Let_def id
          split: sum.split option.split outcome.split)
  next
    case (page g r)
    show ?thesis
      using page
      by (auto simp: keeps_going_def loaded_def wakes_def on_poll_result_def on_poll_page_def backoff_poll_def err_def Let_def
          case_prod_unfold split: sum.split option.split)
  next
    case other
    show ?thesis
      using assms other
      by (cases ev)
        (auto simp: keeps_going_def loaded_def key_ok_def wakes_def STARTUP_LOADS_def handler_unfold next_gen_defs refuse_write_def Let_def case_prod_unfold
          split: option.splits outcome.splits sum.splits if_splits)
  qed
qed

lemma key_ok_update:
  assumes "key_ok X m"
  shows "key_ok X (fst (update X E ev m))"
proof -
  have same: "key_ok X m'" if "secret_key m' = secret_key m" for m'
    using assms that by (simp add: key_ok_def identity_of_def)
  show ?thesis
  proof (cases ev)
    case (IdentityLoaded sk)
    then show ?thesis
      using same by (auto simp: on_identity_loaded_def err_def key_ok_def identity_of_def split: outcome.split)
  next
    case (SendResult g r)
    then show ?thesis using same same_session_send [of ev g r m X E] by (auto simp: same_session_def simp del: update.simps)
  next
    case (FlushWatchdog g)
    then show ?thesis using same same_session_send [of ev g _ m X E] by (auto simp: same_session_def simp del: update.simps)
  qed (use same in \<open>auto simp: handler_unfold next_gen_defs ingest_poll_fields Let_def case_prod_unfold
      split: option.split outcome.split sum.split\<close>)
qed

lemma driven_step:
  assumes "keeps_going ev m r" "loaded m \<Longrightarrow> driven m P" "loaded (fst r)"
    and "\<And>c. c \<in># P \<Longrightarrow> alarm c \<Longrightarrow> c \<notin># P' \<Longrightarrow> wakes ev"
  shows "driven (fst r) (P' + mset (snd r))"
  using assms by (auto simp: keeps_going_def driven_def)

lemma responds_alarm: "responds c ev \<Longrightarrow> alarm c \<Longrightarrow> wakes ev"
  by (cases c) (auto simp: responds_simps)

lemma patient_driven:
  assumes "patient X n m P"
  shows "key_ok X m \<and> (loaded m \<longrightarrow> driven m P)"
  using assms
proof (induction rule: patient.induct)
  case start
  show ?case by (simp add: key_ok_def loaded_def model_default_def)
next
  case (user n m P ev E)
  then show ?case
    using driven_step [OF update_keeps_going, of X m P E ev P] key_ok_update by blast
next
  case (answer n m c P ev E)
  have "wakes ev" if "d \<in># add_mset c P" "alarm d" "d \<notin># P" for d
    using that responds_alarm [OF answer.hyps(2)] by auto
  with answer show ?case
    using driven_step [OF update_keeps_going, of X m "add_mset c P" E ev P] key_ok_update by blast
next
  case (lost n m c P)
  then have "\<not> alarm c" by (cases c) auto
  with lost show ?case by (auto simp: driven_def)
qed

section \<open>Back to the relay\<close>

text \<open>The client left to itself: only its timers fire and its own events arrive, \<open>k\<close> of them.\<close>

inductive alone :: "'z app_ext_scheme \<Rightarrow> env \<Rightarrow> nat \<Rightarrow> model \<Rightarrow> cmd multiset \<Rightarrow> model \<Rightarrow> cmd multiset \<Rightarrow> bool" for X E where
  done_waiting: "alone X E 0 m P m P"
| strike: "c \<in># P \<Longrightarrow> \<not> droppable c \<Longrightarrow> responds c ev \<Longrightarrow>
    alone X E k (fst (update X E ev m)) (P - {#c#} + mset (snd (update X E ev m))) m' P' \<Longrightarrow> alone X E (Suc k) m P m' P'"

text \<open>A request whose answer the client waits for is on its way to the relay.\<close>

definition asking :: "model \<Rightarrow> cmd multiset \<Rightarrow> bool" where
  "asking m P \<longleftrightarrow>
     (\<exists>u a b. HttpPost u a b (ThenPollResult (poll_gen m)) \<in># P) \<and> polling m \<or>
     (\<exists>u a b. HttpPost u a b (ThenChallengeResult (auth_gen m)) \<in># P) \<and> authenticating m"

definition asks_within :: "'z app_ext_scheme \<Rightarrow> env \<Rightarrow> nat \<Rightarrow> model \<Rightarrow> cmd multiset \<Rightarrow> bool" where
  "asks_within X E k m P \<longleftrightarrow> (\<exists>j\<le>k. \<exists>m' P'. alone X E j m P m' P' \<and> asking m' P')"

lemma asks_within_step:
  assumes "c \<in># P" "\<not> droppable c" "responds c ev"
    and "asks_within X E k (fst (update X E ev m)) (P - {#c#} + mset (snd (update X E ev m)))"
  shows "asks_within X E (Suc k) m P"
  using assms unfolding asks_within_def by (meson Suc_le_mono alone.strike)

lemma asks_now: "asking m P \<Longrightarrow> asks_within X E k m P"
  unfolding asks_within_def by (meson alone.done_waiting zero_le)

lemma asks_within_mono: "asks_within X E j m P \<Longrightarrow> j \<le> k \<Longrightarrow> asks_within X E k m P"
  unfolding asks_within_def by (meson order_trans)

text \<open>A command that hands an event to the core, timer or not.\<close>

definition due :: "event \<Rightarrow> cmd multiset \<Rightarrow> bool" where
  "due ev P \<longleftrightarrow> (\<exists>c\<in>#P. \<not> droppable c \<and> responds c ev)"

lemma due_simps: "Emit ev \<in># P \<Longrightarrow> due ev P" "NotifyAfter d ev \<in># P \<Longrightarrow> due ev P"
  unfolding due_def by (meson droppable_simps responds.intros)+

lemma due_step:
  assumes "due ev P"
    and "\<And>Q. (\<And>ev'. ev' \<noteq> ev \<Longrightarrow> due ev' P \<Longrightarrow> due ev' Q) \<Longrightarrow>
      asks_within X E k (fst (update X E ev m)) (Q + mset (snd (update X E ev m)))"
  shows "asks_within X E (Suc k) m P"
proof -
  obtain c where c: "c \<in># P" "\<not> droppable c" "responds c ev" using assms(1) by (auto simp: due_def)
  have "due ev' (P - {#c#})" if ne: "ev' \<noteq> ev" and d: "due ev' P" for ev'
  proof -
    obtain c' where c': "c' \<in># P" "\<not> droppable c'" "responds c' ev'" using d by (auto simp: due_def)
    have "c' \<noteq> c" using c(2,3) c'(3) ne by (cases c) (auto simp: responds_simps)
    then have "c' \<in># P - {#c#}" using c'(1) by (simp add: in_diff_count)
    with c' show ?thesis by (auto simp: due_def)
  qed
  with assms(2) c show ?thesis by (blast intro: asks_within_step)
qed

lemma due_union [simp]: "due ev (P + Q) \<longleftrightarrow> due ev P \<or> due ev Q"
  by (auto simp: due_def)

lemma due_add [simp]: "due ev (add_mset c P) \<longleftrightarrow> \<not> droppable c \<and> responds c ev \<or> due ev P"
  by (auto simp: due_def)

text \<open>The guard of the authentication has its timer on the way; the same for polling.\<close>

definition auth_set :: "model \<Rightarrow> cmd multiset \<Rightarrow> bool" where
  "auth_set m P \<longleftrightarrow> (authenticating m \<longrightarrow> due (AuthWatchdog (auth_gen m)) P)"

definition poll_set :: "model \<Rightarrow> cmd multiset \<Rightarrow> bool" where
  "poll_set m P \<longleftrightarrow> (polling m \<longrightarrow> due (PollWatchdog (poll_gen m)) P)"

lemma askingI:
  "polling m \<Longrightarrow> g = poll_gen m \<Longrightarrow> asking m (add_mset (HttpPost u a b (ThenPollResult g)) P)"
  "authenticating m \<Longrightarrow> g = auth_gen m \<Longrightarrow> asking m (add_mset (HttpPost u a b (ThenChallengeResult g)) P)"
  "asking m P \<Longrightarrow> asking m (add_mset c P)"
proof -
  show "asking m (add_mset (HttpPost u a b (ThenPollResult g)) P)" if "polling m" "g = poll_gen m"
    unfolding asking_def using that by (intro disjI1 conjI exI [of _ u] exI [of _ a] exI [of _ b]) simp_all
  show "asking m (add_mset (HttpPost u a b (ThenChallengeResult g)) P)" if "authenticating m" "g = auth_gen m"
    unfolding asking_def using that by (intro disjI2 conjI exI [of _ u] exI [of _ a] exI [of _ b]) simp_all
qed (auto simp: asking_def)

lemma authenticate_asks:
  assumes builds: "\<forall>b. body_json_ok X b" and "identity_of X m \<noteq> None" "\<not> authenticating m" "due Authenticate P"
  shows "asks_within X E 1 m P"
  unfolding One_nat_def
proof (rule due_step [OF assms(4)])
  fix Q
  obtain ident where "identity_of X m = Some ident" using assms(2) by blast
  then show "asks_within X E 0 (fst (update X E Authenticate m)) (Q + mset (snd (update X E Authenticate m)))"
    using assms(3) builds by (auto simp: on_authenticate_def next_auth_gen_def Let_def intro!: asks_now intro: askingI)
qed

lemma authenticate_due_asks:
  assumes builds: "\<forall>b. body_json_ok X b" and "identity_of X m \<noteq> None" "auth_set m P" "due Authenticate P \<or> authenticating m"
  shows "asks_within X E 2 m P"
proof (cases "authenticating m")
  case False
  with assms show ?thesis using authenticate_asks [of X m P E] asks_within_mono by (metis one_le_numeral)
next
  case True
  then have due: "due (AuthWatchdog (auth_gen m)) P" using assms(3) by (simp add: auth_set_def)
  show ?thesis
    unfolding numeral_2_eq_2
  proof (rule due_step [OF due])
    fix Q
    have "identity_of X (abandon_auth m) \<noteq> None" "\<not> authenticating (abandon_auth m)"
      using assms(2) by (simp_all add: abandon_auth_def identity_of_def)
    from authenticate_asks [OF builds this, of "Q + {#Emit Authenticate#}" E]
    show "asks_within X E (Suc 0) (fst (update X E (AuthWatchdog (auth_gen m)) m)) (Q + mset (snd (update X E (AuthWatchdog (auth_gen m)) m)))"
      using True by (simp add: on_auth_watchdog_def responds_simps)
  qed
qed

lemma poll_asks:
  assumes builds: "\<forall>b. body_json_ok X b" and "identity_of X m \<noteq> None" "auth_set m P" "\<not> polling m" "due Poll P"
  shows "asks_within X E 3 m P"
  unfolding numeral_3_eq_3
proof (rule due_step [OF assms(5)])
  fix Q
  assume Q: "\<And>ev'. ev' \<noteq> Poll \<Longrightarrow> due ev' P \<Longrightarrow> due ev' Q"
  show "asks_within X E (Suc (Suc 0)) (fst (update X E Poll m)) (Q + mset (snd (update X E Poll m)))"
  proof (cases "token m")
    case None
    have "auth_set m (Q + {#Emit Authenticate#})" using assms(3) Q by (auto simp: auth_set_def)
    from authenticate_due_asks [OF builds assms(2) this, of E] show ?thesis
      using None assms(4) by (simp add: on_poll_def responds_simps numeral_2_eq_2)
  next
    case (Some tok)
    then show ?thesis
      using assms(4) builds by (auto simp: on_poll_def next_poll_gen_def intro!: asks_now intro: askingI)
  qed
qed

lemma poll_due_asks:
  assumes builds: "\<forall>b. body_json_ok X b" and "identity_of X m \<noteq> None" "auth_set m P" "poll_set m P" "due Poll P \<or> polling m"
  shows "asks_within X E 4 m P"
proof (cases "polling m")
  case False
  with assms have "asks_within X E 3 m P" by (intro poll_asks) auto
  then show ?thesis by (rule asks_within_mono) simp
next
  case True
  then have due: "due (PollWatchdog (poll_gen m)) P" using assms(4) by (simp add: poll_set_def)
  have "asks_within X E (Suc 3) m P"
  proof (rule due_step [OF due])
    fix Q
    assume Q: "\<And>ev'. ev' \<noteq> PollWatchdog (poll_gen m) \<Longrightarrow> due ev' P \<Longrightarrow> due ev' Q"
    have "auth_set (abandon_poll m) (Q + {#Emit Poll#})" using assms(3) Q by (auto simp: auth_set_def abandon_poll_def)
    with builds assms(2) have "asks_within X E 3 (abandon_poll m) (Q + {#Emit Poll#})"
      by (intro poll_asks) (simp_all add: abandon_poll_def identity_of_def responds_simps)
    then show "asks_within X E 3 (fst (update X E (PollWatchdog (poll_gen m)) m)) (Q + mset (snd (update X E (PollWatchdog (poll_gen m)) m)))"
      using True by (simp add: on_poll_watchdog_def)
  qed
  then show ?thesis by simp
qed

lemma connect_asks:
  assumes builds: "\<forall>b. body_json_ok X b" and "identity_of X m \<noteq> None" "\<not> kv_load_failed m" "auth_set m P" "poll_set m P" "due Connect P"
  shows "asks_within X E 5 m P"
proof -
  let ?m = "abandon_auth m"
  have id: "identity_of X ?m \<noteq> None" using assms(2) by (simp add: abandon_auth_def identity_of_def)
  have sk: "secret_key m \<noteq> None" using assms(2) by (cases "secret_key m") (simp_all add: identity_of_def)
  have "asks_within X E (Suc 4) m P"
  proof (rule due_step [OF assms(6)])
    fix Q
    assume Q: "\<And>ev'. ev' \<noteq> Connect \<Longrightarrow> due ev' P \<Longrightarrow> due ev' Q"
    have sets: "auth_set ?m R" "poll_set ?m (Q + R)" for R
      using Q assms(5) by (auto simp: auth_set_def poll_set_def abandon_auth_def)
    have go: "asks_within X E 4 ?m (Q + {#Emit Authenticate#})"
      using asks_within_mono [OF authenticate_due_asks [OF builds id sets(1)], of _ 4 E] by (simp add: responds_simps)
    have "asks_within X E 4 ?m (Q + {#Emit Poll#})" "polling m \<Longrightarrow> asks_within X E 4 ?m (Q + {#Render#})"
      using poll_due_asks [OF builds id sets, of "{#Emit Poll#}" E] poll_due_asks [OF builds id sets, of "{#Render#}" E]
      by (simp_all add: responds_simps abandon_auth_def)
    with go show "asks_within X E 4 (fst (update X E Connect m)) (Q + mset (snd (update X E Connect m)))"
      using sk assms(3) by (auto simp: on_connect_def Let_def abandon_auth_def)
  qed
  then show ?thesis by simp
qed

lemma driven_asks:
  assumes builds: "\<forall>b. body_json_ok X b" and "identity_of X m \<noteq> None" "\<not> kv_load_failed m" "auth_set m P" "poll_set m P" "driven m P"
  shows "asks_within X E 5 m P"
proof -
  have five: "asks_within X E 5 m P" if "asks_within X E k m P" "k \<le> 5" for k
    using that by (rule asks_within_mono)
  have poll: ?thesis if "due Poll P \<or> polling m"
    by (rule five [OF poll_due_asks [OF builds assms(2,4,5) that]]) simp
  have auth: ?thesis if "due Authenticate P \<or> authenticating m"
    by (rule five [OF authenticate_due_asks [OF builds assms(2,4) that]]) simp
  consider "polling m" | "authenticating m" | c where "c \<in># P" "alarm c" using assms(6) by (auto simp: driven_def)
  then show ?thesis
  proof cases
    case (3 c)
    then obtain ev where ev: "wakes ev" "due ev P" by (cases c) (auto dest: due_simps)
    then consider "due Poll P" | "due Authenticate P" | "due Connect P" by (auto simp: wakes_def)
    then show ?thesis
      using poll auth connect_asks [OF builds assms(2-5)] by cases blast+
  qed (use poll auth in blast)+
qed

text \<open>C8. A session never goes silent: in every state a patient shell can reach in which the identity is
  loaded and no read is outstanding or failed, whatever answers were lost, the client's own timers and
  events alone, at most five of them, put a poll or an authentication request whose answer it waits for
  back on the way to the relay.\<close>

theorem session_never_stalls:
  assumes "patient X n m P" "2 * n < 2 ^ 64" "secret_key m \<noteq> None" "loads_pending m = 0" "\<not> kv_load_failed m"
    and "\<forall>b. body_json_ok X b"
  shows "\<exists>k\<le>5. \<exists>m' P'. alone X E k m P m' P' \<and>
    ((\<exists>u a b. HttpPost u a b (ThenPollResult (poll_gen m')) \<in># P') \<and> polling m' \<or>
     (\<exists>u a b. HttpPost u a b (ThenChallengeResult (auth_gen m')) \<in># P') \<and> authenticating m')"
proof -
  have inv: "key_ok X m" "driven m P" using patient_driven [OF assms(1)] assms(3-5) by (simp_all add: loaded_def)
  have "auth_set m P" "poll_set m P"
    using auth_watch.watched [OF assms(1,2)] poll_watch.watched [OF assms(1,2)] due_simps
    by (auto simp: auth_set_def poll_set_def)
  with driven_asks [OF assms(6) _ assms(5) _ _ inv(2), of E] inv(1) assms(3) show ?thesis
    by (simp add: key_ok_def asks_within_def asking_def)
qed

section \<open>A concrete session\<close>

lemma patient_answers:
  assumes "patient X n m (P + mset cs)" "list_all2 responds cs evs"
  shows "patient X (n + length evs) (fst (run_events X E evs m)) (P + mset (snd (run_events X E evs m)))"
  using assms(2,1)
proof (induction arbitrary: n m P rule: list_all2_induct)
  case (Cons c cs ev evs)
  have "patient X n m (add_mset c (P + mset cs))" using Cons.prems by simp
  from patient.answer [OF this Cons.hyps(1), of E]
  have "patient X (Suc n) (fst (update X E ev m)) (P + mset (snd (update X E ev m)) + mset cs)" by (simp add: ac_simps)
  from Cons.IH [OF this] show ?case by (simp add: case_prod_unfold Let_def ac_simps)
qed simp

lemma loads_keep_key:
  "\<forall>ev\<in>set evs. startup_load ev \<Longrightarrow> secret_key (fst (run_events X E evs m)) = secret_key m"
proof (induction evs arbitrary: m)
  case (Cons ev evs)
  have "startup_load ev" using Cons.prems by simp
  then have "secret_key (fst (update X E ev m)) = secret_key m"
    by (cases ev) (auto simp: handler_unfold Let_def split: sum.split option.split)
  with Cons show ?case by (simp add: case_prod_unfold Let_def)
qed simp

lemma ref_loaded:
  "\<exists>m P. patient ref_app_ext 7 m P \<and> loaded m"
proof -
  let ?X = ref_app_ext and ?sk = "replicate 64 1"
  define m1 where "m1 = fst (update ?X ref_env (IdentityLoaded ?sk) model_default)"
  define m where "m = fst (run_events ?X ref_env ref_loads m1)"
  let ?cs = "[KvGet K_CURSOR ThenLoadedCursor, KvGet K_SETTINGS ThenLoadedSettings, KvGet K_CONTACTS ThenLoadedContacts,
    KvGet K_OUTBOX ThenLoadedOutbox, KvGet K_SEEN_IDS ThenLoadedSeenIds, KvGet K_PROFILE ThenLoadedProfile]"
  have m1: "m1 = model_default\<lparr>secret_key := Some ?sk, my_pubkey := public_key_hex ?X (ref_identity 1),
      page := Conversations, loads_pending := STARTUP_LOADS, kv_load_failed := False\<rparr>"
    by (simp add: m1_def on_identity_loaded_def ref_app_from_secret)
  have "patient ?X 1 m1 ({#Render#} + mset ?cs)"
    using patient.user [OF patient.start [of ?X], of "IdentityLoaded ?sk" ref_env]
    by (simp add: m1_def on_identity_loaded_def ref_app_from_secret add_mset_commute)
  moreover have "list_all2 responds ?cs ref_loads" by (simp add: ref_loads_def responds_simps)
  ultimately have "patient ?X (1 + length ref_loads) m ({#Render#} + mset (snd (run_events ?X ref_env ref_loads m1)))"
    unfolding m_def by (rule patient_answers)
  moreover have "loaded m"
    using loads_run [of ref_loads m1 ?X ref_env] loads_keep_key [of ref_loads ?X ref_env m1]
    by (simp add: m_def ref_loads_def loaded_def m1 STARTUP_LOADS_def del: run_events.simps)
  moreover have "1 + length ref_loads = 7" by (simp add: ref_loads_def)
  ultimately show ?thesis by metis
qed

theorem session_never_stalls_witness:
  "\<exists>m P k m' P'. patient ref_app_ext 7 m P \<and> alone ref_app_ext ref_env k m P m' P' \<and> k \<le> 5 \<and> (polling m' \<or> authenticating m')"
proof -
  obtain m P where r: "patient ref_app_ext 7 m P" "loaded m" using ref_loaded by blast
  then have m: "secret_key m \<noteq> None" "loads_pending m = 0" "\<not> kv_load_failed m" by (simp_all add: loaded_def)
  have "2 * 7 < (2 :: nat) ^ 64" "\<forall>b. body_json_ok ref_app_ext b" by simp_all
  then obtain k m' P' where "k \<le> 5" "alone ref_app_ext ref_env k m P m' P'" "polling m' \<or> authenticating m'"
    using session_never_stalls [OF r(1) _ m, of ref_env] by blast
  with r(1) show ?thesis by blast
qed

end
