(* ===== verification/Tables.thy ===== *)
theory Tables
  imports Queue
begin

text \<open>
  The tables of the model over every event: contacts keyed by their public key, conversations ordered
  and capped, incoming ids unique and covered by dedup sets within their cap.
\<close>

definition tables_sound :: "model \<Rightarrow> bool" where
  "tables_sound m \<longleftrightarrow> contacts_ok m \<and> history_ok m \<and> dedup_ok m"

text \<open>The reads that bring in a stored conversation or stored dedup sets as they are.\<close>

definition loads_history :: "event \<Rightarrow> bool" where
  "loads_history ev = (case ev of LoadedMessages p r \<Rightarrow> True | LoadedSeenIds r \<Rightarrow> True | _ \<Rightarrow> False)"

lemma tables_cong:
  "tables_sound m \<Longrightarrow> contacts m' = contacts m \<Longrightarrow> messages m' = messages m \<Longrightarrow> seen_ids m' = seen_ids m \<Longrightarrow> tables_sound m'"
  by (simp add: tables_sound_def contacts_ok_def history_ok_def dedup_ok_def)

lemma tables_contacts:
  "tables_sound m \<Longrightarrow> contacts_ok m' \<Longrightarrow> messages m' = messages m \<Longrightarrow> seen_ids m' = seen_ids m \<Longrightarrow> tables_sound m'"
  by (simp add: tables_sound_def history_ok_def dedup_ok_def)

lemma tables_parts: "tables_sound m \<Longrightarrow> contacts_ok m" "tables_sound m \<Longrightarrow> history_ok m" "tables_sound m \<Longrightarrow> dedup_ok m"
  by (simp_all add: tables_sound_def)

section \<open>The user's actions\<close>

lemma tables_add_contact:
  assumes "tables_sound m"
  shows "tables_sound (fst (on_add_contact X E input nickname m))"
proof (cases "\<exists>hex. try_parse_pubkey X input = Some hex \<and> hex \<noteq> my_pubkey m \<and> \<not> MAX_DISPLAY_NAME_LEN < ulen nickname")
  case True
  then obtain hex where hex: "try_parse_pubkey X input = Some hex" "hex \<noteq> my_pubkey m" "\<not> MAX_DISPLAY_NAME_LEN < ulen nickname"
    by blast
  let ?f = "\<lambda>c. c\<lparr>c_nickname := nickname\<rparr>"
  define m1 where "m1 = (case bt_get (contacts m) hex of Some _ \<Rightarrow> m
    | None \<Rightarrow> m\<lparr>contacts := bt_insert hex (contact_new hex nickname (now_ms E 0)) (contacts m)\<rparr>)"
  define m2 where "m2 = (if nickname \<noteq> [] then m1\<lparr>contacts := bt_modify hex ?f (contacts m1)\<rparr> else m1)"
  have "contacts_ok m1"
    using tables_parts(1) [OF assms] by (auto simp: m1_def contacts_ok_insert split: option.split)
  then have "contacts_ok m2" by (simp add: m2_def contacts_ok_modify)
  moreover have "contacts (fst (on_add_contact X E input nickname m)) = contacts m2"
    using hex by (simp add: on_add_contact_def m2_def m1_def case_prod_unfold Let_def split: option.split)
  ultimately have "contacts_ok (fst (on_add_contact X E input nickname m))" by (simp add: contacts_ok_def)
  then show ?thesis
    by (rule tables_contacts [OF assms]) (use hex in \<open>simp_all add: on_add_contact_def case_prod_unfold Let_def\<close>)
next
  case False
  then show ?thesis
    by (intro tables_cong [OF assms]) (auto simp: on_add_contact_def err_def Let_def split: option.split)
qed

lemma tables_set_blocked:
  assumes "tables_sound m"
  shows "tables_sound (fst (on_set_blocked X peer b m))"
proof -
  have "contacts_ok (m\<lparr>contacts := bt_modify peer (\<lambda>c. c\<lparr>c_blocked := b\<rparr>) (contacts m)\<rparr>)"
    using tables_parts(1) [OF assms] by (rule contacts_ok_modify) simp
  then have "contacts_ok (fst (on_set_blocked X peer b m))"
    by (cases b; simp add: contacts_ok_def on_set_blocked_def forget_outgoing_def detach_in_flight_def case_prod_unfold Let_def)
  then show ?thesis
    by (rule tables_contacts [OF assms])
      (simp_all add: on_set_blocked_def forget_outgoing_def detach_in_flight_def case_prod_unfold Let_def)
qed

lemma tables_delete:
  assumes "tables_sound m"
  shows "tables_sound (fst (on_delete_contact X peer m))"
proof -
  let ?m = "m\<lparr>contacts := bt_remove peer (contacts m), messages := bt_remove peer (messages m), seen_ids := bt_remove peer (seen_ids m)\<rparr>"
  have "contacts_ok ?m" "history_ok ?m"
    using assms by (auto simp: tables_sound_def contacts_ok_def history_ok_def bt.invar_remove bt_get_simps)
  moreover have "dedup_ok ?m"
    using tables_parts(3) [OF assms] by (simp add: dedup_ok_def bt_get_simps)
  ultimately have "tables_sound ?m" by (simp add: tables_sound_def)
  then show ?thesis
    by (rule tables_cong)
      (simp_all add: on_delete_contact_def forget_outgoing_def detach_in_flight_def case_prod_unfold Let_def)
qed

lemma incoming_own:
  assumes "m_outgoing x"
  shows "distinct (incoming l) \<Longrightarrow> distinct (incoming (trim_history (insert_sorted l x)))"
    and "distinct (incoming l) \<Longrightarrow> set (incoming (trim_history (insert_sorted l x))) \<subseteq> set (incoming l)"
proof -
  have eq: "mset (incoming (insert_sorted l x)) = mset (incoming l)" using assms by (simp add: incoming_insert)
  assume "distinct (incoming l)"
  then have "distinct (incoming (insert_sorted l x))" using eq by (metis mset_eq_imp_distinct_iff)
  from incoming_drop [OF this] show "distinct (incoming (trim_history (insert_sorted l x)))"
    "set (incoming (trim_history (insert_sorted l x))) \<subseteq> set (incoming l)"
    unfolding convo.trim_eq using arg_cong [OF eq, of set_mset] by auto
qed

lemma tables_compose:
  assumes "tables_sound m"
  shows "tables_sound (compose_text X E peer body m)"
proof -
  define l where "l = or_default [] (bt_get (messages m) peer)"
  define x where "x = \<lparr>m_id = uuid E, m_body = body, m_ts = now_ms E 0, m_outgoing = True, m_delivered = False\<rparr>"
  let ?m = "compose_text X E peer body m" and ?convo = "trim_history (insert_sorted l x)"
  have f: "messages ?m = bt_insert peer ?convo (messages m)" "seen_ids ?m = seen_ids m"
    "contacts ?m = (if bt_get (contacts m) peer = None then bt_insert peer (contact_new peer [] (now_ms E 0)) (contacts m) else contacts m)"
    by (simp_all add: compose_text_def Let_def l_def x_def)
  have "contacts_ok ?m"
    using tables_parts(1) [OF assms] contacts_ok_insert [OF tables_parts(1) [OF assms], of "contact_new peer [] (now_ms E 0)" peer]
    by (simp add: contacts_ok_def f)
  moreover have "history_ok ?m"
    using history_ok_insert [OF tables_parts(2) [OF assms] convo_ok_store [OF history_ok_get [OF tables_parts(2) [OF assms], of peer]], of peer x]
    by (simp add: history_ok_def f flip: l_def)
  moreover have "dedup_ok ?m"
  proof -
    have d: "dedup_ok m" by (rule tables_parts(3) [OF assms])
    have l: "distinct (incoming l)" "\<And>ids. bt_get (seen_ids m) peer = Some ids \<Longrightarrow> ids \<noteq> {} \<Longrightarrow> set (incoming l) \<subseteq> ids"
      by (cases "bt_get (messages m) peer"; use d in \<open>simp add: dedup_ok_def l_def or_default_def incoming_def\<close>)+
    have "m_outgoing x" by (simp add: x_def)
    note own = incoming_own [OF this l(1)]
    show ?thesis using d own l(2) unfolding dedup_ok_def f by (auto simp: bt_get_simps)
  qed
  ultimately show ?thesis by (simp add: tables_sound_def)
qed

lemma tables_send_text:
  assumes "tables_sound m"
  shows "tables_sound (fst (send_text X E m))"
proof (cases "active_peer m")
  case None
  then show ?thesis using assms by (simp add: send_text_def)
next
  case (Some peer)
  have "tables_sound (compose_text X E peer body (m\<lparr>error := None\<rparr>))" for body
    by (rule tables_compose) (rule tables_cong [OF assms], simp_all)
  from tables_cong [OF this] tables_cong [OF assms] Some show ?thesis
    by (simp add: send_text_def err_def case_prod_unfold Let_def)
qed

section \<open>Every event\<close>

lemma tables_ingest:
  assumes "env_ok E" "tables_sound m"
  shows "tables_sound (fst (ingest_poll X E pg m))"
  using ingest_keeps_tables [OF assms(1) tables_parts [OF assms(2)] refl, of X pg] by (simp add: tables_sound_def)

lemma send_tables_frame:
  assumes "ev = SendResult g r \<or> ev = FlushWatchdog g \<or> ev = StartFlush"
  shows "contacts (fst (update X E ev m)) = contacts m \<and> messages (fst (update X E ev m)) = messages m \<and>
    seen_ids (fst (update X E ev m)) = seen_ids m"
proof -
  let ?same = "\<lambda>m1. contacts m1 = contacts m \<and> messages m1 = messages m \<and> seen_ids m1 = seen_ids m"
  have retry: "?same (fst (retry_batch X E bt m1))" and finished: "?same (fst (on_send_finished X E bt m1))"
    and limited: "?same (fst (on_rate_limited E resp m1))" if "?same m1" for bt m1 resp
    using that by (auto simp: retry_batch_def on_send_finished_def on_rate_limited_def case_prod_unfold Let_def split: option.split)
  show ?thesis
    using assms
    by (auto simp: on_send_response_def on_send_error_def on_flush_watchdog_def abandon_flush_def Let_def retry finished limited
        split: sum.split)
qed

lemma tables_load_contacts:
  assumes "tables_sound m"
  shows "tables_sound (fst (on_loaded_contacts X r m))"
proof -
  have ok: "contacts_ok (fst (on_loaded_contacts X r m))"
    using replaces_keeps_keys [of "LoadedContacts r" m X] tables_parts(1) [OF assms] by (simp add: replaces_tables_def)
  show ?thesis
    by (rule tables_contacts [OF assms ok])
      (simp_all add: handler_unfold Let_def case_prod_unfold split: sum.split option.split)
qed

lemma tables_update:
  assumes "tables_sound m" "env_ok E" "\<not> loads_history ev"
  shows "tables_sound (fst (update X E ev m))"
proof (cases ev)
  case (SendResult g r)
  then show ?thesis using send_tables_frame [of ev g r X E m] tables_cong [OF assms(1)] by blast
next
  case (FlushWatchdog g)
  then show ?thesis using send_tables_frame [of ev g _ X E m] tables_cong [OF assms(1)] by blast
next
  case (PollResult g r)
  have "tables_sound (fst (ingest_poll X E pg (m\<lparr>polling := False, poll_retries := 0\<rparr>)))" for pg
    by (rule tables_ingest [OF assms(2)]) (rule tables_cong [OF assms(1)], simp_all)
  then show ?thesis
    using PollResult tables_cong [OF assms(1)]
    by (auto simp: on_poll_result_def on_poll_page_def backoff_poll_def err_def Let_def case_prod_unfold split: sum.split option.split)
next
  case (LoadedMessages p r)
  with assms(3) show ?thesis by (simp add: loads_history_def)
next
  case (LoadedSeenIds r)
  with assms(3) show ?thesis by (simp add: loads_history_def)
qed (use assms(1) in \<open>simp_all add: tables_add_contact tables_set_blocked tables_delete tables_send_text tables_load_contacts\<close>,
    use tables_cong [OF assms(1)] in \<open>simp_all add: handler_unfold next_gen_defs Let_def case_prod_unfold
      split: option.split outcome.split sum.split\<close>)

text \<open>C21. The tables stay well formed over a whole session: every event other than the read of a stored
  conversation or of the stored dedup sets (which are taken as they were written) keeps every contact
  under its own public key, every conversation in time order and within its cap, no two incoming
  messages of a conversation with one id, every incoming id in its dedup set, and the sets in their cap.\<close>

theorem events_keep_tables:
  assumes "tables_sound m" "env_ok E" "\<not> loads_history ev"
  shows "tables_sound (fst (update X E ev m))"
  using assms by (rule tables_update)

theorem events_keep_tables_witness:
  "tables_sound (fst (update ref_app_ext ref_env (PollResult 0 (Inl ())) (fst (update ref_app_ext ref_env SendText
     (model_default\<lparr>active_peer := Some (lit ''p''), compose := lit ''hi''\<rparr>)))))"
proof -
  have "tables_sound (model_default\<lparr>active_peer := Some (lit ''p''), compose := lit ''hi''\<rparr>)"
    by (simp add: tables_sound_def contacts_ok_def history_ok_def dedup_ok_def model_default_def bt_wf_def bt_keys_def bt_get_def)
  from events_keep_tables [OF events_keep_tables [OF this ref_env_ok] ref_env_ok, of SendText "PollResult 0 (Inl ())" ref_app_ext ref_app_ext]
  show ?thesis by (simp add: loads_history_def del: update.simps)
qed

end
