(* ===== verification/Ffi.thy ===== *)
theory Ffi
  imports Runs
begin

text \<open>
  The surface the shell calls (\<open>core/src/ffi.rs\<close>): three exported methods that run an operation of the
  \<open>Bridge\<close> of \<open>crux_core\<close> behind a guard against unwinding. The bridge is third-party code, so it is
  the record \<open>bridge\<close>: its state, and its three operations, each of which is given the output buffer
  and may return, report an error, or unwind, with the bridge changed either way. What is documented
  of it is \<open>hosts\<close>: it runs the client's \<open>update\<close> on the events it decodes.
\<close>

section \<open>The guard\<close>

text \<open>How the body of a Rust function ends.\<close>

datatype 'a unwinding = Returns 'a | Unwinds

text \<open>\<open>catch_unwind(f).unwrap_or_default()\<close>, with the state the closure captures by reference.\<close>

definition catch_unwind :: "('s \<Rightarrow> 's \<times> 'a unwinding) \<Rightarrow> 's \<Rightarrow> 's \<times> 'a option" where
  "catch_unwind f s = (case f s of (s', Returns v) \<Rightarrow> (s', Some v) | (s', Unwinds) \<Rightarrow> (s', None))"

definition guard :: "('s \<Rightarrow> 's \<times> bytes unwinding) \<Rightarrow> 's \<Rightarrow> 's \<times> bytes unwinding" where
  "guard f s = (let (s', r) = catch_unwind f s in (s', Returns (case r of Some v \<Rightarrow> v | None \<Rightarrow> [])))"

section \<open>The exported methods\<close>

text \<open>\<open>Result<(), BridgeError>\<close>, or an unwinding call; the buffer is as the operation left it.\<close>

type_synonym bridge_result = "(unit + unit) unwinding"

record 's bridge =
  br_new :: 's
  br_update :: "bytes \<Rightarrow> bytes \<Rightarrow> 's \<Rightarrow> 's \<times> bytes \<times> bridge_result"
  br_resolve :: "nat \<Rightarrow> bytes \<Rightarrow> bytes \<Rightarrow> 's \<Rightarrow> 's \<times> bytes \<times> bridge_result"
  br_view :: "bytes \<Rightarrow> 's \<Rightarrow> 's \<times> bytes \<times> bridge_result"

definition ffi_new :: "'s bridge \<Rightarrow> 's" where
  "ffi_new B = br_new B"

definition ffi_update :: "'s bridge \<Rightarrow> bytes \<Rightarrow> 's \<Rightarrow> 's \<times> bytes unwinding" where
  "ffi_update B data =
     guard (\<lambda>s. case br_update B data [] s of
       (s', effects, Returns (Inr u)) \<Rightarrow> (s', Returns effects)
     | (s', effects, Returns (Inl e)) \<Rightarrow> (s', Returns [])
     | (s', effects, Unwinds) \<Rightarrow> (s', Unwinds))"

definition ffi_resolve :: "'s bridge \<Rightarrow> nat \<Rightarrow> bytes \<Rightarrow> 's \<Rightarrow> 's \<times> bytes unwinding" where
  "ffi_resolve B i data =
     guard (\<lambda>s. case br_resolve B i data [] s of
       (s', effects, Returns (Inr u)) \<Rightarrow> (s', Returns effects)
     | (s', effects, Returns (Inl e)) \<Rightarrow> (s', Returns [])
     | (s', effects, Unwinds) \<Rightarrow> (s', Unwinds))"

definition ffi_view :: "'s bridge \<Rightarrow> 's \<Rightarrow> 's \<times> bytes unwinding" where
  "ffi_view B =
     guard (\<lambda>s. case br_view B [] s of
       (s', view_model, Returns (Inr u)) \<Rightarrow> (s', Returns view_model)
     | (s', view_model, Returns (Inl e)) \<Rightarrow> (s', Returns [])
     | (s', view_model, Unwinds) \<Rightarrow> (s', Unwinds))"

text \<open>The answer of a guarded call: what the operation wrote if it succeeded, else nothing.\<close>

definition reply :: "bytes \<times> bridge_result \<Rightarrow> bytes" where
  "reply r = (case r of (out, Returns (Inr u)) \<Rightarrow> out | _ \<Rightarrow> [])"

lemma guard_reply:
  "guard (\<lambda>s. case op s of
       (s', out, Returns (Inr u)) \<Rightarrow> (s', Returns out)
     | (s', out, Returns (Inl e)) \<Rightarrow> (s', Returns [])
     | (s', out, Unwinds) \<Rightarrow> (s', Unwinds)) s = (fst (op s), Returns (reply (snd (op s))))"
  by (cases "op s") (auto simp: guard_def catch_unwind_def reply_def split: unwinding.split sum.split)

lemmas ffi_calls = ffi_update_def ffi_resolve_def ffi_view_def guard_reply

lemma ffi_reply:
  "ffi_update B data s = (fst (br_update B data [] s), Returns (reply (snd (br_update B data [] s))))"
  "ffi_resolve B i data s = (fst (br_resolve B i data [] s), Returns (reply (snd (br_resolve B i data [] s))))"
  "ffi_view B s = (fst (br_view B [] s), Returns (reply (snd (br_view B [] s))))"
  by (simp_all add: ffi_calls)

section \<open>The bridge as a host of the client\<close>

text \<open>Between two calls the hosted core has run every event it sent to itself, in some order.\<close>

inductive settles :: "'z app_ext_scheme \<Rightarrow> model \<times> cmd multiset \<Rightarrow> model \<times> cmd multiset \<Rightarrow> bool" for X where
  settled: "settles X s s"
| internal: "settles X (fst (update X E ev m), P + mset (snd (update X E ev m))) s \<Longrightarrow>
    settles X (m, add_mset (Emit ev) P) s"

text \<open>How a call to the bridge ends, and the bridge after it.\<close>

datatype shell_call = CallUpdate bytes | CallResolve nat bytes | CallView

fun bridge_call :: "'s bridge \<Rightarrow> shell_call \<Rightarrow> 's \<Rightarrow> 's \<times> bytes \<times> bridge_result" where
  "bridge_call B (CallUpdate data) s = br_update B data [] s"
| "bridge_call B (CallResolve i data) s = br_resolve B i data [] s"
| "bridge_call B CallView s = br_view B [] s"

definition unwinds :: "'s bridge \<Rightarrow> shell_call \<Rightarrow> 's \<Rightarrow> bool" where
  "unwinds B c s \<longleftrightarrow> snd (snd (bridge_call B c s)) = Unwinds"

text \<open>What \<open>crux_core\<close> documents of its bridge, for a view \<open>core_of\<close> of the bridge's state as the model
  with its pending commands, the derived decoders \<open>dec\<close> of \<open>Event\<close> and \<open>out\<close> of an effect's output, and
  the registry \<open>req\<close> of pending requests. A call that does not unwind gives a decoded event to
  \<open>update\<close>, or the output of a registered request to the event it was requested for, and then runs the
  internal events; data it cannot use, and a view, leave the core alone. \<open>bridge_event\<close> is the event a
  call delivers and what it takes off the pending commands.\<close>

definition bridge_event :: "(bytes \<Rightarrow> event option) \<Rightarrow> (cmd \<Rightarrow> bytes \<Rightarrow> event option) \<Rightarrow> ('s \<Rightarrow> nat \<Rightarrow> cmd option) \<Rightarrow>
    shell_call \<Rightarrow> 's \<Rightarrow> (event \<times> cmd multiset) option" where
  "bridge_event dec out req c s =
     (case c of
        CallUpdate data \<Rightarrow> map_option (\<lambda>ev. (ev, {#})) (dec data)
      | CallResolve i data \<Rightarrow>
          (case req s i of None \<Rightarrow> None | Some q \<Rightarrow> map_option (\<lambda>ev. (ev, {#q#})) (out q data))
      | CallView \<Rightarrow> None)"

definition hosts :: "'z app_ext_scheme \<Rightarrow> (bytes \<Rightarrow> event option) \<Rightarrow> (cmd \<Rightarrow> bytes \<Rightarrow> event option) \<Rightarrow>
    ('s \<Rightarrow> nat \<Rightarrow> cmd option) \<Rightarrow> ('s \<Rightarrow> model \<times> cmd multiset) \<Rightarrow> 's bridge \<Rightarrow> bool" where
  "hosts X dec out req core_of B \<longleftrightarrow>
     core_of (br_new B) = (model_default, {#}) \<and>
     (\<forall>data ev. dec data = Some ev \<longrightarrow> from_shell ev) \<and>
     (\<forall>q data ev. out q data = Some ev \<longrightarrow> responds q ev) \<and>
     (\<forall>s i q. req s i = Some q \<longrightarrow> q \<in># snd (core_of s)) \<and>
     (\<forall>c s. \<not> unwinds B c s \<longrightarrow>
        (case bridge_event dec out req c s of
           None \<Rightarrow> core_of (fst (bridge_call B c s)) = core_of s
         | Some (ev, used) \<Rightarrow>
             \<exists>E. settles X (fst (update X E ev (fst (core_of s))),
                           snd (core_of s) - used + mset (snd (update X E ev (fst (core_of s)))))
                   (core_of (fst (bridge_call B c s)))))"

fun ffi_call :: "'s bridge \<Rightarrow> shell_call \<Rightarrow> 's \<Rightarrow> 's \<times> bytes unwinding" where
  "ffi_call B (CallUpdate data) s = ffi_update B data s"
| "ffi_call B (CallResolve i data) s = ffi_resolve B i data s"
| "ffi_call B CallView s = ffi_view B s"

primrec ffi_session :: "'s bridge \<Rightarrow> shell_call list \<Rightarrow> 's \<Rightarrow> 's" where
  "ffi_session B [] s = s"
| "ffi_session B (c # cs) s = ffi_session B cs (fst (ffi_call B c s))"

primrec calm :: "'s bridge \<Rightarrow> shell_call list \<Rightarrow> 's \<Rightarrow> bool" where
  "calm B [] s = True"
| "calm B (c # cs) s = (\<not> unwinds B c s \<and> calm B cs (fst (ffi_call B c s)))"

lemma ffi_call_eq: "ffi_call B c s = (fst (bridge_call B c s), Returns (reply (snd (bridge_call B c s))))"
  by (cases c) (simp_all add: ffi_reply)

lemma settles_reach:
  assumes "settles X s s'" "reach X n (fst s) (snd s)"
  shows "\<exists>n'. reach X n' (fst s') (snd s')"
  using assms
proof (induction arbitrary: n rule: settles.induct)
  case (internal E ev m P s)
  then have "reach X n m (add_mset (Emit ev) P)" by simp
  from internal.IH [of "Suc n"] reach.answer [OF this responds.emitted, of E] show ?case by simp
qed auto

lemma host_step:
  assumes "hosts X dec out req core_of B" "\<not> unwinds B c s" "reach X n (fst (core_of s)) (snd (core_of s))"
  shows "\<exists>n'. reach X n' (fst (core_of (fst (ffi_call B c s)))) (snd (core_of (fst (ffi_call B c s))))"
proof (cases "bridge_event dec out req c s")
  case None
  then have "core_of (fst (bridge_call B c s)) = core_of s"
    using assms(1,2) unfolding hosts_def by fastforce
  with assms(3) show ?thesis by (auto simp: ffi_call_eq)
next
  case (Some p)
  obtain ev used where p: "p = (ev, used)" by fastforce
  obtain E where E: "settles X (fst (update X E ev (fst (core_of s))),
      snd (core_of s) - used + mset (snd (update X E ev (fst (core_of s))))) (core_of (fst (bridge_call B c s)))"
    using assms(1,2) Some p unfolding hosts_def by fastforce
  have "\<exists>n'. reach X n' (fst (update X E ev (fst (core_of s))))
      (snd (core_of s) - used + mset (snd (update X E ev (fst (core_of s)))))"
  proof (cases c)
    case (CallUpdate data)
    then have "from_shell ev" "used = {#}" using assms(1) Some p by (auto simp: hosts_def bridge_event_def)
    with reach.user [OF assms(3)] show ?thesis by fastforce
  next
    case (CallResolve i data)
    then obtain q where q: "req s i = Some q" "out q data = Some ev" "used = {#q#}"
      using Some p by (auto simp: bridge_event_def split: option.splits)
    then have "q \<in># snd (core_of s)" "responds q ev" using assms(1) by (auto simp: hosts_def)
    with q(3) reach.answer [of X n "fst (core_of s)" q "snd (core_of s) - {#q#}" ev E] assms(3) show ?thesis by auto
  next
    case CallView
    with Some show ?thesis by (simp add: bridge_event_def)
  qed
  then show ?thesis using settles_reach [OF E] by (auto simp: ffi_call_eq)
qed

text \<open>C23. The boundary to the shell holds: no exported method unwinds into the shell, each returns what
  the bridge wrote when it succeeded and no bytes when it failed or panicked; and after any sequence of
  calls, with any bytes and any request ids, of which none panicked, the hosted model is a state of the
  transition system of core and shell, so every property of reachable states holds across it.\<close>

theorem ffi_sessions_are_runs:
  assumes "hosts X dec out req core_of B" "calm B calls (ffi_new B)"
  shows "(\<forall>c s. snd (ffi_call B c s) =
      Returns (case snd (bridge_call B c s) of (written, Returns (Inr u)) \<Rightarrow> written | _ \<Rightarrow> [])) \<and>
    (\<exists>n. reach X n (fst (core_of (ffi_session B calls (ffi_new B)))) (snd (core_of (ffi_session B calls (ffi_new B)))))"
proof -
  have run: "\<exists>n'. reach X n' (fst (core_of (ffi_session B calls s))) (snd (core_of (ffi_session B calls s)))"
    if "calm B calls s" "reach X n (fst (core_of s)) (snd (core_of s))" for s n
    using that
  proof (induction calls arbitrary: s n)
    case (Cons c cs)
    obtain n' where "reach X n' (fst (core_of (fst (ffi_call B c s)))) (snd (core_of (fst (ffi_call B c s))))"
      using host_step [OF assms(1) _ Cons.prems(2), of c] Cons.prems(1) by auto
    with Cons.IH [of "fst (ffi_call B c s)" n'] Cons.prems(1) show ?case by simp
  qed auto
  have "reach X 0 (fst (core_of (ffi_new B))) (snd (core_of (ffi_new B)))"
    using assms(1) reach.start [of X] by (simp add: hosts_def ffi_new_def)
  with run assms(2) show ?thesis by (simp add: ffi_call_eq reply_def)
qed

section \<open>A concrete host\<close>

text \<open>A host that knows one event and one request, and fails to view itself.\<close>

definition ref_bridge :: "(model \<times> cmd multiset) bridge" where
  "ref_bridge =
     \<lparr>br_new = (model_default, {#}),
      br_update = (\<lambda>data buf s. if data = [1]
        then ((fst (update ref_app_ext ref_env Connect (fst s)),
               snd s + mset (snd (update ref_app_ext ref_env Connect (fst s)))), buf @ [1], Returns (Inr ()))
        else (s, buf, Returns (Inl ()))),
      br_resolve = (\<lambda>i data buf s. (s, buf, Returns (Inl ()))),
      br_view = (\<lambda>buf s. (s, buf @ [7], Unwinds))\<rparr>"

lemma ref_hosts:
  "hosts ref_app_ext (\<lambda>data. if data = [1] then Some Connect else None) (\<lambda>_ _. None) (\<lambda>_ _. None) id ref_bridge"
  by (auto simp: hosts_def ref_bridge_def bridge_event_def unwinds_def simp del: update.simps
      intro: settles.settled split: shell_call.split)

theorem ffi_sessions_are_runs_witness:
  "\<exists>calls n. length calls = 3 \<and> snd (ffi_call ref_bridge CallView (ffi_session ref_bridge calls (ffi_new ref_bridge))) = Returns [] \<and>
     reach ref_app_ext n (fst (ffi_session ref_bridge calls (ffi_new ref_bridge)))
       (snd (ffi_session ref_bridge calls (ffi_new ref_bridge)))"
proof -
  let ?calls = "[CallUpdate [1], CallResolve 5 [], CallUpdate [2]]"
  have "calm ref_bridge ?calls (ffi_new ref_bridge)"
    by (simp add: unwinds_def ref_bridge_def)
  note run = ffi_sessions_are_runs [OF ref_hosts this]
  have "snd (ffi_call ref_bridge CallView s) = Returns []" for s
    using conjunct1 [OF run, rule_format, of CallView s] by (simp add: ref_bridge_def del: ffi_call.simps)
  with conjunct2 [OF run] show ?thesis by (intro exI [of _ ?calls]) auto
qed

end
