(* ===== verification/Storage.thy ===== *)
theory Storage
  imports Queue
begin

text \<open>
  The store behind the key-value operations and what survives in it: the store always reads back as
  the model, also when the process dies between two writes of a step. The store itself is the shell's; it is assumed to perform the operations one
  after the other in the order they are requested, a write as a whole or not at all.
\<close>

section \<open>The store\<close>

type_synonym store = "ustr \<Rightarrow> bytes option"

fun perform :: "cmd \<Rightarrow> store \<Rightarrow> store" where
  "perform (KvSet k v t) d = d(k := Some v)"
| "perform (KvDelete k t) d = d(k := None)"
| "perform c d = d"

definition perform_all :: "cmd list \<Rightarrow> store \<Rightarrow> store" where
  "perform_all cs d = fold perform cs d"

lemma perform_all_simps [simp]:
  "perform_all [] d = d" "perform_all (c # cs) d = perform_all cs (perform c d)"
  "perform_all (cs @ ds) d = perform_all ds (perform_all cs d)"
  by (simp_all add: perform_all_def)

definition touches :: "ustr \<Rightarrow> cmd \<Rightarrow> bool" where
  "touches k c = (case c of KvSet k' v t \<Rightarrow> k' = k | KvDelete k' t \<Rightarrow> k' = k | _ \<Rightarrow> False)"

lemma touches_simps [simp]:
  "touches k (KvSet k' v t) \<longleftrightarrow> k' = k" "touches k (KvDelete k' t) \<longleftrightarrow> k' = k" "\<not> touches k Render" "\<not> touches k (Emit e)"
  "\<not> touches k (HttpPost u a b h)" "\<not> touches k (KvGet k' t)" "\<not> touches k (NotifyAfter n e)"
  by (simp_all add: touches_def)

lemma perform_untouched: "\<not> touches k c \<Longrightarrow> perform c d k = d k"
  by (cases c) simp_all

lemma perform_all_untouched: "(\<And>c. c \<in> set cs \<Longrightarrow> \<not> touches k c) \<Longrightarrow> perform_all cs d k = d k"
  by (induction cs arbitrary: d) (simp_all add: perform_untouched)

lemma keys_distinct [simp]:
  "K_SETTINGS \<noteq> K_PROFILE" "K_SETTINGS \<noteq> K_CONTACTS" "K_SETTINGS \<noteq> K_CURSOR" "K_SETTINGS \<noteq> K_OUTBOX"
  "K_SETTINGS \<noteq> K_SEEN_IDS" "K_PROFILE \<noteq> K_CONTACTS" "K_PROFILE \<noteq> K_CURSOR" "K_PROFILE \<noteq> K_OUTBOX"
  "K_PROFILE \<noteq> K_SEEN_IDS" "K_CONTACTS \<noteq> K_CURSOR" "K_CONTACTS \<noteq> K_OUTBOX" "K_CONTACTS \<noteq> K_SEEN_IDS"
  "K_CURSOR \<noteq> K_OUTBOX" "K_CURSOR \<noteq> K_SEEN_IDS" "K_OUTBOX \<noteq> K_SEEN_IDS"
  "k_messages p \<noteq> K_SETTINGS" "k_messages p \<noteq> K_PROFILE" "k_messages p \<noteq> K_CONTACTS" "k_messages p \<noteq> K_CURSOR"
  "k_messages p \<noteq> K_OUTBOX" "k_messages p \<noteq> K_SEEN_IDS"
  by (simp_all add: K_SETTINGS_def K_PROFILE_def K_CONTACTS_def K_CURSOR_def K_OUTBOX_def K_SEEN_IDS_def
      k_messages_def lit_def)

lemmas keys_distinct' [simp] = keys_distinct [symmetric]

lemma k_messages_inj [simp]: "k_messages p = k_messages q \<longleftrightarrow> p = q"
  by (simp add: k_messages_def)

section \<open>What the store holds\<close>

text \<open>A slot of the store reads back as a value: it decodes to it, or it is empty and the value is what
  a new model starts with.\<close>

definition holds :: "(bytes \<Rightarrow> 'v option) \<Rightarrow> bytes option \<Rightarrow> 'v \<Rightarrow> 'v \<Rightarrow> bool" where
  "holds de slot dflt v \<longleftrightarrow> (case slot of None \<Rightarrow> v = dflt | Some b \<Rightarrow> de b = Some v)"

lemma holds_simps [simp]: "holds de None dflt v \<longleftrightarrow> v = dflt" "holds de (Some b) dflt v \<longleftrightarrow> de b = Some v"
  by (simp_all add: holds_def)

lemma holds_parse_kv: "holds de slot dflt v \<Longrightarrow> parse_kv de (Inr slot) = Inr (if slot = None then None else Some v)"
  by (cases slot) (simp_all add: parse_kv_def)

abbreviation convo_of :: "model \<Rightarrow> ustr \<Rightarrow> stored_message list" where
  "convo_of m p \<equiv> or_default [] (bt_get (messages m) p)"

abbreviation ids_of :: "ustr set btree \<Rightarrow> ustr \<Rightarrow> ustr set" where
  "ids_of t p \<equiv> or_default {} (bt_get t p)"

text \<open>Dedup sets are rebuilt in memory from a conversation when they are empty, which is not written:
  a stored set is the one in memory, or it is empty.\<close>

definition ids_finite :: "ustr set btree \<Rightarrow> bool" where
  "ids_finite t \<longleftrightarrow> (\<forall>ids\<in>set (bt_values t). finite ids)"

lemma ids_finite_insert: "ids_finite t \<Longrightarrow> finite ids \<Longrightarrow> ids_finite (bt_insert p ids t)"
  by (induction p ids t rule: bt_insert.induct) (auto simp: ids_finite_def bt_values_def)

lemma ids_finite_remove: "ids_finite t \<Longrightarrow> ids_finite (bt_remove p t)"
  by (auto simp: ids_finite_def bt_values_def bt_remove_def)

lemma ids_finite_get: "ids_finite t \<Longrightarrow> finite (ids_of t p)"
  by (cases "bt_get t p") (force simp: ids_finite_def bt_values_def or_default_def dest: bt_get_in_set)+

definition holds_ids :: "'z app_ext_scheme \<Rightarrow> bytes option \<Rightarrow> model \<Rightarrow> bool" where
  "holds_ids X slot m \<longleftrightarrow>
     ids_finite (seen_ids m) \<and>
     (\<exists>t. holds (de_seen_ids X) slot [] t \<and> (\<forall>p. ids_of t p = {} \<or> ids_of t p = ids_of (seen_ids m) p))"

definition mirrored :: "'z app_ext_scheme \<Rightarrow> store \<Rightarrow> model \<Rightarrow> bool" where
  "mirrored X d m \<longleftrightarrow>
     holds (de_settings X) (d K_SETTINGS) settings_default (settings m) \<and>
     holds (de_profile X) (d K_PROFILE) own_profile_default (profile m) \<and>
     holds (de_contacts X) (d K_CONTACTS) [] (bt_values (contacts m)) \<and>
     holds (de_outbox X) (d K_OUTBOX) [] (outbox m) \<and>
     (\<forall>p. holds (de_messages X) (d (k_messages p)) [] (convo_of m p)) \<and>
     holds_ids X (d K_SEEN_IDS) m \<and>
     holds (de_cursor X) (d K_CURSOR) 0 (cursor m)"

text \<open>Serde's documented round trip: what was written for a value is read as that value.\<close>

definition codecs_ok :: "'z app_ext_scheme \<Rightarrow> bool" where
  "codecs_ok X \<longleftrightarrow>
     (\<forall>v. de_settings X (json_bytes X (VSettings v)) = Some v) \<and>
     (\<forall>v. de_profile X (json_bytes X (VProfile v)) = Some v) \<and>
     (\<forall>v. de_contacts X (json_bytes X (VContacts v)) = Some v) \<and>
     (\<forall>v. de_cursor X (json_bytes X (VCursor v)) = Some v) \<and>
     (\<forall>v. de_outbox X (json_bytes X (VOutbox v)) = Some v) \<and>
     (\<forall>v. de_messages X (json_bytes X (VMessages v)) = Some v) \<and>
     (\<forall>v. ids_finite v \<longrightarrow> de_seen_ids X (json_bytes X (VSeenIds v)) = Some v)"

lemma codec_simps:
  assumes "codecs_ok X"
  shows "de_settings X (json_bytes X (VSettings v1)) = Some v1"
    "de_profile X (json_bytes X (VProfile v2)) = Some v2"
    "de_contacts X (json_bytes X (VContacts v3)) = Some v3"
    "de_cursor X (json_bytes X (VCursor v4)) = Some v4"
    "de_outbox X (json_bytes X (VOutbox v5)) = Some v5"
    "de_messages X (json_bytes X (VMessages v6)) = Some v6"
  using assms by (simp_all add: codecs_ok_def)

lemma holds_ids_written:
  assumes "codecs_ok X" "ids_finite (seen_ids m)"
  shows "holds_ids X (Some (json_bytes X (VSeenIds (seen_ids m)))) m"
  using assms by (auto simp: holds_ids_def codecs_ok_def)

lemma mirrored_cong:
  assumes "mirrored X d m" "settings m' = settings m" "profile m' = profile m" "contacts m' = contacts m"
    "outbox m' = outbox m" "messages m' = messages m" "seen_ids m' = seen_ids m" "cursor m' = cursor m"
  shows "mirrored X d m'"
  using assms by (simp add: mirrored_def holds_ids_def)


section \<open>Sending\<close>

text \<open>What a handler returns is saved when performing its commands leaves the store a mirror of the
  model it leaves behind.\<close>

definition saved :: "'z app_ext_scheme \<Rightarrow> store \<Rightarrow> model \<times> cmd list \<Rightarrow> bool" where
  "saved X d r \<longleftrightarrow> mirrored X (perform_all (snd r) d) (fst r)"

lemma saved_pair: "saved X d (m, cs) \<longleftrightarrow> mirrored X (perform_all cs d) m"
  by (simp add: saved_def)

lemma saved_unwritten:
  assumes "mirrored X d m" "settings m' = settings m" "profile m' = profile m" "contacts m' = contacts m"
    "outbox m' = outbox m" "messages m' = messages m" "seen_ids m' = seen_ids m" "cursor m' = cursor m"
    and "perform_all cs d = d"
  shows "saved X d (m', cs)"
  using assms by (simp add: saved_def mirrored_cong [of X d m])

lemma mirrored_outbox:
  assumes "codecs_ok X" "mirrored X d m" "settings m' = settings m" "profile m' = profile m" "contacts m' = contacts m"
    "messages m' = messages m" "seen_ids m' = seen_ids m" "cursor m' = cursor m"
  shows "mirrored X (d(K_OUTBOX := Some (json_bytes X (VOutbox (outbox m'))))) m'"
  using assms by (simp add: mirrored_def holds_ids_def codec_simps)

lemma saved_outbox:
  assumes "codecs_ok X" "mirrored X d m" "settings m' = settings m" "profile m' = profile m" "contacts m' = contacts m"
    "messages m' = messages m" "seen_ids m' = seen_ids m" "cursor m' = cursor m"
    and "\<not> dirty \<Longrightarrow> outbox m' = outbox m"
    and "perform_all cs d = (if dirty then d(K_OUTBOX := Some (json_bytes X (VOutbox (outbox m')))) else d)"
  shows "saved X d (m', cs)"
  using mirrored_outbox [OF assms(1-8)] mirrored_cong [OF assms(2-5) _ assms(6-8)] assms(9,10)
  by (auto simp: saved_def)

lemma saved_flush:
  assumes "codecs_ok X" "mirrored X d m"
  shows "saved X d (flush_next X E m)"
proof -
  note out = saved_outbox [OF assms]
  have clean: "b_outbox b = outbox m" if "\<not> b_dirty b" "b = collect_batch X (rngs E) sender (budget_of m) (batch_start m)" for b sender
    using that batch_queue_collect [of X sender m "rngs E" "budget_of m"] by (simp add: batch_queue_ok_def)
  show ?thesis
  proof (cases X E m rule: flush_next_cases)
    case idle
    with assms show ?thesis by (simp add: saved_def)
  next
    case (drained sender tok b)
    show ?thesis
      unfolding drained(8) by (rule out [where dirty = "b_dirty b"]) (simp_all add: clean [OF _ drained(6)])
  next
    case (posted sender tok b recipient q w)
    show ?thesis
      unfolding posted(10) by (rule out [where dirty = "w \<noteq> []"])
        (auto simp: posted(8,9) clean [OF _ posted(6)] stamp_none split: if_splits)
  next
    case (unbuilt sender tok b recipient q w)
    show ?thesis
      unfolding unbuilt(10) by (rule out [where dirty = "w \<noteq> []"])
        (auto simp: unbuilt(8,9) clean [OF _ unbuilt(6)] stamp_none split: if_splits)
  qed
qed

lemma saved_retry:
  assumes "codecs_ok X" "mirrored X d m" "\<not> kv_load_failed m"
  shows "saved X d (retry_batch X E bt m)"
proof (cases bt)
  case None
  with assms show ?thesis by (simp add: retry_batch_def saved_def)
next
  case (Some f)
  obtain n kept where ch: "charge_batch (now_ms E 0) (f_count f) (outbox m) = (n, kept)" by fastforce
  have m1: "mirrored X (d(K_OUTBOX := Some (json_bytes X (VOutbox kept)))) (m\<lparr>outbox := kept, error := e\<rparr>)" for e
    using mirrored_outbox [OF assms(1,2), of "m\<lparr>outbox := kept, error := e\<rparr>"] by simp
  show ?thesis
  proof (cases "n = 0")
    case True
    have "mirrored X (d(K_OUTBOX := Some (json_bytes X (VOutbox kept)))) (m\<lparr>outbox := kept\<rparr>)"
      using m1 [of "error m"] by (simp add: mirrored_def holds_ids_def)
    with Some ch True assms(3) show ?thesis by (simp add: retry_batch_def saved_def case_prod_unfold Let_def w_outbox.written)
  next
    case False
    let ?e = "Some (GAVE_UP X n (f_recipient f))"
    show ?thesis
      using Some ch False assms(3) saved_flush [OF assms(1) m1 [of ?e], of "after_reads 1 E"]
      by (simp add: retry_batch_def saved_def case_prod_unfold Let_def w_outbox.written)
  qed
qed

lemma saved_finished:
  assumes "codecs_ok X" "mirrored X d m" "\<not> kv_load_failed m"
  shows "saved X d (on_send_finished X E bt m)"
proof -
  let ?q = "drop (case bt of None \<Rightarrow> 0 | Some f \<Rightarrow> f_count f) (outbox m)"
  have "mirrored X (d(K_OUTBOX := Some (json_bytes X (VOutbox ?q)))) (m\<lparr>send_retries := 0, outbox := ?q\<rparr>)"
    using mirrored_outbox [OF assms(1,2), of "m\<lparr>send_retries := 0, outbox := ?q\<rparr>"] by simp
  from saved_flush [OF assms(1) this, of E] assms(3) show ?thesis
    by (simp add: on_send_finished_def saved_def case_prod_unfold Let_def w_outbox.written)
qed

lemma saved_send:
  assumes "codecs_ok X" "mirrored X d m" "\<not> kv_load_failed m"
  shows "saved X d (on_send_response X E g resp m)" "saved X d (on_send_error X E g m)" "saved X d (on_flush_watchdog X E g m)"
proof -
  let ?m = "m\<lparr>flushing := False, in_flight := None\<rparr>"
  note keep = mirrored_cong [OF assms(2)]
  have eqs: "mirrored X d ?m" "mirrored X d (?m\<lparr>token := t\<rparr>)" "mirrored X d (?m\<lparr>send_batch_budget := n\<rparr>)"
    "mirrored X d (abandon_flush m)" for t n
    by (rule keep; simp add: abandon_flush_def)+
  have lim: "saved X d (on_rate_limited E resp m')" if "mirrored X d m'" for m'
    using that by (auto simp: on_rate_limited_def intro!: saved_unwritten [OF that] split: option.split)
  show "saved X d (on_send_response X E g resp m)"
    unfolding on_send_response_def Let_def
    using assms eqs by (auto intro!: lim saved_flush saved_finished saved_retry simp: saved_pair)
  show "saved X d (on_send_error X E g m)"
    unfolding on_send_error_def using assms eqs by (auto intro!: saved_retry simp: saved_pair)
  show "saved X d (on_flush_watchdog X E g m)"
    unfolding on_flush_watchdog_def using assms eqs by (auto intro!: saved_flush simp: saved_pair)
qed

section \<open>Receiving\<close>

text \<open>The dedup sets over a page: a set that is not empty changes only together with a conversation
  that is written.\<close>

definition ids_tracked :: "model \<Rightarrow> ingest \<Rightarrow> bool" where
  "ids_tracked m0 s \<longleftrightarrow>
     ids_finite (seen_ids (i_model s)) \<and>
     (\<forall>p. p \<notin> i_touched s \<longrightarrow> ids_of (seen_ids m0) p = {} \<or> ids_of (seen_ids (i_model s)) p = ids_of (seen_ids m0) p)"

lemma ids_tracked_cong:
  "ids_tracked m0 s \<Longrightarrow> seen_ids (i_model s') = seen_ids (i_model s) \<Longrightarrow> i_touched s \<subseteq> i_touched s' \<Longrightarrow> ids_tracked m0 s'"
  by (auto simp: ids_tracked_def)

lemma finite_cap_seen_ids: "finite ids \<Longrightarrow> finite (cap_seen_ids E convo ids)"
  by (simp add: cap_seen_ids_def Let_def)

lemma ids_tracked_store:
  assumes "ids_tracked m0 s"
  shows "ids_tracked m0 (store_text E sender ts i body s)"
proof -
  define ids where "ids = ids_of (seen_ids (i_model s)) sender"
  define used where "used = (if ids = {} then set (map m_id (convo_of (i_model s) sender)) else ids)"
  have fin: "finite used" using assms by (simp add: used_def ids_tracked_def ids_def ids_finite_get)
  let ?s = "store_text E sender ts i body s"
  have known: "i \<in> used \<Longrightarrow> seen_ids (i_model ?s) = bt_insert sender used (seen_ids (i_model s)) \<and> i_touched ?s = i_touched s"
    by (cases "ids = {}") (simp_all add: store_text_def Let_def used_def ids_def)
  have new: "i \<notin> used \<Longrightarrow> i_touched ?s = insert sender (i_touched s) \<and>
      (\<exists>c. seen_ids (i_model ?s) = bt_insert sender (cap_seen_ids E c (insert i used)) (seen_ids (i_model s)))"
    by (cases "ids = {}") (simp_all add: store_text_def Let_def used_def ids_def, blast+)
  have "\<exists>u. seen_ids (i_model ?s) = bt_insert sender u (seen_ids (i_model s)) \<and> finite u \<and>
      (u = used \<or> sender \<in> i_touched ?s) \<and> i_touched s \<subseteq> i_touched ?s"
    using known new fin by (cases "i \<in> used") (auto intro: finite_cap_seen_ids)
  then obtain u where u: "seen_ids (i_model ?s) = bt_insert sender u (seen_ids (i_model s))" "finite u"
    "u = used \<or> sender \<in> i_touched ?s" "i_touched s \<subseteq> i_touched ?s" by blast
  have "ids_of (seen_ids m0) sender = {} \<or> used = ids_of (seen_ids m0) sender" if "sender \<notin> i_touched s"
    using assms that by (auto simp: used_def ids_tracked_def ids_def)
  with assms u show ?thesis
    by (auto simp: ids_tracked_def u(1) bt_get_simps or_default_def [of _ "Some _"] ids_finite_insert)
qed

lemma ids_tracked_payload:
  assumes "ids_tracked m0 s"
  shows "ids_tracked m0 (ingest_payload X E now sender parsed s)"
  using assms
proof (intro ingest_payload_invariant [where P = "ids_tracked m0"] ingest_text_invariant [where P = "ids_tracked m0"], goal_cases)
  case (3 ts i body s')
  then show ?case by (simp add: ids_tracked_def greet_stranger_def Let_def)
next
  case (4 ts i body s')
  then show ?case by (intro ids_tracked_store)
qed (auto elim!: ids_tracked_cong simp: greet_stranger_def ingest_ack_def ingest_profile_def Let_def split: option.split)

lemma ids_tracked_apply: "ids_tracked m0 s \<Longrightarrow> ids_tracked m0 (apply_ack now sender p s)"
  by (erule ids_tracked_cong) (auto simp: apply_ack_def Let_def)

lemma ids_tracked_page:
  assumes "seen_ids m = seen_ids m0" "ids_finite (seen_ids m)"
  shows "ids_tracked m0 (ingest_page X E ident prev pg m)"
proof -
  define s1 where "s1 = ingest_events X E ident prev (now_ms E 1) (pr_events pg) (ingest_start m)"
  have "ids_tracked m0 s1"
    unfolding s1_def
  proof (rule ingest_events_invariant [where P = "ids_tracked m0"])
    show "ids_tracked m0 (ingest_start m)" using assms by (simp add: ids_tracked_def ingest_start_def)
  qed (simp_all add: ids_tracked_payload, simp_all add: ids_tracked_def stop_page_def Let_def)
  then have "ids_tracked m0 (apply_acks E (now_ms E 1) s1)"
    by (intro apply_acks_invariant [where P = "ids_tracked m0"] ids_tracked_apply)
  then show ?thesis
    by (auto simp: ingest_page_def Let_def queue_acks_def ids_tracked_def simp flip: s1_def simp del: One_nat_def)
qed

lemma perform_conversations:
  "perform_all (map (\<lambda>p. KvSet (k_messages p) (f p) t) ps) d (k_messages q) = (if q \<in> set ps then Some (f q) else d (k_messages q))"
  "(\<And>p. k \<noteq> k_messages p) \<Longrightarrow> perform_all (map (\<lambda>p. KvSet (k_messages p) (f p) t) ps) d k = d k"
  by (induction ps arbitrary: d) auto

lemma ingest_no_cursor:
  "c \<in> set (snd (ingest_poll X E pg m)) \<Longrightarrow> \<not> touches K_CURSOR c"
proof (cases X E pg m rule: ingest_poll_cases)
  case (page ident s)
  then show "c \<in> set (snd (ingest_poll X E pg m)) \<Longrightarrow> \<not> touches K_CURSOR c"
    unfolding page(4) persist_page_eq [OF page(6)] by (auto split: if_splits)
qed simp_all

text \<open>A page leaves everything but the cursor mirrored.\<close>

lemma mirrored_ingest:
  assumes ok: "codecs_ok X" "env_ok E" and "mirrored X d m" and m': "m' = fst (ingest_poll X E pg m)"
    and d': "d' = perform_all (snd (ingest_poll X E pg m)) d"
  shows "mirrored X (d'(K_CURSOR := Some (json_bytes X (VCursor (cursor m'))))) m'"
    and "cursor m' = cursor m \<Longrightarrow> mirrored X d' m'"
proof -
  have keep: "settings m' = settings m" "profile m' = profile m" unfolding m' by (simp_all add: ingest_poll_fields)
  have cur: "d' K_CURSOR = d K_CURSOR" unfolding d' by (rule perform_all_untouched) (rule ingest_no_cursor)
  have all: "mirrored X (d'(K_CURSOR := c)) m'" if "holds (de_cursor X) c 0 (cursor m')" for c
  proof (cases X E pg m rule: ingest_poll_cases)
    case (page ident s)
    have s: "m' = i_model s" using page(5) m' by simp
    have t: "tracked m s" unfolding page(3) by (rule tracked_page) simp_all
    have fin: "ids_finite (seen_ids m)" using assms(3) by (simp add: mirrored_def holds_ids_def)
    have i: "ids_tracked m s" unfolding page(3) using fin by (intro ids_tracked_page) simp_all
    have order: "set (hash_order E (i_touched s)) = i_touched s"
      using ok(2) t by (simp add: env_ok_def tracked_def)
    define ps where "ps = hash_order E (i_touched s)"
    have cs: "d' = perform_all (snd (persist_page X E s)) d" unfolding d' page(4) by simp
    note d'_eq = cs [unfolded persist_page_eq [OF page(6)] snd_conv, folded ps_def]
    have slots: "d' K_SETTINGS = d K_SETTINGS" "d' K_PROFILE = d K_PROFILE"
      "d' K_CONTACTS = (if i_contacts_dirty s then Some (json_bytes X (VContacts (bt_values (contacts m')))) else d K_CONTACTS)"
      "d' K_OUTBOX = (if i_outbox_dirty s then Some (json_bytes X (VOutbox (outbox m'))) else d K_OUTBOX)"
      "d' K_SEEN_IDS = (if i_touched s \<noteq> {} then Some (json_bytes X (VSeenIds (seen_ids m'))) else d K_SEEN_IDS)"
      "d' (k_messages p) = (if p \<in> i_touched s then Some (json_bytes X (VMessages (convo_of m' p))) else d (k_messages p))" for p
      unfolding d'_eq s using order by (auto simp: perform_conversations ps_def)
    have "holds_ids X (d' K_SEEN_IDS) m'"
    proof (cases "i_touched s = {}")
      case True
      obtain tb where tb: "holds (de_seen_ids X) (d K_SEEN_IDS) [] tb" "\<forall>p. ids_of tb p = {} \<or> ids_of tb p = ids_of (seen_ids m) p"
        using assms(3) by (auto simp: mirrored_def holds_ids_def)
      have "ids_of tb p = {} \<or> ids_of tb p = ids_of (seen_ids m') p" for p
        using tb(2) i True unfolding ids_tracked_def s by (metis empty_iff)
      then show ?thesis using tb(1) i True by (auto simp: holds_ids_def slots ids_tracked_def s)
    next
      case False
      then show ?thesis using holds_ids_written [OF ok(1), of m'] i by (simp add: slots ids_tracked_def s)
    qed
    moreover have "holds (de_messages X) (d' (k_messages p)) [] (convo_of m' p)" for p
      using assms(3) t codec_simps [OF ok(1)] by (simp add: slots mirrored_def tracked_def s)
    ultimately show ?thesis
      using assms(3) t that keep codec_simps [OF ok(1)] by (simp add: mirrored_def slots tracked_def s)
  qed (use assms(3) that in \<open>simp_all add: m' d' mirrored_def holds_ids_def adopt_cursor_def Let_def\<close>)
  show "mirrored X (d'(K_CURSOR := Some (json_bytes X (VCursor (cursor m'))))) m'"
    by (rule all) (simp add: codec_simps [OF ok(1)])
  assume "cursor m' = cursor m"
  then have "mirrored X (d'(K_CURSOR := d' K_CURSOR)) m'"
    by (intro all) (use assms(3) in \<open>simp add: cur mirrored_def\<close>)
  then show "mirrored X d' m'" by simp
qed

section \<open>Every event\<close>

fun reads_store :: "event \<Rightarrow> bool" where
  "reads_store (IdentityLoaded sk) = True"
| "reads_store (LoadedSettings r) = True"
| "reads_store (LoadedProfile r) = True"
| "reads_store (LoadedContacts r) = True"
| "reads_store (LoadedCursor r) = True"
| "reads_store (LoadedOutbox r) = True"
| "reads_store (LoadedSeenIds r) = True"
| "reads_store (LoadedMessages p r) = True"
| "reads_store _ = False"

lemma holds_ids_cong: "holds_ids X slot m \<Longrightarrow> seen_ids m' = seen_ids m \<Longrightarrow> holds_ids X slot m'"
  by (simp add: holds_ids_def)

lemma saved_add_contact:
  assumes "codecs_ok X" "mirrored X d m" "\<not> kv_load_failed m"
  shows "saved X d (on_add_contact X E input nickname m)"
  using assms(2,3)
  by (auto simp: on_add_contact_def err_def saved_pair mirrored_def codec_simps [OF assms(1)] Let_def
      case_prod_unfold w_contacts.written elim: holds_ids_cong split: option.split)

lemma saved_set_blocked:
  assumes "codecs_ok X" "mirrored X d m" "\<not> kv_load_failed m"
  shows "saved X d (on_set_blocked X peer b m)"
  using assms(2,3)
  by (auto simp: on_set_blocked_def forget_outgoing_def detach_in_flight_def saved_pair mirrored_def codec_simps [OF assms(1)]
      Let_def case_prod_unfold w_contacts.written w_outbox.written elim: holds_ids_cong)

lemma saved_delete:
  assumes "codecs_ok X" "mirrored X d m" "\<not> kv_load_failed m"
  shows "saved X d (on_delete_contact X peer m)"
proof -
  let ?m = "fst (on_delete_contact X peer m)"
  have f: "seen_ids ?m = bt_remove peer (seen_ids m)"
    by (simp add: on_delete_contact_def forget_outgoing_def detach_in_flight_def Let_def case_prod_unfold)
  have "ids_finite (seen_ids ?m)"
    using assms(2) by (simp add: f mirrored_def holds_ids_def ids_finite_remove)
  from holds_ids_written [OF assms(1) this] f
  have ids: "holds_ids X (Some (json_bytes X (VSeenIds (bt_remove peer (seen_ids m))))) m'"
    if "seen_ids m' = bt_remove peer (seen_ids m)" for m'
    using that by (simp add: holds_ids_def)
  show ?thesis
    using assms(2,3)
    by (auto simp: on_delete_contact_def forget_outgoing_def detach_in_flight_def saved_pair mirrored_def
        codec_simps [OF assms(1)] Let_def case_prod_unfold w_contacts.written w_outbox.written w_seen_ids.written
        bt_get_simps or_default_def intro!: ids)
qed

lemma saved_profile:
  assumes "codecs_ok X" "mirrored X d m" "\<not> kv_load_failed m"
  shows "saved X d (on_save_profile X E n b ph m)"
  using assms(2,3)
  by (auto simp: on_save_profile_def err_def broadcast_profile_def saved_pair mirrored_def codec_simps [OF assms(1)]
      Let_def case_prod_unfold w_profile.written w_outbox.written elim: holds_ids_cong)

lemma saved_text:
  assumes "codecs_ok X" "mirrored X d m" "\<not> kv_load_failed m"
  shows "saved X d (send_text X E m)"
proof (cases "active_peer m")
  case None
  with assms show ?thesis by (simp add: send_text_def saved_pair)
next
  case (Some peer)
  define m' where "m' = compose_text X E peer (trim (compose m)) (m\<lparr>error := None\<rparr>)"
  have f: "settings m' = settings m" "profile m' = profile m" "cursor m' = cursor m" "seen_ids m' = seen_ids m"
    "kv_load_failed m' = kv_load_failed m" "p \<noteq> peer \<Longrightarrow> convo_of m' p = convo_of m p" for p
    by (simp_all add: m'_def compose_text_def Let_def bt_get_simps)
  let ?d = "d(k_messages peer := Some (json_bytes X (VMessages (convo_of m' peer))),
    K_CONTACTS := Some (json_bytes X (VContacts (bt_values (contacts m')))), K_OUTBOX := Some (json_bytes X (VOutbox (outbox m'))))"
  have "mirrored X ?d m'"
    using assms(2) f by (auto simp: mirrored_def codec_simps [OF assms(1)] elim: holds_ids_cong)
  moreover have "mirrored X d (m\<lparr>error := e\<rparr>)" for e
    using assms(2) by (rule mirrored_cong) simp_all
  ultimately show ?thesis
    using Some assms(3) f(5)
    by (simp add: send_text_def saved_pair err_def Let_def case_prod_unfold w_messages.written w_contacts.written
        w_outbox.written or_default_def flip: m'_def)
qed

lemma saved_server_url:
  assumes "codecs_ok X" "mirrored X d m" "\<not> kv_load_failed m"
  shows "saved X d (on_set_server_url X u m)"
  using assms(2,3)
  by (auto simp: on_set_server_url_def err_def abandon_flush_def abandon_poll_def refuse_write_def saved_pair mirrored_def
      codec_simps [OF assms(1)] Let_def case_prod_unfold elim: holds_ids_cong split: option.split)

lemma saved_poll_result:
  assumes "codecs_ok X" "env_ok E" "mirrored X d m" "\<not> kv_load_failed m"
  shows "saved X d (on_poll_result X E g res m)"
proof -
  have page: "saved X d (on_poll_page X E pg (m\<lparr>polling := False, poll_retries := n\<rparr>))" for pg n
  proof -
    have "mirrored X d (m\<lparr>polling := False, poll_retries := n\<rparr>)" using assms(3) by (rule mirrored_cong) simp_all
    from mirrored_ingest [OF assms(1,2) this refl refl, of pg] show ?thesis
      by (auto simp: on_poll_page_def saved_pair Let_def case_prod_unfold)
  qed
  show ?thesis
    unfolding on_poll_result_def backoff_poll_def Let_def
    using assms(4) page by (auto simp: err_def intro: saved_unwritten [OF assms(3)] split: sum.split option.split)
qed

lemma saved_update:
  assumes "codecs_ok X" "env_ok E" "mirrored X d m" "\<not> kv_load_failed m" "\<not> reads_store ev"
  shows "saved X d (update X E ev m)"
proof -
  note saved = saved_add_contact [OF assms(1,3,4)] saved_set_blocked [OF assms(1,3,4)] saved_delete [OF assms(1,3,4)]
    saved_profile [OF assms(1,3,4)] saved_text [OF assms(1,3,4)] saved_server_url [OF assms(1,3,4)]
    saved_poll_result [OF assms(1-4)] saved_flush [OF assms(1,3)] saved_send [OF assms(1,3,4)]
  show ?thesis
    using assms(5)
    by (cases ev) (auto simp: saved on_saved_def on_saved_cursor_def backoff_poll_def save_failed_def show_page_def
      on_show_conversations_def on_back_def on_open_chat_def on_compose_changed_def on_connect_def on_authenticate_def err_def
      on_challenge_result_def on_verify_result_def on_poll_def on_poll_watchdog_def on_auth_watchdog_def
      schedule_reconnect_def abandon_auth_def abandon_poll_def next_gen_defs Let_def
      intro: saved_unwritten [OF assms(3)] split: sum.split option.split outcome.split)
qed

lemma trusted_update:
  assumes "\<not> reads_store ev"
  shows "kv_load_failed (fst (update X E ev m)) = kv_load_failed m"
proof -
  have retry: "kv_load_failed (fst (retry_batch X E bt m)) = kv_load_failed m" for bt m
    by (auto simp: retry_batch_def case_prod_unfold Let_def split: option.split)
  have fin: "kv_load_failed (fst (on_send_finished X E bt m)) = kv_load_failed m" for bt m
    by (simp add: on_send_finished_def case_prod_unfold Let_def)
  have lim: "kv_load_failed (fst (on_rate_limited E resp m)) = kv_load_failed m" for resp m
    by (auto simp: on_rate_limited_def split: option.split)
  show ?thesis
    using assms
    by (cases ev) (auto simp: handler_unfold next_gen_defs Let_def case_prod_unfold ingest_poll_fields retry fin lim
      on_send_response_def on_send_error_def on_flush_watchdog_def split: option.split outcome.split sum.split)
qed

section \<open>A process that dies between two writes\<close>

text \<open>The cursor is what the relay may delete mail up to, so its write has to be the last of a step.\<close>

definition cursor_last :: "cmd list \<Rightarrow> bool" where
  "cursor_last cs \<longleftrightarrow>
     (\<forall>pre post. cs = pre @ post \<longrightarrow>
        (\<forall>c\<in>set pre. \<not> touches K_CURSOR c) \<or> (\<forall>c\<in>set post. \<forall>k. \<not> touches k c))"

lemma cursor_last_none: "(\<And>c. c \<in> set cs \<Longrightarrow> \<not> touches K_CURSOR c) \<Longrightarrow> cursor_last cs"
  by (auto simp: cursor_last_def)

lemma cursor_last_write:
  assumes "\<And>c. c \<in> set ws \<Longrightarrow> \<not> touches K_CURSOR c" "\<And>c k. c \<in> set rest \<Longrightarrow> \<not> touches k c"
  shows "cursor_last (ws @ c # rest)"
  unfolding cursor_last_def
proof (intro allI impI)
  fix pre post assume "ws @ c # rest = pre @ post"
  then consider us where "ws = pre @ us" | us where "pre = ws @ us" "c # rest = us @ post"
    by (auto simp: append_eq_append_conv2)
  then show "(\<forall>c\<in>set pre. \<not> touches K_CURSOR c) \<or> (\<forall>c\<in>set post. \<forall>k. \<not> touches k c)"
  proof cases
    case 1
    then show ?thesis using assms(1) by auto
  next
    case 2
    then show ?thesis using assms by (cases us) auto
  qed
qed

lemma perform_prefix:
  assumes "cursor_last (pre @ post)"
  shows "perform_all pre d K_CURSOR = d K_CURSOR \<or> perform_all pre d = perform_all (pre @ post) d"
proof -
  from assms consider "\<forall>c\<in>set pre. \<not> touches K_CURSOR c" | "\<forall>c\<in>set post. \<forall>k. \<not> touches k c"
    unfolding cursor_last_def by blast
  then show ?thesis
    by cases (auto simp: fun_eq_iff perform_all_untouched)
qed

lemma flush_no_cursor: "c \<in> set (snd (flush_next X E m)) \<Longrightarrow> \<not> touches K_CURSOR c"
  by (cases X E m rule: flush_next_cases) (auto split: if_splits)

lemma send_no_cursor:
  "c \<in> set (snd (retry_batch X E bt m)) \<Longrightarrow> \<not> touches K_CURSOR c"
  "c \<in> set (snd (on_send_finished X E bt m)) \<Longrightarrow> \<not> touches K_CURSOR c"
  "c \<in> set (snd (on_rate_limited E resp m)) \<Longrightarrow> \<not> touches K_CURSOR c"
  by (auto simp: retry_batch_def on_send_finished_def on_rate_limited_def case_prod_unfold Let_def
      dest: flush_no_cursor split: option.splits if_splits)

lemma update_no_cursor:
  assumes "\<And>u. ev \<noteq> SetServerUrl u" "\<And>g r. ev \<noteq> PollResult g r" "c \<in> set (snd (update X E ev m))"
  shows "\<not> touches K_CURSOR c"
proof (cases ev)
  case (SetServerUrl u)
  with assms show ?thesis by blast
next
  case (PollResult g r)
  with assms show ?thesis by blast
next
  case (SendResult g r)
  then show ?thesis
    using assms(3) by (auto simp: on_send_response_def on_send_error_def Let_def
        dest: flush_no_cursor send_no_cursor split: sum.splits if_splits)
next
  case (FlushWatchdog g)
  then show ?thesis
    using assms(3) by (auto simp: on_flush_watchdog_def dest: flush_no_cursor split: if_splits)
next
  case StartFlush
  then show ?thesis using assms(3) by (simp add: flush_no_cursor)
qed (use assms(3) in \<open>auto simp: handler_unfold next_gen_defs Let_def case_prod_unfold
    split: option.splits outcome.splits sum.splits if_splits\<close>)

lemma update_cursor_last: "cursor_last (snd (update X E ev m))"
proof (cases "\<exists>u. ev = SetServerUrl u")
  case True
  then obtain u where u: "ev = SetServerUrl u" by blast
  have "cursor_last ([KvSet K_SETTINGS a ThenSaved] @ KvSet K_CURSOR b ThenSaved # [Emit Connect, Render])" for a b
    by (rule cursor_last_write) auto
  moreover have "cursor_last [Emit Connect, Render]" "cursor_last [Render]" by (auto intro!: cursor_last_none)
  ultimately show ?thesis
    by (simp add: u on_set_server_url_def err_def Let_def case_prod_unfold split: option.split)
next
  case False
  show ?thesis
  proof (cases "\<exists>g r. ev = PollResult g r")
    case True
    have "cursor_last (snd (on_poll_page X E pg m'))" for pg m'
      by (auto simp: on_poll_page_def Let_def case_prod_unfold intro!: cursor_last_write intro: cursor_last_none
          dest: ingest_no_cursor)
    moreover have "cursor_last []" "cursor_last [Render]" "cursor_last [NotifyAfter n e, Render]"
      "cursor_last [Emit Authenticate]" for n e
      by (auto intro!: cursor_last_none)
    ultimately show ?thesis
      using True by (auto simp: on_poll_result_def backoff_poll_def err_def Let_def split: sum.split option.split)
  next
    case nb: False
    show ?thesis using False nb by (intro cursor_last_none) (rule update_no_cursor, auto)
  qed
qed

text \<open>The store and the model over the events of a session after its reads: every step starts from what
  the writes of the earlier ones left.\<close>

inductive live :: "'z app_ext_scheme \<Rightarrow> store \<Rightarrow> model \<Rightarrow> store \<Rightarrow> model \<Rightarrow> bool" for X d0 m0 where
  begins: "live X d0 m0 d0 m0"
| event: "live X d0 m0 d m \<Longrightarrow> env_ok E \<Longrightarrow> \<not> reads_store ev \<Longrightarrow>
    live X d0 m0 (perform_all (snd (update X E ev m)) d) (fst (update X E ev m))"

lemma live_mirrored:
  assumes "codecs_ok X" "mirrored X d0 m0" "\<not> kv_load_failed m0"
  shows "live X d0 m0 d m \<Longrightarrow> mirrored X d m \<and> \<not> kv_load_failed m"
proof (induction rule: live.induct)
  case (event d m E ev)
  then show ?case
    using saved_update [OF assms(1) event.hyps(2), of d m ev] by (simp add: saved_def trusted_update)
qed (use assms in simp_all)

text \<open>C5. The store always reads back as the model, also after a crash. Over any session from the point
  where its reads are done and none failed, the settings, profile, contacts, queue, conversations and cursor decoded from the store
  are those of the model, and a stored dedup set is the one in memory or empty. If the process dies
  after any prefix of the writes of a step, either the stored cursor has not moved, so that the relay
  still holds the mail of the step, or everything the step writes is stored.\<close>

theorem store_mirrors_model:
  assumes "codecs_ok X" "mirrored X d0 m0" "\<not> kv_load_failed m0" "live X d0 m0 d m"
    and "env_ok E" "\<not> reads_store ev" "update X E ev m = (m', pre @ post)"
  shows "mirrored X d m \<and> mirrored X (perform_all (pre @ post) d) m' \<and>
    (perform_all pre d K_CURSOR = d K_CURSOR \<or> mirrored X (perform_all pre d) m')"
proof -
  have now: "mirrored X d m \<and> \<not> kv_load_failed m" using live_mirrored assms(1-4) by blast
  moreover have "mirrored X (perform_all (pre @ post) d) m'"
    using saved_update [OF assms(1,5) _ _ assms(6), of d m] now assms(7) by (simp add: saved_def)
  moreover have "cursor_last (pre @ post)" using update_cursor_last [of X E ev m] assms(7) by simp
  ultimately show ?thesis using perform_prefix [of pre post d] by metis
qed

section \<open>A store on which the properties hold\<close>

lemma mirrored_fresh: "mirrored X (\<lambda>_. None) model_default"
  by (auto simp: mirrored_def model_default_def holds_ids_def ids_finite_def or_default_def bt_values_def
      intro!: exI [of _ "[]"])

instance settings_ext :: (countable) countable
  by (rule countable_classI [of "\<lambda>s. to_nat (server_url s, settings.more s)"]) (auto intro: settings.equality)

instance own_profile_ext :: (countable) countable
  by (rule countable_classI [of "\<lambda>p. to_nat (op_display_name p, op_bio p, op_photo p, own_profile.more p)"])
    (auto intro: own_profile.equality)

instance contact_ext :: (countable) countable
  by (rule countable_classI [of "\<lambda>c. to_nat (c_pubkey c, c_nickname c, c_display_name c, c_bio c, c_photo c,
      (c_blocked c, c_last_profile_ts c, c_last_ack_ts c, c_added_at c, contact.more c))"])
    (auto intro: contact.equality)

instance stored_message_ext :: (countable) countable
  by (rule countable_classI [of "\<lambda>x. to_nat (m_id x, m_body x, m_ts x, m_outgoing x, m_delivered x, stored_message.more x)"])
    (auto intro: stored_message.equality)

instance outbox_item_ext :: (countable) countable
  by (rule countable_classI [of "\<lambda>i. to_nat (o_recipient i, o_envelope_json i, o_kind i, o_retries i, o_first_attempt i,
      outbox_item.more i)"])
    (auto intro: outbox_item.equality)

definition ref_pack :: "'v::countable \<Rightarrow> bytes" where
  "ref_pack v = replicate (to_nat v) 0"

definition ref_unpack :: "bytes \<Rightarrow> 'v::countable" where
  "ref_unpack b = from_nat (length b)"

lemma ref_unpack_pack [simp]: "ref_unpack (ref_pack v) = v"
  by (simp add: ref_pack_def ref_unpack_def)

definition ref_to_vec :: "kv_value \<Rightarrow> bytes option" where
  "ref_to_vec v = Some (case v of VSettings x \<Rightarrow> ref_pack x | VProfile x \<Rightarrow> ref_pack x | VContacts x \<Rightarrow> ref_pack x
     | VCursor x \<Rightarrow> ref_pack x | VOutbox x \<Rightarrow> ref_pack x | VMessages x \<Rightarrow> ref_pack x
     | VSeenIds x \<Rightarrow> ref_pack (map (\<lambda>(p, ids). (p, sorted_list_of_set ids)) x))"

definition ref_store_ext :: app_ext where
  "ref_store_ext = ref_app_ext\<lparr>to_vec := ref_to_vec, de_settings := Some \<circ> ref_unpack, de_profile := Some \<circ> ref_unpack,
     de_contacts := Some \<circ> ref_unpack, de_cursor := Some \<circ> ref_unpack, de_outbox := Some \<circ> ref_unpack,
     de_messages := Some \<circ> ref_unpack, de_seen_ids := \<lambda>b. Some (map (\<lambda>(p, ids). (p, set ids)) (ref_unpack b))\<rparr>"

lemma ref_store_codecs: "codecs_ok ref_store_ext"
proof -
  have "map ((\<lambda>(p, ids). (p, set ids)) \<circ> (\<lambda>(p, ids). (p, sorted_list_of_set ids))) v = v"
    if "ids_finite v" for v :: "ustr set btree"
    using that by (intro map_idI) (auto simp: ids_finite_def bt_values_def)
  then show ?thesis
    by (simp add: codecs_ok_def ref_store_ext_def json_bytes_def ref_to_vec_def)
qed

theorem store_mirrors_model_witness:
  "\<exists>d m pre post. live ref_store_ext (\<lambda>_. None) model_default d m \<and> op_display_name (profile m) = lit ''n'' \<and>
     snd (update ref_store_ext ref_env (SetServerUrl (lit ''a//'')) m) = pre @ post \<and> pre \<noteq> [] \<and>
     (perform_all pre d K_CURSOR = d K_CURSOR \<or>
       mirrored ref_store_ext (perform_all pre d) (fst (update ref_store_ext ref_env (SetServerUrl (lit ''a//'')) m)))"
proof -
  let ?s = "SaveProfile (lit ''n'') [] None" and ?u = "SetServerUrl (lit ''a//'')"
  let ?m = "fst (update ref_store_ext ref_env ?s model_default)"
  let ?d = "perform_all (snd (update ref_store_ext ref_env ?s model_default)) (\<lambda>_. None)"
  have live: "live ref_store_ext (\<lambda>_. None) model_default ?d ?m"
    by (rule live.event [OF live.begins ref_env_ok]) simp
  have name: "op_display_name (profile ?m) = lit ''n''"
    by (simp add: on_save_profile_def broadcast_profile_def lit_def size_caps is_some_and_def case_prod_unfold Let_def)
  obtain c cs where cs: "snd (update ref_store_ext ref_env ?u ?m) = [c] @ cs"
    by (cases "snd (update ref_store_ext ref_env ?u ?m)")
      (auto simp: on_set_server_url_def err_def case_prod_unfold Let_def split: option.splits)
  from store_mirrors_model [OF ref_store_codecs mirrored_fresh _ live ref_env_ok, of ?u _ "[c]" cs] cs
  have "perform_all [c] ?d K_CURSOR = ?d K_CURSOR \<or>
      mirrored ref_store_ext (perform_all [c] ?d) (fst (update ref_store_ext ref_env ?u ?m))"
    by (simp add: model_default_def prod_eq_iff)
  with live name cs show ?thesis by blast
qed

end
