(* ===== verification/Restart.thy ===== *)
theory Restart
  imports Storage
begin

text \<open>
  A restart from the store: the reads of a new session rebuild the model that wrote it. At the end, the
  places where what is stored, shown or sent is not what the comments of the code say.
\<close>

section \<open>A restart\<close>

text \<open>The reads of a new session, answered from the store.\<close>

definition startup_reads :: "store \<Rightarrow> event list" where
  "startup_reads d =
     [LoadedSettings (Inr (d K_SETTINGS)), LoadedProfile (Inr (d K_PROFILE)), LoadedContacts (Inr (d K_CONTACTS)),
      LoadedCursor (Inr (d K_CURSOR)), LoadedOutbox (Inr (d K_OUTBOX)), LoadedSeenIds (Inr (d K_SEEN_IDS))]"

definition conversation_read :: "store \<Rightarrow> ustr \<Rightarrow> event" where
  "conversation_read d p = LoadedMessages p (Inr (d (k_messages p)))"

text \<open>The ids a text of the peer is checked against, as \<open>store_text\<close> computes them.\<close>

definition dedup_ids :: "model \<Rightarrow> ustr \<Rightarrow> ustr set" where
  "dedup_ids m p = (if ids_of (seen_ids m) p = {} then set (map m_id (convo_of m p)) else ids_of (seen_ids m) p)"

definition relay_normal :: "'z app_ext_scheme \<Rightarrow> model \<Rightarrow> bool" where
  "relay_normal X m \<longleftrightarrow>
     (case normalize_server_url X (server_url (settings m)) of Some u \<Rightarrow> u | None \<Rightarrow> DEFAULT_SERVER_URL) =
       server_url (settings m)"

lemma insert_above: "\<forall>k'\<in>set (bt_keys l). k' < k \<Longrightarrow> bt_insert k v l = l @ [(k, v)]"
  by (induction k v l rule: bt_insert.induct) (auto simp: bt_keys_def)

lemma collect_sorted:
  assumes "bt_wf l"
  shows "bt_collect l = l"
proof -
  have "bt_wf (l1 @ l2) \<Longrightarrow> fold (\<lambda>(k, v). bt_insert k v) l2 l1 = l1 @ l2" for l1 l2 :: "(ustr \<times> 'a) list"
  proof (induction l2 arbitrary: l1)
    case (Cons kv l2)
    obtain k v where kv: "kv = (k, v)" by (cases kv)
    have "\<forall>k'\<in>set (bt_keys l1). k' < k"
      using Cons.prems by (auto simp: kv bt_wf_def bt_keys_def sorted_wrt_append)
    then show ?case using Cons.IH [of "l1 @ [(k, v)]"] Cons.prems by (simp add: kv insert_above)
  qed simp
  from this [of "[]" l] assms show ?thesis by (simp add: bt_collect_def)
qed

lemma collect_contacts:
  assumes "contacts_ok m"
  shows "bt_collect (map (\<lambda>c. (c_pubkey c, c)) (bt_values (contacts m))) = contacts m"
proof -
  have wf: "bt_wf (contacts m)" using assms by (simp add: contacts_ok_def)
  have "c_pubkey c = k" if "(k, c) \<in> set (contacts m)" for k c
    using assms that bt_get_Some_iff [OF wf] by (simp add: contacts_ok_def)
  then have "map (\<lambda>c. (c_pubkey c, c)) (bt_values (contacts m)) = contacts m"
    by (auto simp: bt_values_def intro!: map_idI)
  then show ?thesis using collect_sorted [OF wf] by simp
qed

lemma startup_done_frame [simp]:
  "settings (fst (startup_done m)) = settings m" "profile (fst (startup_done m)) = profile m"
  "contacts (fst (startup_done m)) = contacts m" "messages (fst (startup_done m)) = messages m"
  "seen_ids (fst (startup_done m)) = seen_ids m" "cursor (fst (startup_done m)) = cursor m"
  "outbox (fst (startup_done m)) = outbox m" "kv_load_failed (fst (startup_done m)) = kv_load_failed m"
  "fst (then_startup_done m) = fst (startup_done m)"
  by (simp_all add: startup_done_def startup_load_done_def then_startup_done_def case_prod_unfold Let_def)

definition restored :: "ustr set btree \<Rightarrow> model \<Rightarrow> event set \<Rightarrow> store \<Rightarrow> model \<Rightarrow> bool" where
  "restored t m S d m1 \<longleftrightarrow>
     settings m1 = (if LoadedSettings (Inr (d K_SETTINGS)) \<in> S then settings m else settings_default) \<and>
     profile m1 = (if LoadedProfile (Inr (d K_PROFILE)) \<in> S then profile m else own_profile_default) \<and>
     contacts m1 = (if LoadedContacts (Inr (d K_CONTACTS)) \<in> S then contacts m else []) \<and>
     cursor m1 = (if LoadedCursor (Inr (d K_CURSOR)) \<in> S then cursor m else 0) \<and>
     outbox m1 = (if LoadedOutbox (Inr (d K_OUTBOX)) \<in> S then outbox m else []) \<and>
     seen_ids m1 = (if LoadedSeenIds (Inr (d K_SEEN_IDS)) \<in> S then t else []) \<and>
     messages m1 = [] \<and> \<not> kv_load_failed m1"

lemma restored_step:
  assumes "mirrored X d m" "contacts_ok m" "relay_normal X m" "holds (de_seen_ids X) (d K_SEEN_IDS) [] t"
    and "ev \<in> set (startup_reads d)" "restored t m S d m1"
  shows "restored t m (insert ev S) d (fst (update X E ev m1))"
proof -
  have h: "holds (de_settings X) (d K_SETTINGS) settings_default (settings m)"
    "holds (de_profile X) (d K_PROFILE) own_profile_default (profile m)"
    "holds (de_contacts X) (d K_CONTACTS) [] (bt_values (contacts m))"
    "holds (de_outbox X) (d K_OUTBOX) [] (outbox m)" "holds (de_cursor X) (d K_CURSOR) 0 (cursor m)"
    using assms(1) by (simp_all add: mirrored_def)
  note reads = h [THEN holds_parse_kv] assms(4) [THEN holds_parse_kv]
  have none: "d K_SETTINGS = None \<Longrightarrow> settings_default = settings m" "d K_PROFILE = None \<Longrightarrow> own_profile_default = profile m"
    "d K_CONTACTS = None \<Longrightarrow> contacts m = []" "d K_OUTBOX = None \<Longrightarrow> outbox m = []" "d K_CURSOR = None \<Longrightarrow> cursor m = 0"
    "d K_SEEN_IDS = None \<Longrightarrow> t = []"
    using h assms(4) by (auto simp: bt_values_def)
  have relay: "s\<lparr>server_url := case normalize_server_url X (server_url (settings m)) of Some u \<Rightarrow> u
      | None \<Rightarrow> DEFAULT_SERVER_URL\<rparr> = settings m" for s :: settings
    using assms(3) by (simp add: relay_normal_def)
  note r = assms(6) [unfolded restored_def]
  consider "ev = LoadedSettings (Inr (d K_SETTINGS))" | "ev = LoadedProfile (Inr (d K_PROFILE))"
    | "ev = LoadedContacts (Inr (d K_CONTACTS))" | "ev = LoadedCursor (Inr (d K_CURSOR))"
    | "ev = LoadedOutbox (Inr (d K_OUTBOX))" | "ev = LoadedSeenIds (Inr (d K_SEEN_IDS))"
    using assms(5) by (auto simp: startup_reads_def)
  then show ?thesis
  proof cases
    case 1
    then show ?thesis using r none(1) by (simp add: restored_def on_loaded_settings_def reads(1) relay)
  next
    case 2
    then show ?thesis using r none(2) by (simp add: restored_def on_loaded_profile_def reads(2))
  next
    case 3
    then show ?thesis using r none(3)
      by (simp add: restored_def on_loaded_contacts_def reads(3) collect_contacts [OF assms(2)] case_prod_unfold Let_def)
  next
    case 4
    then show ?thesis using r none(5) by (simp add: restored_def on_loaded_cursor_def reads(5))
  next
    case 5
    then show ?thesis using r none(4) by (simp add: restored_def on_loaded_outbox_def reads(4))
  next
    case 6
    then show ?thesis using r none(6) by (simp add: restored_def on_loaded_seen_ids_def reads(6))
  qed
qed

lemma restored_run:
  assumes "mirrored X d m" "contacts_ok m" "relay_normal X m" "holds (de_seen_ids X) (d K_SEEN_IDS) [] t"
    and "set evs \<subseteq> set (startup_reads d)" "restored t m S d m1"
  shows "restored t m (S \<union> set evs) d (fst (run_events X E evs m1))"
  using assms(5,6)
proof (induction evs arbitrary: S m1)
  case (Cons ev evs)
  have "restored t m (insert ev S) d (fst (update X E ev m1))"
    using Cons.prems by (intro restored_step [OF assms(1-4)]) simp_all
  from Cons.IH [OF _ this] Cons.prems(1) show ?case by (simp add: case_prod_unfold Let_def)
qed simp

lemma conversations_run:
  assumes "mirrored X d m" "distinct ps" "\<forall>p\<in>set ps. bt_get (messages m1) p = None" "\<not> kv_load_failed m1"
    and "m2 = fst (run_events X E (map (conversation_read d) ps) m1)"
  shows "settings m2 = settings m1 \<and> profile m2 = profile m1 \<and> contacts m2 = contacts m1 \<and> cursor m2 = cursor m1 \<and>
    outbox m2 = outbox m1 \<and> loads_pending m2 = loads_pending m1 \<and> \<not> kv_load_failed m2 \<and>
    (\<forall>p. convo_of m2 p = (if p \<in> set ps then convo_of m p else convo_of m1 p) \<and>
       bt_get (seen_ids m2) p = (if p \<in> set ps then map_option (\<lambda>ids. ids \<union> set (map m_id (convo_of m p))) (bt_get (seen_ids m1) p)
         else bt_get (seen_ids m1) p))"
  using assms(2-5)
proof (induction ps arbitrary: m1 m2)
  case (Cons p ps)
  define n where "n = fst (update X E (conversation_read d p) m1)"
  have h: "holds (de_messages X) (d (k_messages p)) [] (convo_of m p)" using assms(1) by (simp add: mirrored_def)
  note r = holds_parse_kv [OF h]
  have absent: "d (k_messages p) = None \<Longrightarrow> convo_of m p = []" using h by auto
  have new: "bt_get (messages m1) p = None" using Cons.prems(2) by simp
  have n: "settings n = settings m1" "profile n = profile m1" "contacts n = contacts m1" "cursor n = cursor m1"
    "outbox n = outbox m1" "loads_pending n = loads_pending m1" "\<not> kv_load_failed n"
    using Cons.prems(3) by (auto simp: n_def conversation_read_def on_loaded_messages_def r)
  have tables: "convo_of n q = (if q = p then convo_of m p else convo_of m1 q)"
      "q \<noteq> p \<Longrightarrow> bt_get (messages n) q = bt_get (messages m1) q"
      "bt_get (seen_ids n) q = (if q = p then map_option (\<lambda>ids. ids \<union> set (map m_id (convo_of m p))) (bt_get (seen_ids m1) p)
         else bt_get (seen_ids m1) q)" for q
    using new absent
    by (cases "d (k_messages p) = None"; simp add: n_def conversation_read_def on_loaded_messages_def r bt_get_simps
        or_default_def [of _ None] or_default_def [of _ "Some _"] option.map_ident)+
  have "\<forall>q\<in>set ps. bt_get (messages n) q = None"
    using Cons.prems(1,2) tables(2) by (metis distinct.simps(2) list.set_intros(2))
  from Cons.IH [OF _ this n(7), of "fst (run_events X E (map (conversation_read d) ps) n)"] Cons.prems(1,4)
  show ?case by (auto simp: n tables case_prod_unfold Let_def simp flip: n_def)
qed simp

lemma run_events_append: "fst (run_events X E (evs @ evs') m) = fst (run_events X E evs' (fst (run_events X E evs m)))"
  by (induction evs arbitrary: m) (simp_all add: case_prod_unfold Let_def)

text \<open>C6. A restart rebuilds the model from the store. When the reads of a new session, in any order, and
  the reads of the conversations they ask for are answered from a store that mirrors a model, the new
  session ends up with the settings, profile, contacts, cursor, queue and conversations of that model
  and no failed read, and no text of a restored conversation can be stored a second time.\<close>

theorem restart_restores:
  assumes "mirrored X d m" "contacts_ok m" "relay_normal X m" "from_secret_bytes X sk = Ok ident"
    and "mset evs = mset (startup_reads d)" "mset ps = mset (bt_keys (contacts m))"
    and "m' = fst (run_events X E (IdentityLoaded sk # evs @ map (conversation_read d) ps) model_default)"
  shows "settings m' = settings m \<and> profile m' = profile m \<and> contacts m' = contacts m \<and> cursor m' = cursor m \<and>
    outbox m' = outbox m \<and> loads_pending m' = 0 \<and> \<not> kv_load_failed m' \<and>
    (\<forall>p. bt_get (contacts m) p \<noteq> None \<longrightarrow>
       convo_of m' p = convo_of m p \<and> set (map m_id (convo_of m' p)) \<subseteq> dedup_ids m' p)"
proof -
  obtain t where t: "holds (de_seen_ids X) (d K_SEEN_IDS) [] t" using assms(1) by (auto simp: mirrored_def holds_ids_def)
  define m0 where "m0 = fst (update X E (IdentityLoaded sk) model_default)"
  define m1 where "m1 = fst (run_events X E evs m0)"
  have m0: "restored t m {} d m0" "loads_pending m0 = STARTUP_LOADS"
    using assms(4) by (simp_all add: m0_def on_identity_loaded_def restored_def model_default_def)
  have sets: "set evs = set (startup_reads d)" "set ps = set (bt_keys (contacts m))"
    using assms(5,6) mset_eq_setD by blast+
  have "distinct (bt_keys (contacts m))" using assms(2) by (simp add: contacts_ok_def bt_wf_distinct)
  then have ps: "distinct ps" using assms(6) mset_eq_imp_distinct_iff by blast
  have "restored t m (set evs) d m1"
    using restored_run [OF assms(1-3) t _ m0(1), of evs E] sets(1) by (simp add: m1_def)
  then have m1: "settings m1 = settings m" "profile m1 = profile m" "contacts m1 = contacts m" "cursor m1 = cursor m"
      "outbox m1 = outbox m" "messages m1 = []" "\<not> kv_load_failed m1"
    unfolding sets(1) restored_def startup_reads_def by simp_all
  have "length evs = STARTUP_LOADS" using mset_eq_length [OF assms(5)] by (simp add: startup_reads_def STARTUP_LOADS_def)
  moreover have "\<forall>ev\<in>set evs. startup_load ev" unfolding sets(1) by (simp add: startup_reads_def)
  ultimately have pending: "loads_pending m1 = 0" using loads_run [of evs m0 X E] m0(2) by (simp add: m1_def)
  have "m' = fst (run_events X E (map (conversation_read d) ps) m1)"
    by (simp add: assms(7) m1_def m0_def run_events_append case_prod_unfold Let_def)
  from conversations_run [OF assms(1) ps _ m1(7) this]
  have run: "settings m' = settings m1 \<and> profile m' = profile m1 \<and> contacts m' = contacts m1 \<and> cursor m' = cursor m1 \<and>
    outbox m' = outbox m1 \<and> loads_pending m' = loads_pending m1 \<and> \<not> kv_load_failed m'"
    "p \<in> set ps \<Longrightarrow> convo_of m' p = convo_of m p \<and>
       bt_get (seen_ids m') p = map_option (\<lambda>ids. ids \<union> set (map m_id (convo_of m p))) (bt_get (seen_ids m1) p)" for p
    using m1(6) by simp_all
  have "convo_of m' p = convo_of m p \<and> set (map m_id (convo_of m' p)) \<subseteq> dedup_ids m' p"
    if "bt_get (contacts m) p \<noteq> None" for p
  proof -
    have "p \<in> set ps" using that sets(2) by (simp add: bt_get_None_iff)
    from run(2) [OF this] show ?thesis
      by (cases "bt_get (seen_ids m1) p") (auto simp: dedup_ids_def or_default_def [of _ "Some _"] or_default_def [of _ None])
  qed
  moreover have "settings m' = settings m \<and> profile m' = profile m \<and> contacts m' = contacts m \<and> cursor m' = cursor m \<and>
    outbox m' = outbox m \<and> loads_pending m' = 0 \<and> \<not> kv_load_failed m'"
    using run(1) m1 pending by simp
  ultimately show ?thesis by blast
qed

definition ref_saved :: model where
  "ref_saved = model_default\<lparr>contacts := [(ref_peer, contact_new ref_peer (lit ''bob'') 1)],
     messages := [(ref_peer, [ref_msg ''a'' 1, ref_msg ''b'' 2])], outbox := [ref_item], cursor := 7\<rparr>"

definition ref_disk :: store where
  "ref_disk = (\<lambda>_. None)(K_CONTACTS := Some (json_bytes ref_store_ext (VContacts [contact_new ref_peer (lit ''bob'') 1])),
     K_OUTBOX := Some (json_bytes ref_store_ext (VOutbox [ref_item])), K_CURSOR := Some (json_bytes ref_store_ext (VCursor 7)),
     k_messages ref_peer := Some (json_bytes ref_store_ext (VMessages [ref_msg ''a'' 1, ref_msg ''b'' 2])))"

lemma ref_disk_mirrors: "mirrored ref_store_ext ref_disk ref_saved"
proof -
  have "holds (de_messages ref_store_ext) (ref_disk (k_messages p)) [] (convo_of ref_saved p)" for p
    by (cases "p = ref_peer") (simp_all add: ref_disk_def ref_saved_def model_default_def bt_get_def or_default_def
        codec_simps [OF ref_store_codecs])
  then show ?thesis
    by (auto simp: mirrored_def ref_disk_def ref_saved_def model_default_def codec_simps [OF ref_store_codecs] holds_ids_def
        ids_finite_def bt_values_def or_default_def intro!: exI [of _ "[]"])
qed

lemma ref_store_identity: "from_secret_bytes ref_store_ext (replicate 64 b) = Ok (ref_identity b)"
  by (simp add: from_secret_bytes_def with_x25519_def ed25519_sk_to_x25519_def ref_store_ext_def ref_app_ext_def
      ref_protocol_ext_def ref_crypto_ext_def ref_identity_def crypto_ext.defs protocol_ext.defs app_ext.defs size_caps
      Let_def all_zero_def list_all_iff)

theorem restart_restores_witness:
  "convo_of (fst (run_events ref_store_ext ref_env
     (IdentityLoaded (replicate 64 1) # rev (startup_reads ref_disk) @ map (conversation_read ref_disk) [ref_peer]) model_default)) ref_peer =
   [ref_msg ''a'' 1, ref_msg ''b'' 2]"
proof -
  have c: "contacts_ok ref_saved"
    by (auto simp: contacts_ok_def ref_saved_def bt_wf_def bt_keys_def bt_get_def split: if_splits)
  have "trim DEFAULT_SERVER_URL = DEFAULT_SERVER_URL" "trim_end_matches 47 DEFAULT_SERVER_URL = DEFAULT_SERVER_URL"
    "DEFAULT_SERVER_URL \<noteq> []" by code_simp+
  then have r: "relay_normal ref_store_ext ref_saved"
    by (simp add: relay_normal_def ref_saved_def model_default_def settings_default_def normalize_server_url_def
        ref_store_ext_def ref_app_ext_def ref_protocol_ext_def protocol_ext.defs app_ext.defs)
  have i: "from_secret_bytes ref_store_ext (replicate 64 1) = Ok (ref_identity 1)" by (rule ref_store_identity)
  have "mset [ref_peer] = mset (bt_keys (contacts ref_saved))" by (simp add: ref_saved_def bt_keys_def)
  from restart_restores [OF ref_disk_mirrors c r i _ this refl, of "rev (startup_reads ref_disk)" ref_env]
  show ?thesis by (simp add: ref_saved_def bt_get_def or_default_def del: run_events.simps)
qed

section \<open>Where the code and its comments part\<close>

text \<open>A conversation is read on its own, after the start-up reads that hold back a connection. A text sent
  before the read is answered is written over the whole stored history; the answer is merged into the
  model, but the merged conversation is not written.\<close>

lemma text_before_load_overwrites:
  assumes "active_peer m = Some p" "bt_get (contacts m) p = Some c" "\<not> c_blocked c" "trim (compose m) \<noteq> []"
    and "ulen (trim (compose m)) \<le> MAX_BODY_LEN" "bt_get (messages m) p = None" "\<not> kv_load_failed m"
    and "d (k_messages p) = Some b" "de_messages X b = Some l"
    and "m1 = fst (update X E SendText m)" "d1 = perform_all (snd (update X E SendText m)) d"
    and "r = update X E' (LoadedMessages p (Inr (d (k_messages p)))) m1"
  shows "\<exists>x. d1 (k_messages p) = Some (json_bytes X (VMessages [x])) \<and> perform_all (snd r) d1 = d1 \<and>
    convo_of (fst r) p = merge_history [x] l"
proof -
  define x where "x = \<lparr>m_id = uuid E, m_body = trim (compose m), m_ts = now_ms E 0, m_outgoing = True, m_delivered = False\<rparr>"
  have one: "trim_history (insert_sorted [] x) = [x]"
    by (simp add: convo.trim_eq insert_sorted_def MAX_MESSAGES_PER_PEER_def)
  have "bt_get (messages m1) p = Some [x]" "d1 (k_messages p) = Some (json_bytes X (VMessages [x]))"
    using assms(1-7) one
    by (simp_all add: assms(10,11) send_text_def compose_text_def is_some_and_def case_prod_unfold Let_def bt_get_simps
        or_default_def w_messages.written w_contacts.written w_outbox.written flip: x_def)
  then show ?thesis
    using assms(8,9) by (auto simp: assms(12) on_loaded_messages_def parse_kv_def bt_get_simps or_default_def)
qed

text \<open>An acknowledgement that arrives before the conversation is read is lost: it moves the contact's
  last acknowledgement, and the messages read later stay undelivered.\<close>

lemma ack_before_load_lost:
  assumes "bt_get (messages (i_model s)) p = None" "bt_get (contacts (i_model s)) p = Some c" "c_last_ack_ts c \<le> pa_ts pa"
    and "m1 = i_model (apply_ack now p pa s)" "parse_kv (de_messages X) r = Inr (Some l)"
  shows "c_last_ack_ts (the (bt_get (contacts m1) p)) = min (pa_ts pa) now \<and>
    convo_of (fst (update X E (LoadedMessages p r) m1)) p = l"
  using assms by (simp add: apply_ack_def on_loaded_messages_def is_some_and_def Let_def bt_get_simps or_default_def)

text \<open>\<open>AddContact\<close> refuses our own key and receiving ignores our own mail, but a chat opened on our own key
  sends to it, and makes a contact of it.\<close>

lemma own_key_contact:
  assumes "active_peer m = Some (my_pubkey m)" "bt_get (contacts m) (my_pubkey m) = None" "length (contacts m) < MAX_CONTACTS"
    and "trim (compose m) \<noteq> []" "ulen (trim (compose m)) \<le> MAX_BODY_LEN" "m' = fst (update X E SendText m)"
  shows "bt_get (contacts m') (my_pubkey m) \<noteq> None \<and> (\<exists>i\<in>set (outbox m'). o_recipient i = my_pubkey m)"
  using assms by (simp add: send_text_def compose_text_def is_some_and_def case_prod_unfold Let_def bt_get_simps)

end
