(* ===== verification/Blocking.thy ===== *)
theory Blocking
  imports Restart Delivery
begin

text \<open>
  Blocking over the whole life of a client: any number of starts on one store, whose reads may fail,
  with any events in between. At the end, the two ways mail for a blocked contact can still be queued.
\<close>

section \<open>The life of a client\<close>

text \<open>The reads of a start are answered with what the store holds, or fail, in any order.\<close>

definition answered :: "store \<Rightarrow> ustr \<Rightarrow> kv_data \<Rightarrow> bool" where
  "answered d k r \<longleftrightarrow> r = Inr (d k) \<or> (\<exists>e. r = Inl e)"

definition start_answers :: "store \<Rightarrow> event list \<Rightarrow> bool" where
  "start_answers d evs \<longleftrightarrow>
     (\<exists>r1 r2 r3 r4 r5 r6. answered d K_SETTINGS r1 \<and> answered d K_PROFILE r2 \<and> answered d K_CONTACTS r3 \<and>
        answered d K_CURSOR r4 \<and> answered d K_OUTBOX r5 \<and> answered d K_SEEN_IDS r6 \<and>
        mset evs = mset [LoadedSettings r1, LoadedProfile r2, LoadedContacts r3, LoadedCursor r4, LoadedOutbox r5, LoadedSeenIds r6])"

definition plain_event :: "event \<Rightarrow> bool" where
  "plain_event ev \<longleftrightarrow> \<not> startup_load ev \<and> (\<forall>sk. ev \<noteq> IdentityLoaded sk)"

text \<open>A client starts with an empty store. Events change the model and, through the writes they request,
  the store. The process may end after any event; a new one finds the store as it is and answers its
  reads before anything else happens.\<close>

inductive lifetime :: "'z app_ext_scheme \<Rightarrow> store \<Rightarrow> model \<Rightarrow> bool" for X where
  installed: "lifetime X (\<lambda>_. None) model_default"
| event: "lifetime X d m \<Longrightarrow> env_ok E \<Longrightarrow> plain_event ev \<Longrightarrow>
    lifetime X (perform_all (snd (update X E ev m)) d) (fst (update X E ev m))"
| start: "lifetime X d m \<Longrightarrow> start_answers d evs \<Longrightarrow>
    lifetime X d (fst (run_events X E (IdentityLoaded sk # evs) model_default))"

text \<open>A decoded dedup set is a \<open>HashSet\<close>, hence finite.\<close>

definition sets_finite :: "'z app_ext_scheme \<Rightarrow> bool" where
  "sets_finite X \<longleftrightarrow> (\<forall>b t. de_seen_ids X b = Some t \<longrightarrow> ids_finite t)"

section \<open>The stored contacts and queue\<close>

definition held :: "'z app_ext_scheme \<Rightarrow> store \<Rightarrow> model \<Rightarrow> bool" where
  "held X d m \<longleftrightarrow>
     holds (de_contacts X) (d K_CONTACTS) [] (bt_values (contacts m)) \<and> holds (de_outbox X) (d K_OUTBOX) [] (outbox m)"

lemma held_cong: "held X d m \<Longrightarrow> contacts m' = contacts m \<Longrightarrow> outbox m' = outbox m \<Longrightarrow> held X d m'"
  by (simp add: held_def)

lemma perform_all_slot: "d k = d' k \<Longrightarrow> perform_all cs d k = perform_all cs d' k"
proof (induction cs arbitrary: d d')
  case (Cons c cs)
  have "perform c d k = perform c d' k" using Cons.prems by (cases c) simp_all
  then have "perform_all cs (perform c d) k = perform_all cs (perform c d') k" by (rule Cons.IH)
  then show ?case by simp
qed simp

lemma ids_finite_modify:
  "ids_finite t \<Longrightarrow> (\<And>ids. finite ids \<Longrightarrow> finite (f ids)) \<Longrightarrow> ids_finite (bt_modify p f t)"
  by (auto simp: ids_finite_def bt_values_def bt_modify_def)

text \<open>The rest of the store does not matter to these two slots, so it may be taken to mirror the model.\<close>

definition filled :: "'z app_ext_scheme \<Rightarrow> store \<Rightarrow> model \<Rightarrow> store" where
  "filled X d m = (\<lambda>k.
     if k = K_CONTACTS \<or> k = K_OUTBOX then d k
     else if k = K_SETTINGS then Some (json_bytes X (VSettings (settings m)))
     else if k = K_PROFILE then Some (json_bytes X (VProfile (profile m)))
     else if k = K_CURSOR then Some (json_bytes X (VCursor (cursor m)))
     else if k = K_SEEN_IDS then Some (json_bytes X (VSeenIds (seen_ids m)))
     else Some (json_bytes X (VMessages (convo_of m (drop (length (lit ''messages:'')) k)))))"

lemma filled_mirrors:
  assumes "codecs_ok X" "held X d m" "ids_finite (seen_ids m)"
  shows "mirrored X (filled X d m) m"
  using assms(2) holds_ids_written [OF assms(1,3)]
  by (simp add: mirrored_def filled_def held_def codec_simps [OF assms(1)]) (simp add: k_messages_def codec_simps [OF assms(1)])

lemma held_event:
  assumes "codecs_ok X" "env_ok E" "held X d m" "ids_finite (seen_ids m)" "\<not> kv_load_failed m" "plain_event ev"
  shows "kv_load_failed (fst (update X E ev m)) \<and> contacts (fst (update X E ev m)) = contacts m \<and>
      outbox (fst (update X E ev m)) = outbox m \<and> snd (update X E ev m) = [Render] \<or>
    held X (perform_all (snd (update X E ev m)) d) (fst (update X E ev m)) \<and> ids_finite (seen_ids (fst (update X E ev m)))"
proof (cases "\<exists>p r. ev = LoadedMessages p r")
  case True
  then obtain p r where ev: "ev = LoadedMessages p r" by blast
  show ?thesis
    using assms(3,4)
    by (auto simp: ev on_loaded_messages_def load_failed_def err_def held_def
        intro!: ids_finite_modify split: sum.split option.split)
next
  case False
  then have "\<not> reads_store ev" using assms(6) by (cases ev) (auto simp: plain_event_def)
  from saved_update [OF assms(1,2) filled_mirrors [OF assms(1,3,4)] assms(5) this]
  have m: "mirrored X (perform_all (snd (update X E ev m)) (filled X d m)) (fst (update X E ev m))" by (simp add: saved_def)
  have "perform_all (snd (update X E ev m)) (filled X d m) k = perform_all (snd (update X E ev m)) d k"
    if "k = K_CONTACTS \<or> k = K_OUTBOX" for k
    using that by (intro perform_all_slot) (auto simp: filled_def)
  with m show ?thesis by (simp add: mirrored_def held_def holds_ids_def)
qed

text \<open>After a failed read nothing is written, and only conversations are deleted.\<close>

lemma latched_slots:
  assumes "kv_load_failed m" "plain_event ev"
  shows "kv_load_failed (fst (update X E ev m))"
    and "perform_all (snd (update X E ev m)) d K_CONTACTS = d K_CONTACTS"
    and "perform_all (snd (update X E ev m)) d K_OUTBOX = d K_OUTBOX"
proof -
  have l: "latched (update X E ev m)" using latched_update [of m ev X E] assms by (simp add: plain_event_def)
  then show "kv_load_failed (fst (update X E ev m))" by (simp add: latched_def)
  have no: "\<not> touches k c" if "c \<in> set (snd (update X E ev m))" "\<And>p. k \<noteq> k_messages p" for k c
  proof (cases c)
    case (KvDelete k' t)
    then show ?thesis using latched_deletes [OF assms(1)] that by fastforce
  qed (use l that in \<open>auto simp: latched_def\<close>)
  show "perform_all (snd (update X E ev m)) d K_CONTACTS = d K_CONTACTS"
    by (rule perform_all_untouched) (rule no, simp_all)
  show "perform_all (snd (update X E ev m)) d K_OUTBOX = d K_OUTBOX"
    by (rule perform_all_untouched) (rule no, simp_all)
qed

section \<open>A start\<close>

text \<open>During a start the contacts and the queue are empty or as stored; once both reads are answered they
  are as stored or a read has failed.\<close>

definition starting :: "model \<Rightarrow> event set \<Rightarrow> model \<Rightarrow> bool" where
  "starting mm S m \<longleftrightarrow>
     in_flight m = None \<and> ids_finite (seen_ids m) \<and> (contacts m = [] \<or> contacts m = contacts mm) \<and>
     (outbox m = [] \<or> outbox m = outbox mm) \<and>
     ((\<exists>r. LoadedContacts r \<in> S) \<longrightarrow> kv_load_failed m \<or> contacts m = contacts mm) \<and>
     ((\<exists>r. LoadedOutbox r \<in> S) \<longrightarrow> kv_load_failed m \<or> outbox m = outbox mm)"

definition answer_of :: "store \<Rightarrow> event \<Rightarrow> bool" where
  "answer_of d ev \<longleftrightarrow>
     (case ev of LoadedSettings r \<Rightarrow> True | LoadedProfile r \<Rightarrow> True | LoadedCursor r \<Rightarrow> True | LoadedSeenIds r \<Rightarrow> True
      | LoadedContacts r \<Rightarrow> answered d K_CONTACTS r | LoadedOutbox r \<Rightarrow> answered d K_OUTBOX r | _ \<Rightarrow> False)"

lemma startup_done_flight [simp]: "in_flight (fst (startup_done m)) = in_flight m"
  by (simp add: startup_done_def startup_load_done_def case_prod_unfold Let_def)

lemma load_failed_simps [simp]:
  "kv_load_failed (load_failed w m)" "contacts (load_failed w m) = contacts m" "outbox (load_failed w m) = outbox m"
  "in_flight (load_failed w m) = in_flight m" "seen_ids (load_failed w m) = seen_ids m"
  by (simp_all add: load_failed_def err_def)

lemma starting_step:
  assumes "held X d mm" "contacts_ok mm" "sets_finite X" "answer_of d ev" "starting mm S m"
  shows "starting mm (insert ev S) (fst (update X E ev m))"
proof -
  have h: "holds (de_contacts X) (d K_CONTACTS) [] (bt_values (contacts mm))" "holds (de_outbox X) (d K_OUTBOX) [] (outbox mm)"
    using assms(1) by (simp_all add: held_def)
  note reads = h [THEN holds_parse_kv]
  have none: "d K_CONTACTS = None \<Longrightarrow> contacts mm = []" "d K_OUTBOX = None \<Longrightarrow> outbox mm = []"
    using h by (auto simp: bt_values_def)
  have fail: "parse_kv de (Inl e) = Inl ()" for de :: "bytes \<Rightarrow> 'b option" and e by (simp add: parse_kv_def)
  show ?thesis
  proof (cases ev)
    case (LoadedSettings r)
    then show ?thesis using assms(5) by (auto simp: starting_def on_loaded_settings_def split: sum.split option.split)
  next
    case (LoadedProfile r)
    then show ?thesis using assms(5) by (auto simp: starting_def on_loaded_profile_def split: sum.split option.split)
  next
    case (LoadedCursor r)
    then show ?thesis using assms(5) by (auto simp: starting_def on_loaded_cursor_def split: sum.split option.split)
  next
    case (LoadedSeenIds r)
    have "ids_finite t" if "parse_kv (de_seen_ids X) r = Inr (Some t)" for t
      using that assms(3) by (auto simp: parse_kv_def sets_finite_def split: sum.splits option.splits)
    then show ?thesis
      using LoadedSeenIds assms(5)
      by (auto simp: starting_def on_loaded_seen_ids_def ids_finite_def [of "[]"] bt_values_def split: sum.split option.split)
  next
    case (LoadedContacts r)
    let ?m = "fst (startup_done m)"
    have read: "fst (update X E (LoadedContacts (Inr (d K_CONTACTS))) m) = (if d K_CONTACTS = None then ?m else ?m\<lparr>contacts := contacts mm\<rparr>)"
      by (simp add: on_loaded_contacts_def reads(1) case_prod_unfold Let_def collect_contacts [OF assms(2)])
    have unread: "fst (update X E (LoadedContacts (Inl e)) m) = load_failed ''contacts'' ?m" for e
      by (simp add: on_loaded_contacts_def fail case_prod_unfold Let_def)
    have "r = Inr (d K_CONTACTS) \<or> (\<exists>e. r = Inl e)" using LoadedContacts assms(4) by (simp add: answer_of_def answered_def)
    then consider "fst (update X E ev m) = load_failed ''contacts'' ?m" | "fst (update X E ev m) = ?m" "contacts mm = []"
      | "fst (update X E ev m) = ?m\<lparr>contacts := contacts mm\<rparr>"
      using read unread none(1) unfolding LoadedContacts by metis
    then show ?thesis
      using assms(5) by cases (auto simp: starting_def LoadedContacts)
  next
    case (LoadedOutbox r)
    then have "r = Inr (d K_OUTBOX) \<or> (\<exists>e. r = Inl e)" using assms(4) by (simp add: answer_of_def answered_def)
    then show ?thesis
      using LoadedOutbox assms(5) none(2) by (auto simp: starting_def on_loaded_outbox_def reads fail)
  qed (use assms(4) in \<open>simp_all add: answer_of_def\<close>)
qed

lemma starting_run:
  assumes "held X d mm" "contacts_ok mm" "sets_finite X" "\<forall>ev\<in>set evs. answer_of d ev" "starting mm S m"
  shows "starting mm (S \<union> set evs) (fst (run_events X E evs m))"
  using assms(4,5)
proof (induction evs arbitrary: S m)
  case (Cons ev evs)
  have "starting mm (insert ev S) (fst (update X E ev m))"
    using Cons.prems by (intro starting_step [OF assms(1-3)]) simp_all
  from Cons.IH [OF _ this] Cons.prems(1) show ?case by (simp add: case_prod_unfold Let_def)
qed simp

lemma started:
  assumes "held X d mm" "contacts_ok mm" "sets_finite X" "start_answers d evs"
    and "m = fst (run_events X E (IdentityLoaded sk # evs) model_default)"
  shows "starting mm (set evs) m \<and> (kv_load_failed m \<or> contacts m = contacts mm \<and> outbox m = outbox mm)"
proof -
  obtain r1 r2 r3 r4 r5 r6 where r: "answered d K_CONTACTS r3" "answered d K_OUTBOX r5"
    "set evs = {LoadedSettings r1, LoadedProfile r2, LoadedContacts r3, LoadedCursor r4, LoadedOutbox r5, LoadedSeenIds r6}"
    using assms(4) mset_eq_setD unfolding start_answers_def by fastforce
  have "starting mm {} (fst (update X E (IdentityLoaded sk) model_default))"
    by (simp add: starting_def on_identity_loaded_def model_default_def err_def ids_finite_def bt_values_def split: outcome.split)
  moreover have "\<forall>ev\<in>set evs. answer_of d ev" using r by (auto simp: answer_of_def)
  ultimately have "starting mm (set evs) m"
    using starting_run [OF assms(1-3), of evs "{}"] by (simp add: assms(5) case_prod_unfold Let_def)
  moreover have "\<exists>r. LoadedContacts r \<in> set evs" "\<exists>r. LoadedOutbox r \<in> set evs" unfolding r(3) by blast+
  ultimately show ?thesis unfolding starting_def by blast
qed

section \<open>The queue over the life of a client\<close>

definition life_ok :: "'z app_ext_scheme \<Rightarrow> store \<Rightarrow> model \<Rightarrow> bool" where
  "life_ok X d m \<longleftrightarrow>
     queue_ok m \<and> (\<exists>mm. held X d mm \<and> contacts_ok mm \<and> clear_queue mm) \<and>
     (kv_load_failed m \<or> held X d m \<and> ids_finite (seen_ids m))"

lemma life_event:
  assumes "codecs_ok X" "env_ok E" "life_ok X d m" "plain_event ev"
  shows "life_ok X (perform_all (snd (update X E ev m)) d) (fst (update X E ev m))"
proof -
  let ?m = "fst (update X E ev m)" and ?d = "perform_all (snd (update X E ev m)) d"
  have "\<not> replaces_tables ev" using assms(4) by (cases ev) (auto simp: plain_event_def replaces_tables_def)
  then have q: "queue_ok ?m"
    using queue_update [of m ev X E] assms(3) by (simp add: life_ok_def queue_step_def)
  obtain mm where mm: "held X d mm" "contacts_ok mm" "clear_queue mm" using assms(3) by (auto simp: life_ok_def)
  show ?thesis
  proof (cases "kv_load_failed m")
    case True
    note l = latched_slots [OF this assms(4)]
    have "held X ?d mm" using mm(1) by (simp add: held_def l)
    with q mm l(1) show ?thesis by (auto simp: life_ok_def)
  next
    case False
    then have h: "held X d m" "ids_finite (seen_ids m)" using assms(3) by (auto simp: life_ok_def)
    from held_event [OF assms(1,2) h False assms(4)] show ?thesis
    proof
      assume "kv_load_failed ?m \<and> contacts ?m = contacts m \<and> outbox ?m = outbox m \<and> snd (update X E ev m) = [Render]"
      with q mm show ?thesis by (auto simp: life_ok_def)
    next
      assume "held X ?d ?m \<and> ids_finite (seen_ids ?m)"
      with q show ?thesis by (auto simp: life_ok_def queue_ok_def)
    qed
  qed
qed

lemma life_start:
  assumes "sets_finite X" "life_ok X d m0" "start_answers d evs"
    and "m = fst (run_events X E (IdentityLoaded sk # evs) model_default)"
  shows "life_ok X d m"
proof -
  obtain mm where mm: "held X d mm" "contacts_ok mm" "clear_queue mm" using assms(2) by (auto simp: life_ok_def)
  note s = started [OF mm(1,2) assms(1,3,4)]
  then have "contacts_ok m" "clear_queue m"
    using mm(2,3) by (auto simp: starting_def contacts_ok_def clear_queue_def blocked_def is_some_and_def)
  with s have "queue_ok m" by (auto simp: queue_ok_def starting_def)
  with s mm show ?thesis by (auto simp: life_ok_def starting_def held_def)
qed

lemma life_always:
  assumes "codecs_ok X" "sets_finite X"
  shows "lifetime X d m \<Longrightarrow> life_ok X d m"
proof (induction rule: lifetime.induct)
  case installed
  have "queue_ok model_default" "held X (\<lambda>_. None) model_default"
    by (simp_all add: queue_ok_def contacts_ok_def clear_queue_def held_def model_default_def bt_wf_def bt_keys_def
        bt_values_def bt_get_def)
  moreover have "ids_finite (seen_ids model_default)" by (simp add: model_default_def ids_finite_def bt_values_def)
  ultimately show ?case by (auto simp: life_ok_def queue_ok_def)
next
  case (event d m E ev)
  then show ?case by (intro life_event [OF assms(1)])
next
  case (start d m evs E sk)
  then show ?case by (intro life_start [OF assms(2) _ _ refl])
qed

text \<open>C13. A blocked contact is sent nothing. Over the whole life of a client, through any number of starts
  on the store its own events wrote, with reads that may fail and whatever events in between, no envelope
  of any batch it posts is addressed to a contact that is blocked at that moment. The life is one in which
  a process ends between events, not between two writes of one, and in which the reads of a start are
  answered before other events; the lemmas at the end of this theory show what happens otherwise.\<close>

theorem blocked_get_nothing:
  assumes "codecs_ok X" "sets_finite X" "lifetime X d m"
    and "HttpPost u a (SendBatch es) t \<in> set (snd (update X E ev m))" "e \<in> set es"
  shows "\<not> blocked (fst (update X E ev m)) (to e)"
proof (cases "replaces_tables ev")
  case True
  then have "ev \<noteq> StartFlush" "\<And>g r. ev \<noteq> SendResult g r" "\<And>g. ev \<noteq> FlushWatchdog g"
    by (auto simp: replaces_tables_def)
  from no_send_elsewhere [OF this, of X E m] assms(4) show ?thesis by fastforce
next
  case False
  have "queue_ok m" using life_always [OF assms(1-3)] by (simp add: life_ok_def)
  then show ?thesis using False assms(4,5) by (rule posts_unblocked)
qed

text \<open>A client installs, starts, is let in by the relay and writes to a new contact: a batch is posted.\<close>

lemma ref_store_encrypt: "encrypt_for ref_store_ext r a i = encrypt_for ref_app_ext r a i"
proof -
  have fields: "ed25519_pk_to_x25519 ref_store_ext = ed25519_pk_to_x25519 ref_app_ext" "x25519 ref_store_ext = x25519 ref_app_ext"
    "compress ref_store_ext = compress ref_app_ext" "derive_key ref_store_ext = derive_key ref_app_ext"
    "x25519_mult ref_store_ext = x25519_mult ref_app_ext" "x25519_basepoint ref_store_ext = x25519_basepoint ref_app_ext"
    "ed_sign ref_store_ext = ed_sign ref_app_ext" "aead_encrypt ref_store_ext = aead_encrypt ref_app_ext"
    by (simp_all add: fun_eq_iff ed25519_pk_to_x25519_def x25519_def derive_key_def compress_def ref_store_ext_def)
  have "encrypt ref_store_ext r a = encrypt ref_app_ext r a" by (intro ext) (unfold encrypt_def fields, rule refl)
  moreover have "hex_decode ref_store_ext = hex_decode ref_app_ext" by (simp add: ref_store_ext_def)
  ultimately show ?thesis by (simp only: encrypt_for_def)
qed

lemma ref_store_sets: "sets_finite ref_store_ext"
  by (auto simp: sets_finite_def ref_store_ext_def ids_finite_def bt_values_def)

lemma ref_store_verify: "de_verify ref_store_ext = (\<lambda>_. Some (lit ''t''))"
  by (simp add: ref_store_ext_def ref_app_ext_def protocol_ext.defs app_ext.defs)

definition ref_started :: model where
  "ref_started = fst (run_events ref_store_ext ref_env (IdentityLoaded (replicate 64 1) # startup_reads (\<lambda>_. None)) model_default)"

lemma ref_started_simps:
  "secret_key ref_started = Some (replicate 64 1)" "contacts ref_started = []" "outbox ref_started = []" "messages ref_started = []"
  "auth_gen ref_started = 0" "\<not> kv_load_failed ref_started" "\<not> flushing ref_started" "in_flight ref_started = None"
  "flush_paused_until ref_started = 0" "send_batch_budget ref_started = None"
  by (simp_all add: ref_started_def startup_reads_def on_identity_loaded_def ref_store_identity model_default_def parse_kv_def
      on_loaded_settings_def on_loaded_profile_def on_loaded_contacts_def on_loaded_cursor_def on_loaded_outbox_def
      on_loaded_seen_ids_def then_startup_done_def startup_done_def startup_load_done_def STARTUP_LOADS_def)

theorem blocked_get_nothing_witness:
  "\<exists>d m e. lifetime ref_store_ext d m \<and> \<not> blocked (fst (update ref_store_ext ref_env StartFlush m)) (to e) \<and>
     (\<exists>u a es t. HttpPost u a (SendBatch (e # es)) t \<in> set (snd (update ref_store_ext ref_env StartFlush m)))"
proof -
  let ?X = ref_store_ext and ?u = "update ref_store_ext ref_env"
  have live: "lifetime ?X (\<lambda>_. None) ref_started"
    unfolding ref_started_def
    by (rule lifetime.start [OF lifetime.installed])
      (unfold start_answers_def, (rule exI [of _ "Inr None"])+, simp add: startup_reads_def answered_def)
  have next_event: "\<exists>d. lifetime ?X d (fst (?u ev m))" if "\<exists>d. lifetime ?X d m" "plain_event ev" for ev m
    using that lifetime.event [OF _ ref_env_ok] by blast
  define m2 where "m2 = fst (?u (VerifyResult 0 (Inr accepted)) ref_started)"
  define m3 where "m3 = fst (?u (ComposeChanged (lit ''hi'')) (fst (?u (OpenChat ref_peer) m2)))"
  define m4 where "m4 = fst (?u SendText m3)"
  have "\<exists>d. lifetime ?X d m4"
    unfolding m4_def m3_def m2_def by (intro next_event) (use live in \<open>auto simp: plain_event_def\<close>)
  then obtain d where life: "lifetime ?X d m4" by blast
  have can: "can_text ?X ref_env (ref_identity 1) ref_peer (lit ''hi'') m3"
    using ref_started_simps ref_strings ref_trim
    by (simp add: m3_def m2_def can_text_def on_verify_result_def accepted_def on_compose_changed_def on_open_chat_def show_page_def
        blocked_def bt_get_def is_some_and_def size_caps identity_of_def ref_store_identity ref_store_verify del: ulen_def)
  note q = send_text_queues [OF can m4_def refl]
  have "serialize_payload ?X (Text (uuid ref_env) (lit ''hi'')) (now_ms ref_env 0) =
      serialize_payload ref_app_ext (Text (lit ''u'') (lit ''hi'')) 1000"
    by (simp add: serialize_payload_def ref_store_ext_def)
  then obtain rest where rest: "outbox m4 = ref_text # rest" "ref_text \<notin> set rest"
    using q(1) by (auto simp: ref_text_def)
  have rdy: "\<not> kv_load_failed m4" "flush_paused_until m4 \<le> now_ms ref_env 0" "\<exists>tok. token m4 = Some tok"
    using q(2) by (auto simp: free_to_send_def)
  have use: "encrypt_for ?X r (ref_identity 1) ref_text \<noteq> None" "body_json_ok ?X b" for r b
    by (simp_all add: ref_store_encrypt ref_text_usable) (simp add: ref_store_ext_def)
  obtain u a e es t where post: "HttpPost u a (SendBatch (e # es)) t \<in> set (snd (?u StartFlush m4))"
    using flush_sends_head [OF q(3) rdy(1,2) q(4) _ _ rest] rdy(3) use by fastforce
  then have "\<not> blocked (fst (?u StartFlush m4)) (to e)"
    by (rule blocked_get_nothing [OF ref_store_codecs ref_store_sets life]) simp
  with life post show ?thesis by blast
qed

section \<open>Where the code and its comments part\<close>

text \<open>Blocking writes the contacts before the queue. If the process ends between the two writes, the next
  start finds the contact blocked and the mail for it still queued, and nothing removes it.\<close>

lemma block_interrupted:
  assumes "codecs_ok X" "sets_finite X" "held X d m" "contacts_ok m" "\<not> kv_load_failed m" "bt_get (contacts m) p \<noteq> None"
    and "i \<in> set (outbox m)" "o_recipient i = p" "start_answers d1 evs"
    and "d1 = perform_all (take 1 (snd (update X E (SetBlocked p True) m))) d"
    and "m' = fst (run_events X E' (IdentityLoaded sk # evs) model_default)" "\<not> kv_load_failed m'"
  shows "blocked m' p \<and> i \<in> set (outbox m')"
proof -
  let ?mm = "m\<lparr>contacts := bt_modify p (\<lambda>c. c\<lparr>c_blocked := True\<rparr>) (contacts m)\<rparr>"
  have "held X d1 ?mm"
    using assms(3,5) codec_simps [OF assms(1)]
    by (simp add: assms(10) held_def on_set_blocked_def forget_outgoing_def detach_in_flight_def case_prod_unfold Let_def
        w_contacts.written)
  moreover have "contacts_ok ?mm" by (rule contacts_ok_modify [OF assms(4)]) simp
  ultimately have "contacts m' = contacts ?mm \<and> outbox m' = outbox ?mm"
    using started [OF _ _ assms(2,9,11)] assms(12) by blast
  with assms(6,7) show ?thesis by (auto simp: blocked_def is_some_and_def bt_get_simps)
qed

text \<open>A contact that is blocked after the contacts of a start were read and before the queue is: the read
  of the queue brings its mail back.\<close>

lemma block_during_start:
  assumes "bt_get (contacts m) p \<noteq> None" "parse_kv (de_outbox X) r = Inr (Some q)" "i \<in> set q" "o_recipient i = p"
    and "m' = fst (update X E' (LoadedOutbox r) (fst (update X E (SetBlocked p True) m)))"
  shows "blocked m' p \<and> i \<in> set (outbox m')"
  using assms
  by (auto simp: blocked_def is_some_and_def bt_get_simps on_loaded_outbox_def on_set_blocked_def forget_outgoing_def
      detach_in_flight_def case_prod_unfold Let_def)

end
