(* ===== verification/Replay.thy ===== *)
theory Replay
  imports Restart Tables
begin

text \<open>
  A text the relay delivers again: what the dedup sets remember over a session, and a page that
  repeats texts stored earlier in it.
\<close>

section \<open>What a session remembers\<close>

text \<open>The author of a stored text stays a contact, and its id stays in the author's dedup set as long
  as the set has never been full.\<close>

definition remembers :: "model \<Rightarrow> ustr \<Rightarrow> ustr \<Rightarrow> bool" where
  "remembers m p i \<longleftrightarrow>
     bt_get (contacts m) p \<noteq> None \<and>
     (\<exists>ids. bt_get (seen_ids m) p = Some ids \<and> finite ids \<and> (i \<in> ids \<or> MAX_SEEN_IDS_PER_PEER \<le> card ids))"

text \<open>Events between a text and its repetition: no table is read from the store and the author is not deleted.\<close>

definition same_session :: "ustr set \<Rightarrow> env \<Rightarrow> event \<Rightarrow> bool" where
  "same_session D E ev \<longleftrightarrow>
     env_ok E \<and> \<not> loads_history ev \<and> (\<forall>r. ev \<noteq> LoadedContacts r) \<and> (\<forall>p\<in>D. ev \<noteq> DeleteContact p)"

lemma remembers_cong: "remembers m p i \<Longrightarrow> contacts m' = contacts m \<Longrightarrow> seen_ids m' = seen_ids m \<Longrightarrow> remembers m' p i"
  by (simp add: remembers_def)

lemma remembers_contacts:
  "remembers m p i \<Longrightarrow> bt_get (contacts m') p \<noteq> None \<Longrightarrow> seen_ids m' = seen_ids m \<Longrightarrow> remembers m' p i"
  by (simp add: remembers_def)

lemma cap_seen_floor:
  assumes "finite ids"
  shows "cap_seen_ids E convo ids = ids \<or> MAX_SEEN_IDS_PER_PEER \<le> card (cap_seen_ids E convo ids)"
proof (cases "card ids > MAX_SEEN_IDS_PER_PEER")
  case True
  define xs where "xs = take (card ids - MAX_SEEN_IDS_PER_PEER) (filter (\<lambda>i. i \<notin> set (map m_id convo)) (hash_order E ids))"
  have "card (set xs) \<le> card ids - MAX_SEEN_IDS_PER_PEER"
    using card_length [of xs] by (simp add: xs_def min_def split: if_splits)
  moreover have "card ids - card (set xs) \<le> card (ids - set xs)" by (rule diff_card_le_card_Diff) simp
  ultimately have "MAX_SEEN_IDS_PER_PEER \<le> card (ids - set xs)" using True by linarith
  then show ?thesis using True by (simp add: cap_seen_ids_def Let_def xs_def)
qed (simp add: cap_seen_ids_def)

lemma remembers_store:
  assumes "remembers (i_model s) p i"
  shows "remembers (i_model (store_text E sender ts j body s)) p i"
proof (cases "sender = p")
  case True
  obtain ids where ids: "bt_get (seen_ids (i_model s)) p = Some ids" "finite ids" "i \<in> ids \<or> MAX_SEEN_IDS_PER_PEER \<le> card ids"
    using assms by (auto simp: remembers_def)
  then have "ids \<noteq> {}" by (auto simp: size_caps)
  moreover have "finite (cap_seen_ids E l (insert j ids)) \<and>
      (i \<in> cap_seen_ids E l (insert j ids) \<or> MAX_SEEN_IDS_PER_PEER \<le> card (cap_seen_ids E l (insert j ids)))" for l
    using cap_seen_floor [of "insert j ids" E l] cap_seen_subset [of E l "insert j ids"] ids(2,3)
      card_insert_le [of ids j]
    by (auto intro: finite_subset)
  ultimately show ?thesis
    using assms ids True by (auto simp: remembers_def store_text_def Let_def bt_get_simps or_default_def)
next
  case False
  then show ?thesis using assms by (simp add: remembers_def store_text_def Let_def bt_get_simps)
qed

lemma remembers_page:
  assumes "remembers m p i"
  shows "remembers (i_model (ingest_page X E ident prev pg m)) p i"
proof -
  let ?P = "\<lambda>s. remembers (i_model s) p i"
  have "?P (ingest_payload X E now sender parsed s)" if "?P s" for s now sender parsed
    using that
    by (intro ingest_payload_invariant [where P = ?P] ingest_text_invariant [where P = ?P])
      (auto simp: remembers_store, auto simp: remembers_def greet_stranger_def ingest_ack_def ingest_profile_def Let_def
        bt_get_simps split: option.split)
  then have "?P (ingest_events X E ident prev (now_ms E 1) (pr_events pg) (ingest_start m))"
    by (intro ingest_events_invariant [where P = ?P]) (use assms in \<open>auto simp: ingest_start_def stop_page_def Let_def remembers_def\<close>)
  then have "?P (apply_acks E (now_ms E 1) (ingest_events X E ident prev (now_ms E 1) (pr_events pg) (ingest_start m)))"
    by (intro apply_acks_invariant [where P = ?P]) (auto simp: remembers_def apply_ack_def Let_def bt_get_simps)
  then show ?thesis by (simp add: ingest_page_def queue_acks_def Let_def remembers_def)
qed

lemma remembers_poll:
  assumes "remembers m p i"
  shows "remembers (fst (ingest_poll X E pg m)) p i"
proof (cases X E pg m rule: ingest_poll_cases)
  case (page ident s)
  have "remembers (adopt_cursor E pg m) p i" using assms by (simp add: remembers_def)
  then show ?thesis unfolding page(5,3) by (rule remembers_page)
qed (use assms in \<open>simp_all add: remembers_def\<close>)

lemma remembers_update:
  assumes "remembers m p i" "same_session D E ev" "p \<in> D"
  shows "remembers (fst (update X E ev m)) p i"
proof (cases ev)
  case (SendResult g r)
  then show ?thesis using send_tables_frame [of ev g r X E m] remembers_cong [OF assms(1)] by blast
next
  case (FlushWatchdog g)
  then show ?thesis using send_tables_frame [of ev g _ X E m] remembers_cong [OF assms(1)] by blast
next
  case (PollResult g r)
  have "remembers (fst (ingest_poll X E pg (m\<lparr>polling := False, poll_retries := 0\<rparr>))) p i" for pg
    by (rule remembers_poll) (rule remembers_cong [OF assms(1)], simp_all)
  then show ?thesis
    using PollResult remembers_cong [OF assms(1)]
    by (auto simp: on_poll_result_def on_poll_page_def backoff_poll_def err_def Let_def case_prod_unfold split: sum.split option.split)
next
  case (DeleteContact q)
  then have "q \<noteq> p" using assms(2,3) by (auto simp: same_session_def)
  then show ?thesis
    using assms(1)
    by (simp add: DeleteContact remembers_def on_delete_contact_def forget_outgoing_def detach_in_flight_def case_prod_unfold Let_def
        bt_get_simps)
next
  case (AddContact input nickname)
  show ?thesis
    by (rule remembers_contacts [OF assms(1)])
      (use assms(1) in \<open>auto simp: AddContact remembers_def on_add_contact_def err_def Let_def case_prod_unfold bt_get_simps split: option.split\<close>)
next
  case (SetBlocked q b)
  show ?thesis
    by (rule remembers_contacts [OF assms(1)])
      (use assms(1) in \<open>auto simp: SetBlocked remembers_def on_set_blocked_def forget_outgoing_def detach_in_flight_def Let_def
         case_prod_unfold bt_get_simps\<close>)
next
  case SendText
  show ?thesis
    by (rule remembers_contacts [OF assms(1)])
      (use assms(1) in \<open>auto simp: SendText remembers_def send_text_def compose_text_def err_def Let_def case_prod_unfold bt_get_simps
         split: option.split\<close>)
qed (use assms(2) in \<open>auto simp: same_session_def loads_history_def\<close>,
    use remembers_cong [OF assms(1)] in \<open>simp_all add: handler_unfold next_gen_defs Let_def case_prod_unfold
      split: option.split outcome.split sum.split\<close>)

section \<open>The page that stored a text\<close>

definition newly_stored :: "model \<Rightarrow> model \<Rightarrow> ustr \<Rightarrow> ustr \<Rightarrow> bool" where
  "newly_stored m0 m1 p i \<longleftrightarrow> i \<in> set (incoming (convo_of m1 p)) \<and> i \<notin> set (incoming (convo_of m0 p))"

text \<open>A peer with a new text is a contact with a dedup set.\<close>

definition noted :: "model \<Rightarrow> ustr \<Rightarrow> model \<Rightarrow> bool" where
  "noted m0 p m \<longleftrightarrow>
     set (incoming (convo_of m p)) \<subseteq> set (incoming (convo_of m0 p)) \<or>
     bt_get (contacts m) p \<noteq> None \<and> or_default {} (bt_get (seen_ids m) p) \<noteq> {}"

lemma noted_cong:
  "noted m0 p m \<Longrightarrow> convo_of m' p = convo_of m p \<Longrightarrow> (bt_get (contacts m) p \<noteq> None \<Longrightarrow> bt_get (contacts m') p \<noteq> None) \<Longrightarrow>
     seen_ids m' = seen_ids m \<Longrightarrow> noted m0 p m'"
  by (auto simp: noted_def)

lemma noted_store:
  assumes "noted m0 p (i_model s)" "bt_get (contacts (i_model s)) sender \<noteq> None"
  shows "noted m0 p (i_model (store_text E sender ts i body s))"
proof (cases "sender = p")
  case True
  let ?s = "store_text E sender ts i body s"
  have "i \<in> cap_seen_ids E (insert_sorted l x) (insert i ids)" if "m_id x = i" for l x ids
  proof (rule cap_seen_keeps)
    have "x \<in> set (insert_sorted l x)" by (simp add: mset_insert_sorted flip: set_mset_mset)
    then show "i \<in> set (map m_id (insert_sorted l x))" using that by force
  qed simp
  then have "i \<in> or_default {} (bt_get (seen_ids (i_model ?s)) p)"
    using True by (simp add: store_text_def Let_def bt_get_simps or_default_def [of _ "Some _"])
  moreover have "contacts (i_model ?s) = contacts (i_model s)" by (simp add: store_text_def Let_def)
  ultimately show ?thesis using assms(2) True by (auto simp: noted_def)
next
  case False
  then show ?thesis using assms(1) by (simp add: noted_def store_text_def Let_def bt_get_simps)
qed

lemma noted_payload:
  assumes "noted m0 p (i_model s)"
  shows "noted m0 p (i_model (ingest_payload X E now sender parsed s))"
proof (rule ingest_payload_invariant [where P = "\<lambda>s. noted m0 p (i_model s)"], goal_cases)
  case (2 ts i body)
  have greet: "noted m0 p (i_model (greet_stranger X sender ts s))"
    by (rule noted_cong [OF assms]) (simp_all add: greet_stranger_def Let_def bt_get_simps)
  have known: "bt_get (contacts (i_model (greet_stranger X sender ts s))) sender \<noteq> None"
    by (simp add: greet_stranger_def Let_def bt_get_simps)
  show ?case using assms noted_store [OF greet known] noted_store [OF assms] by (simp add: ingest_text_def Let_def)
next
  case (3 ts ids)
  then show ?case using assms by (simp add: ingest_ack_def Let_def)
next
  case (4 ts n b ph)
  show ?case
    by (rule noted_cong [OF assms]) (auto simp: ingest_profile_def Let_def bt_get_simps split: option.split)
qed (rule assms)

lemma noted_poll: "noted m p (fst (ingest_poll X E pg m))"
proof (cases X E pg m rule: ingest_poll_cases)
  case (page ident s)
  let ?P = "\<lambda>s. noted m p (i_model s)"
  have "?P (ingest_events X E ident (cursor m) (now_ms E 1) (pr_events pg) (ingest_start (adopt_cursor E pg m)))"
    by (intro ingest_events_invariant [where P = ?P] noted_payload) (auto simp: ingest_start_def stop_page_def Let_def noted_def)
  then have "?P (apply_acks E (now_ms E 1) (ingest_events X E ident (cursor m) (now_ms E 1) (pr_events pg)
      (ingest_start (adopt_cursor E pg m))))"
    by (intro apply_acks_invariant [where P = ?P])
      (auto simp: noted_def apply_ack_def Let_def bt_get_simps or_default_def incoming_mark split: option.split)
  then show ?thesis unfolding page(5,3) by (simp add: ingest_page_def queue_acks_def Let_def noted_def)
qed (simp_all add: noted_def)

lemma dedup_covers:
  assumes "dedup_ok m" "bt_get (seen_ids m) p = Some ids" "ids \<noteq> {}"
  shows "set (incoming (convo_of m p)) \<subseteq> ids"
  using assms by (cases "bt_get (messages m) p") (auto simp: dedup_ok_def or_default_def incoming_def)

lemma stored_remembered:
  assumes "env_ok E" "tables_sound m0" "m1 = fst (ingest_poll X E pg m0)" "newly_stored m0 m1 p i"
  shows "remembers m1 p i"
proof -
  have "noted m0 p m1" unfolding assms(3) by (rule noted_poll)
  then obtain ids where ids: "bt_get (contacts m1) p \<noteq> None" "bt_get (seen_ids m1) p = Some ids" "ids \<noteq> {}"
    using assms(4) by (cases "bt_get (seen_ids m1) p") (auto simp: noted_def newly_stored_def or_default_def)
  have d: "dedup_ok m1" unfolding assms(3) by (rule tables_parts(3) [OF tables_ingest [OF assms(1,2)]])
  then have "i \<in> ids" using dedup_covers [OF d ids(2,3)] assms(4) by (auto simp: newly_stored_def)
  moreover have "finite ids" using d ids(2) by (simp add: dedup_ok_def)
  ultimately show ?thesis using ids by (simp add: remembers_def)
qed

section \<open>A page of repetitions\<close>

definition known_text :: "model \<Rightarrow> ustr \<Rightarrow> payload \<Rightarrow> bool" where
  "known_text m p pl \<longleftrightarrow> bt_get (contacts m) p \<noteq> None \<and>
     (\<exists>i body. pl = Text i body \<and> i \<in> or_default {} (bt_get (seen_ids m) p))"

definition idle :: "model \<Rightarrow> ingest \<Rightarrow> bool" where
  "idle m s \<longleftrightarrow>
     (\<forall>p. convo_of (i_model s) p = convo_of m p \<and> bt_get (seen_ids (i_model s)) p = bt_get (seen_ids m) p) \<and>
     contacts (i_model s) = contacts m \<and> outbox (i_model s) = outbox m \<and>
     i_touched s = {} \<and> \<not> i_contacts_dirty s \<and> \<not> i_outbox_dirty s \<and> i_ack_targets s = [] \<and> i_pending s = []"

lemma idle_payload:
  assumes "idle m s" "known_text m sender (pp_payload parsed)"
  shows "idle m (ingest_payload X E now sender parsed s)"
proof (rule ingest_payload_invariant [where P = "idle m"], goal_cases)
  case (2 ts i body)
  obtain ids where ids: "bt_get (seen_ids m) sender = Some ids" "i \<in> ids" "bt_get (contacts m) sender \<noteq> None"
    using assms(2) 2(3) by (cases "bt_get (seen_ids m) sender") (auto simp: known_text_def or_default_def)
  then have "ids \<noteq> {}" by blast
  with ids assms(1) show ?case
    by (auto simp: idle_def ingest_text_def store_text_def Let_def bt_get_simps or_default_def [of _ "Some _"])
qed (use assms in \<open>auto simp: known_text_def\<close>)

lemma page_repeated:
  assumes "\<And>ev p pl. ev \<in> set (pr_events pg) \<Longrightarrow> event_payload X bob ev p pl \<Longrightarrow> known_text m p pl"
    and "identity_of X m = Some bob" "env_ok E"
  shows "idle m ((ingest_start m)\<lparr>i_model := fst (ingest_poll X E pg m)\<rparr>)"
    and "\<forall>c\<in>set (snd (ingest_poll X E pg m)). c = Emit StartFlush"
proof -
  have "idle m ((ingest_start m)\<lparr>i_model := fst (ingest_poll X E pg m)\<rparr>) \<and> set (snd (ingest_poll X E pg m)) \<subseteq> {Emit StartFlush}"
  proof (cases X E pg m rule: ingest_poll_cases)
    case (page ident s)
    have id: "ident = bob" using page(2) assms(2) by simp
    define s1 where "s1 = ingest_events X E bob (cursor m) (now_ms E 1) (pr_events pg) (ingest_start (adopt_cursor E pg m))"
    have "idle m s1"
      unfolding s1_def
    proof (rule ingest_events_invariant [where P = "idle m"], goal_cases)
      case (4 s ev blob dec parsed)
      then have "event_payload X bob ev (sender_hex dec) (pp_payload parsed)" by (auto simp: event_payload_def)
      with 4 show ?case by (intro idle_payload assms(1))
    qed (auto simp: idle_def ingest_start_def stop_page_def Let_def)
    moreover from this have "apply_acks E (now_ms E 1) s1 = s1" by (intro apply_acks_none) (simp add: idle_def)
    ultimately have "idle m s"
      unfolding page(3) id by (simp add: ingest_page_def Let_def queue_acks_def idle_def del: One_nat_def flip: s1_def)
    moreover have "set (hash_order E {}) = {}" using assms(3) by (simp add: env_ok_def)
    ultimately show ?thesis
      using page(4,5,6) by (simp add: persist_page_eq idle_def ingest_start_def)
  qed (auto simp: idle_def ingest_start_def)
  then show "idle m ((ingest_start m)\<lparr>i_model := fst (ingest_poll X E pg m)\<rparr>)" "\<forall>c\<in>set (snd (ingest_poll X E pg m)). c = Emit StartFlush"
    by auto
qed

section \<open>Redelivery\<close>

text \<open>An event that, if it can be read at all, repeats a text of \<open>m1\<close> that was not in \<open>m0\<close>, whatever its
  body and timestamp: at \<open>m2\<close> the text is still in the conversation or the author's dedup set is not full.\<close>

definition redelivers :: "'z app_ext_scheme \<Rightarrow> identity \<Rightarrow> ustr set \<Rightarrow> model \<Rightarrow> model \<Rightarrow> model \<Rightarrow> poll_event \<Rightarrow> bool" where
  "redelivers X bob D m0 m1 m2 ev \<longleftrightarrow>
     (\<forall>p pl. event_payload X bob ev p pl \<longrightarrow> p \<in> D \<and>
        (\<exists>i body. pl = Text i body \<and> newly_stored m0 m1 p i \<and>
           (i \<in> set (incoming (convo_of m2 p)) \<or> card (ids_of (seen_ids m2) p) < MAX_SEEN_IDS_PER_PEER)))"

lemma session_remembers:
  assumes "continues X (same_session D) m1 m2" "remembers m1 p i" "p \<in> D"
  shows "remembers m2 p i"
  using assms(1,2) by (rule continues_invariant [where P = "\<lambda>m. remembers m p i"]) (rule remembers_update [OF _ _ assms(3)])

lemma session_tables:
  assumes "continues X (same_session D) m1 m2" "tables_sound m1"
  shows "tables_sound m2"
  using assms by (rule continues_invariant [where P = tables_sound]) (simp add: tables_update same_session_def)

text \<open>C24. A relay that repeats texts achieves nothing. Once a page stored some texts, any events of the
  session may follow that neither delete their authors nor read tables from the store. A later page, all
  of whose readable events repeat such texts, with whatever body and time, then leaves every conversation
  and every dedup set, the contacts and the outgoing queue as they are and writes nothing: nothing is shown
  twice and no second acknowledgement is queued. The dedup set is a bounded memory: the claim is for texts
  that are still in the conversation, and for the others as long as the set of their author is not full.\<close>

theorem replayed_text_ignored:
  assumes "env_ok E1" "tables_sound m0" "m1 = fst (ingest_poll X E1 pg1 m0)"
    and "continues X (same_session D) m1 m2" "identity_of X m2 = Some bob"
    and "\<forall>ev\<in>set (pr_events pg2). redelivers X bob D m0 m1 m2 ev"
    and "env_ok E2" "m3 = fst (ingest_poll X E2 pg2 m2)"
  shows "(\<forall>p. convo_of m3 p = convo_of m2 p \<and> bt_get (seen_ids m3) p = bt_get (seen_ids m2) p) \<and>
    contacts m3 = contacts m2 \<and> outbox m3 = outbox m2 \<and> (\<forall>c\<in>set (snd (ingest_poll X E2 pg2 m2)). c = Emit StartFlush)"
proof -
  have "tables_sound m1" unfolding assms(3) by (rule tables_ingest [OF assms(1,2)])
  then have d: "dedup_ok m2" using session_tables [OF assms(4)] tables_parts(3) by blast
  have known: "known_text m2 p pl" if ev: "ev \<in> set (pr_events pg2)" "event_payload X bob ev p pl" for ev p pl
  proof -
    obtain i body where i: "p \<in> D" "pl = Text i body" "newly_stored m0 m1 p i"
      "i \<in> set (incoming (convo_of m2 p)) \<or> card (ids_of (seen_ids m2) p) < MAX_SEEN_IDS_PER_PEER"
      using assms(6) ev unfolding redelivers_def by blast
    have "remembers m2 p i"
      using session_remembers [OF assms(4) stored_remembered [OF assms(1-3) i(3)] i(1)] .
    then obtain ids where ids: "bt_get (contacts m2) p \<noteq> None" "bt_get (seen_ids m2) p = Some ids"
      "i \<in> ids \<or> MAX_SEEN_IDS_PER_PEER \<le> card ids"
      unfolding remembers_def by blast
    then have "ids \<noteq> {}" by (auto simp: size_caps)
    then have "i \<in> ids" using dedup_covers [OF d ids(2)] i(4) ids by (auto simp: or_default_def)
    with ids i(2) show ?thesis by (simp add: known_text_def or_default_def)
  qed
  from page_repeated [OF known assms(5,7)] show ?thesis unfolding assms(8) by (simp add: idle_def)
qed

text \<open>A text arrives, its author's chat is opened and left, the user blocks and unblocks someone else, and
  the relay delivers the text again.\<close>

theorem replayed_text_ignored_witness:
  "\<exists>m. convo_of (fst (ingest_poll ref_app_ext ref_env ref_page m)) ref_sender = convo_of m ref_sender \<and>
     outbox (fst (ingest_poll ref_app_ext ref_env ref_page m)) = outbox m \<and> set (incoming (convo_of m ref_sender)) = {lit ''u''} \<and>
     compose m = lit ''x''"
proof -
  let ?X = ref_app_ext and ?u = "update ref_app_ext ref_env" and ?D = "{ref_sender}"
  define m1 where "m1 = fst (ingest_poll ?X ref_env ref_page ref_inbox)"
  define m2 where "m2 = fst (?u (ComposeChanged (lit ''x'')) (fst (?u (OpenChat ref_sender) (fst (?u (SetBlocked ref_peer True) m1)))))"
  have sound: "tables_sound ref_inbox"
    by (simp add: tables_sound_def contacts_ok_def history_ok_def dedup_ok_def bt_wf_def bt_keys_def bt_get_def)
  have "convo_of m1 ref_sender = [ref_msg_in]" using ref_page_stores by (simp add: m1_def or_default_def)
  then have new: "newly_stored ref_inbox m1 ref_sender (lit ''u'')" "incoming (convo_of m1 ref_sender) = [lit ''u'']"
    by (simp_all add: newly_stored_def incoming_def ref_msg_in_def or_default_def bt_get_def)
  have more: "continues ?X (same_session ?D) m1 (fst (?u ev m))"
    if "continues ?X (same_session ?D) m1 m" "same_session ?D ref_env ev" for m ev
    using that by (rule continues.more)
  have ok: "same_session ?D ref_env (SetBlocked ref_peer True)" "same_session ?D ref_env (OpenChat ref_sender)"
    "same_session ?D ref_env (ComposeChanged (lit ''x''))"
    by (simp_all add: same_session_def loads_history_def ref_env_ok)
  have run: "continues ?X (same_session ?D) m1 m2"
    unfolding m2_def by (intro more continues.here ok)
  have m2: "messages m2 = messages m1" "compose m2 = lit ''x''" "secret_key m2 = secret_key m1"
    by (simp_all add: m2_def on_compose_changed_def on_open_chat_def show_page_def on_set_blocked_def forget_outgoing_def
        detach_in_flight_def case_prod_unfold Let_def size_caps lit_def utf8_char_def)
  have "identity_of ?X m2 = Some (ref_identity 2)"
    using m2(3) ingest_frame_fields(3) [OF ingest_poll_frame, of ?X ref_env ref_page ref_inbox]
    by (simp add: m1_def identity_of_def ref_inbox_def ref_app_from_secret)
  moreover have "redelivers ?X (ref_identity 2) ?D ref_inbox m1 m2 ev" if "ev \<in> set (pr_events ref_page)" for ev
    using that ref_event_reads new m2(1) by (auto simp: redelivers_def event_payload_def ref_page_def ref_dec_def)
  ultimately show ?thesis
    using replayed_text_ignored [OF ref_env_ok sound m1_def run _ _ ref_env_ok refl, of "ref_identity 2" ref_page] new(2) m2(1,2)
    by (intro exI [of _ m2]) simp
qed

end
