(* ===== verification/Spec2Isabelle.thy ===== *)
theory Spec2Isabelle
  imports Authorship Watchdogs Tables Ffi Restart Blocking Replay
begin

text \<open>
  A verification library for the Rust core of skrepka, an end-to-end encrypted messenger
  (\<open>src/core/src\<close>). The core is a state machine: a shell sends it events, \<open>update\<close> changes the
  \<open>Model\<close> and returns commands (render, HTTP request, key-value operation, timer, or an event for the
  core itself), the shell runs the commands and feeds the results back as events, and \<open>view\<close> renders
  the model. Messages are encrypted and signed per recipient, queued in an outbox, posted in batches to
  a relay, polled by the recipient, deduplicated, stored and acknowledged.

  \<^bold>\<open>Theories and sources.\<close>

  \<^item> \<open>Prelude\<close>: bytes, strings (\<open>String\<close> is a list of Unicode scalar values, its bytes are
    \<open>utf8_encode\<close>), saturating and bounded integers, \<open>BTreeMap\<close> as an ordered association list with
    the contract \<open>keyed_store\<close>, and the \<open>outcome\<close> type for \<open>Result\<close> with panics.
  \<^item> \<open>Phonemic\<close> (\<open>phonemic.rs\<close>): the syllable tables, \<open>to_ob\<close>, \<open>from_ob\<close>, \<open>try_parse_pubkey\<close>.
  \<^item> \<open>Crypto\<close> (\<open>crypto.rs\<close>): identities, challenge signatures, \<open>encrypt\<close>, \<open>decrypt\<close>, padding. Slices
    that could be out of range are the outcome \<open>Panic\<close>.
  \<^item> \<open>Protocol\<close> (\<open>protocol.rs\<close>): payloads, \<open>serialize_payload\<close>, \<open>parse_payload\<close>, \<open>sanitize_text\<close>.
  \<^item> \<open>Domain\<close> (\<open>model.rs\<close>): the stored records and their methods.
  \<^item> \<open>Conversation\<close> (\<open>insert_sorted\<close>, \<open>trim_history\<close> of \<open>app.rs\<close>) with the contract \<open>bounded_log\<close>.
  \<^item> \<open>App_State\<close> (\<open>app.rs\<close> up to \<open>impl App\<close>, and the guarded writes): constants, events, commands,
    \<open>Model\<close> as the record \<open>model\<close>, generations as 64-bit words, the contracts \<open>guarded_write\<close> (the
    five \<open>persist\<close> operations) and \<open>gen_guard\<close> (the three request guards).
  \<^item> \<open>Outbox\<close> (\<open>flush_next\<close>, \<open>retry_batch\<close>, \<open>encrypt_for\<close>, the \<open>SendResult\<close> and \<open>FlushWatchdog\<close> arms).
  \<^item> \<open>Ingest\<close>, \<open>Ingest_Invariants\<close>, \<open>Ingest_Correct\<close> (\<open>ingest_poll\<close>): the loop over a poll page with
    its local variables as the record \<open>ingest\<close>, its invariants, and what a page as a whole does.
  \<^item> \<open>Lifecycle\<close>, \<open>Actions\<close>, \<open>Update\<close> (the remaining arms of \<open>update\<close>, \<open>startup_done\<close>,
    \<open>send_text\<close>): one definition per arm, and \<open>update\<close> dispatching to them.
  \<^item> \<open>View\<close> (\<open>view\<close> and the view types of \<open>model.rs\<close>).
  \<^item> \<open>Slots\<close>, \<open>Runs\<close>: the abstract request machine each round trip refines, and the transition system
    of core and shell: a state is the model with the multiset of unanswered commands, a step is a user
    event or the answer to any pending command under any clock and randomness, and commands may be lost.
    A \<open>patient\<close> run is one in which the shell may lose any answer but no timer and no internal event.
    The contract \<open>request_slot\<close> is interpreted for polling, authenticating and sending.
  \<^item> \<open>Ffi\<close> (\<open>ffi.rs\<close>): the bincode boundary over the bridge as a parameter, the panic barrier \<open>guard\<close>,
    and \<open>ffi_session\<close>, the shell's own sequence of calls.
  \<^item> \<open>Sessions\<close>, \<open>Tables\<close>, \<open>Queue\<close>, \<open>Watchdogs\<close>, \<open>Broadcast\<close>, \<open>Replay\<close>: properties of whole sessions.
    \<open>continues\<close> leads from one model to another by events of a stated kind; \<open>Replay\<close> follows with it what the
    dedup sets remember between a text and its repetition.
    \<open>Watchdogs\<close> extends the contract \<open>request_slot\<close> to \<open>watched_slot\<close>, with the same three interpretations.
  \<^item> \<open>Storage\<close>, \<open>Restart\<close>: the key-value store as a function from keys to bytes on which the writes of
    each step are performed in order, the predicate \<open>mirrored\<close> (it decodes to the model), and the reads
    of a new session answered from it. \<open>Blocking\<close> strings any number of starts on one store together
    (\<open>lifetime\<close>), with reads that may fail.
  \<^item> \<open>Delivery\<close>, \<open>Receipts\<close>, \<open>Authorship\<close>: properties of two clients. \<open>Authorship\<close> follows a client over all
    its sessions with a diary (\<open>journal\<close>) of what it queued, composed and opened.

  \<^bold>\<open>What is external.\<close> Code outside the repository is a field of the records \<open>phonemic_ext\<close>,
  \<open>crypto_ext\<close>, \<open>protocol_ext\<close> and \<open>app_ext\<close>, each extending the one before: hex, Unicode lower case,
  Ed25519, X25519, HKDF, XChaCha20-Poly1305, zstd, the JSON codec, base64, the \<open>url\<close> parser, serde's
  derived codecs and the request builder. What the proofs use of them are the predicates
  \<open>phonemic_ext_ok\<close>, \<open>crypto_ext_ok\<close>, \<open>protocol_ext_ok\<close> and \<open>codecs_ok\<close>: decoding inverts encoding, signatures of a key
  verify, key agreement commutes, lengths are as documented. Forgery is excluded only where a theorem
  says so, by \<open>unforged\<close>: of the blobs a page holds, those with a valid signature of the author carry one
  the author's client made; what it made is over-approximated by \<open>signs\<close>. The other theorems on what a
  peer can do say what a signature covers. The reference instances \<open>ref_phonemic_ext\<close> to
  \<open>ref_app_ext\<close> satisfy them and drive the witnesses. Clock readings, randomness, fresh ids and the
  iteration order of hash sets are the record \<open>env\<close>, arbitrary at every step; \<open>env_ok\<close> only says that
  iterating a set visits each element once, and \<open>sets_finite\<close> that a decoded hash set is finite.

  \<^bold>\<open>What is shown.\<close>

  \<^item> Delivery: a composed text is queued, flushed, sealed, opened, parsed and stored by its recipient;
    every stored message is acknowledged by an item the sender's code parses, and that receipt, once
    polled, marks the message delivered on the author's side; a page that repeats texts
    stored earlier in the session changes nothing, while a text is in its conversation or the dedup set of its
    author has room; a changed profile reaches every contact; round trips of encryption, payloads and key spellings.
  \<^item> Authenticity: \<open>decrypt\<close> accepts only contents signed by the reported sender for this recipient;
    a page adds only texts signed by that peer and marks delivered only what that peer acknowledged. If
    signatures cannot be forged, every text shown was composed by the peer's user for this client, and
    every message marked delivered was opened by the peer's client, over any number of their sessions.
  \<^item> Sending: a batch is one recipient's head of the queue, as long as its limits admit; failures, rate
    limits and size errors keep what they must; an accepted send removes exactly what was posted,
    whatever the user did meanwhile; an accepting relay drains the queue. Blocked contacts are sent nothing
    over all starts of a client, if the process ends between events and the reads of a start are answered
    before other events; lemmas at the end of \<open>Blocking\<close> show how their mail can stay queued otherwise.
  \<^item> Requests: every event refines the abstract slot; at most one live request per round trip in every
    reachable state; every live request has its watchdog pending, so a session whose core is left
    alone with its timers is never stuck; a relay change fences off all outstanding answers; every
    request goes to a known endpoint under a validated address.
  \<^item> Storage: the store decodes to the model after every event and, but for the cursor, which then has not
    moved, after a crash between two writes; a restart rebuilds the model from it; after a failed read, other than that of the
    dedup sets, nothing is written or sent, and only a conversation the user deletes is deleted; a late
    conversation load merges; the session connects once, after its reads; every event keeps contacts
    and conversations well formed.
  \<^item> Robustness: \<open>decrypt\<close> and \<open>encrypt\<close> never panic, parsed payloads, conversations, contacts and dedup
    sets stay within their limits, the cursor moves only forward, and a page over its
    limits of which nothing was read does not move it.
  \<^item> View: the contact list is the contacts, the most recently active first, each with its newest text; the
    messages are those of the open chat.
  \<^item> Boundary: the byte strings a shell exchanges with \<open>ffi.rs\<close> are runs of the transition system, under
    the law \<open>hosts\<close> of the bridge (it decodes, runs \<open>update\<close>, encodes); a panic or an error of
    the bridge is the empty answer.

  \<^bold>\<open>Bounds.\<close> No definition uses fuel: the batch loop and the binary search have termination proofs, all
  other loops are structural. Generations are words of 64 bits, so the theorems on reachable states
  bound the run by \<open>2 * n < 2 ^ 64\<close> steps, since an event opens at most two generations. Retry counters
  saturate at 32 bits and timestamps at 64, as in the code. \<open>drain\<close> takes the number of answers, and the
  length of the queue is shown to be enough. \<open>session_never_stalls\<close> bounds by five the timers and
  internal events that fire before a request is on its way again.

  \<^bold>\<open>Not modelled.\<close> \<open>lib.rs\<close> and \<open>bin/codegen.rs\<close> (declarations and build-time generation), the tests,
  zeroisation of secrets, the Swift shell and the relay; the relay is any sequence of HTTP results, and
  the shell any interleaving of answers. \<open>Command\<close> combinators are the list of requested effects: the
  order in which a shell runs them is left open by the transition system; only \<open>Storage\<close> assumes that
  key-value operations are performed in the order of the list, as the serial queue of the shell does,
  and succeed. Stored conversations are read after the connection may have started; what is lost when
  a message overtakes that read is stated at the end of \<open>Restart\<close>.
\<close>

end
